(* ===== verification/Prelude.thy ===== *)
theory Prelude
  imports Main "HOL-Library.Word"
begin

text \<open>
  What every component shares: the machine types of the Rust sources, the
  outcome of a Rust function (a value, an \<open>Err\<close>, or a panic), the state
  monad in which a stateful operation keeps its mutations on every outcome,
  checked and overflowing arithmetic, and big-endian byte strings.

  Integers.  A \<open>U256\<close> is a 256-bit word, an \<open>Address\<close> a 160-bit one and a
  hash a 256-bit one; lengths, offsets and the other \<open>usize\<close> quantities that
  index vectors are natural numbers, with the bound of the type written out
  where an operation can pass it.  The release profile of the workspace
  compiles with overflow checks, and the operators of \<open>U256\<close> always check, so
  that a plain \<open>+\<close>, \<open>-\<close> or \<open>*\<close> that overflows is a panic.
\<close>

unbundle bit_operations_syntax

named_theorems outcome_simps \<open>unfolding the outcome and state monads\<close>
named_theorems arith_defs \<open>definitions of checked and overflowing arithmetic\<close>

section \<open>Machine types\<close>

type_synonym u8 = "8 word"
type_synonym u64 = "64 word"
type_synonym u128 = "128 word"
type_synonym U256 = "256 word"
type_synonym U512 = "512 word"
type_synonym H256 = "256 word"
type_synonym Address = "160 word"
type_synonym Bytes = "8 word list"
type_synonym usize = nat

definition usize_MAX :: usize where
  "usize_MAX = 2 ^ 64 - 1"

lemma usize_MAX_eq: "usize_MAX = 18446744073709551615"
  by (simp add: usize_MAX_def)

section \<open>Outcomes\<close>

text \<open>
  A Rust function that returns \<open>Result<T, E>\<close> yields \<open>Ok\<close> or \<open>Err\<close>; an
  overflow check, an index out of range, an \<open>expect\<close> or an \<open>unreachable!\<close>
  that is hit is \<open>Panic\<close>.
\<close>

datatype ('e, 'a) outcome = Ok 'a | Err 'e | Panic

primrec bind :: "('e, 'a) outcome \<Rightarrow> ('a \<Rightarrow> ('e, 'b) outcome) \<Rightarrow> ('e, 'b) outcome" where
  "bind (Ok x) f = f x"
| "bind (Err e) f = Err e"
| "bind Panic f = Panic"

primrec map_err :: "('e \<Rightarrow> 'f) \<Rightarrow> ('e, 'a) outcome \<Rightarrow> ('f, 'a) outcome" where
  "map_err g (Ok x) = Ok x"
| "map_err g (Err e) = Err (g e)"
| "map_err g Panic = Panic"

primrec expect :: "'a option \<Rightarrow> ('e, 'a) outcome" where
  "expect None = Panic"
| "expect (Some x) = Ok x"

text \<open>The value of a success.\<close>

primrec ok :: "('e, 'a) outcome \<Rightarrow> 'a option" where
  "ok (Ok x) = Some x"
| "ok (Err e) = None"
| "ok Panic = None"

lemma ok_bind [simp]: "ok (bind m f) = Option.bind (ok m) (\<lambda>x. ok (f x))"
  by (cases m) simp_all

lemma ok_eq_Some [simp]: "ok m = Some x \<longleftrightarrow> m = Ok x"
  by (cases m) auto

lemma bind_assoc [simp]: "bind (bind m f) g = bind m (\<lambda>x. bind (f x) g)"
  by (cases m) simp_all

lemma bind_eq_Ok [outcome_simps]:
  "bind m f = Ok y \<longleftrightarrow> (\<exists>x. m = Ok x \<and> f x = Ok y)"
  by (cases m) simp_all

lemma bind_eq_Panic [outcome_simps]:
  "bind m f = Panic \<longleftrightarrow> m = Panic \<or> (\<exists>x. m = Ok x \<and> f x = Panic)"
  by (cases m) simp_all

lemma bind_eq_Err [outcome_simps]:
  "bind m f = Err e \<longleftrightarrow> m = Err e \<or> (\<exists>x. m = Ok x \<and> f x = Err e)"
  by (cases m) simp_all

lemma map_err_eq_Panic [simp]: "map_err g m = Panic \<longleftrightarrow> m = Panic"
  by (cases m) simp_all

lemma map_err_eq_Ok [simp]: "map_err g m = Ok x \<longleftrightarrow> m = Ok x"
  by (cases m) simp_all

lemma expect_eq_Panic [simp]: "expect x = Panic \<longleftrightarrow> x = None"
  by (cases x) simp_all

lemma expect_eq_Ok [simp]: "expect x = Ok y \<longleftrightarrow> x = Some y"
  by (cases x) simp_all

lemma expect_neq_Err [simp]: "expect x \<noteq> Err e"
  by (cases x) simp_all

section \<open>Stateful operations\<close>

text \<open>
  A method on \<open>&mut self\<close> is a function from the state to an outcome and the
  state it leaves.  The state survives an \<open>Err\<close>, as it does in Rust.
\<close>

type_synonym ('s, 'e, 'a) op = "'s \<Rightarrow> ('e, 'a) outcome \<times> 's"

definition ret :: "'a \<Rightarrow> ('s, 'e, 'a) op" where
  "ret x = (\<lambda>s. (Ok x, s))"

definition lift_outcome :: "('e, 'a) outcome \<Rightarrow> ('s, 'e, 'a) op" where
  "lift_outcome r = (\<lambda>s. (r, s))"

abbreviation throw :: "'e \<Rightarrow> ('s, 'e, 'a) op" where
  "throw e \<equiv> lift_outcome (Err e)"

abbreviation panic :: "('s, 'e, 'a) op" where
  "panic \<equiv> lift_outcome Panic"

definition andThen :: "('s, 'e, 'a) op \<Rightarrow> ('a \<Rightarrow> ('s, 'e, 'b) op) \<Rightarrow> ('s, 'e, 'b) op" where
  "andThen m f = (\<lambda>s. case m s of
     (Ok x, s') \<Rightarrow> f x s'
   | (Err e, s') \<Rightarrow> (Err e, s')
   | (Panic, s') \<Rightarrow> (Panic, s'))"

definition gets :: "('s \<Rightarrow> 'a) \<Rightarrow> ('s, 'e, 'a) op" where
  "gets f = (\<lambda>s. (Ok (f s), s))"

definition modify :: "('s \<Rightarrow> 's) \<Rightarrow> ('s, 'e, unit) op" where
  "modify f = (\<lambda>s. (Ok (), f s))"

definition map_op_err :: "('e \<Rightarrow> 'f) \<Rightarrow> ('s, 'e, 'a) op \<Rightarrow> ('s, 'f, 'a) op" where
  "map_op_err g m = (\<lambda>s. case m s of (r, s') \<Rightarrow> (map_err g r, s'))"

lemma ret_apply [simp]: "ret x s = (Ok x, s)"
  by (simp add: ret_def)

lemma lift_outcome_apply [simp]: "lift_outcome r s = (r, s)"
  by (simp add: lift_outcome_def)

lemma gets_apply [simp]: "gets f s = (Ok (f s), s)"
  by (simp add: gets_def)

lemma modify_apply [simp]: "modify f s = (Ok (), f s)"
  by (simp add: modify_def)

lemma andThen_Ok: "m s = (Ok x, s') \<Longrightarrow> andThen m f s = f x s'"
  by (simp add: andThen_def)

lemma andThen_Err: "m s = (Err e, s') \<Longrightarrow> andThen m f s = (Err e, s')"
  by (simp add: andThen_def)

lemma andThen_Panic: "m s = (Panic, s') \<Longrightarrow> andThen m f s = (Panic, s')"
  by (simp add: andThen_def)

lemma andThen_unit: "m s = (Ok (), s') \<Longrightarrow> andThen m f s = f () s'"
  by (simp add: andThen_def)

lemmas andThen_run [simp] = andThen_unit andThen_Ok andThen_Err andThen_Panic

lemma andThen_lift [simp]:
  "andThen (lift_outcome r) f s =
     (case r of Ok x \<Rightarrow> f x s | Err e \<Rightarrow> (Err e, s) | Panic \<Rightarrow> (Panic, s))"
  by (cases r) simp_all

lemma andThen_ret [simp]: "andThen (ret x) f s = f x s"
  by simp

lemma andThen_gets [simp]: "andThen (gets g) f s = f (g s) s"
  by simp

lemma andThen_modify [simp]: "andThen (modify g) f s = f () (g s)"
  by simp

lemma andThen_assoc [simp]:
  "andThen (andThen m f) g = andThen m (\<lambda>x. andThen (f x) g)"
  by (rule ext) (simp add: andThen_def split: prod.split outcome.split)

subsection \<open>What an operation guarantees\<close>

text \<open>
  \<open>wp m Q\<close> holds of the states from which \<open>m\<close> does not panic and in which its
  outcome and its final state satisfy \<open>Q\<close>.  The rules of \<open>wp_intro\<close> walk an
  operation from its first step to its last.
\<close>

named_theorems wp_intro \<open>introduction rules for the guarantees of operations\<close>

definition wp :: "('s, 'e, 'a) op \<Rightarrow> (('e, 'a) outcome \<Rightarrow> 's \<Rightarrow> bool) \<Rightarrow> 's \<Rightarrow> bool" where
  "wp m Q s \<longleftrightarrow> fst (m s) \<noteq> Panic \<and> Q (fst (m s)) (snd (m s))"

lemma wp_ret [wp_intro]: "Q (Ok x) s \<Longrightarrow> wp (ret x) Q s"
  by (simp add: wp_def)

lemma wp_gets [wp_intro]: "Q (Ok (f s)) s \<Longrightarrow> wp (gets f) Q s"
  by (simp add: wp_def)

lemma wp_modify [wp_intro]: "Q (Ok ()) (f s) \<Longrightarrow> wp (modify f) Q s"
  by (simp add: wp_def)

lemma wp_lift [wp_intro]: "r \<noteq> Panic \<Longrightarrow> Q r s \<Longrightarrow> wp (lift_outcome r) Q s"
  by (simp add: wp_def)

lemma wp_andThen [wp_intro]:
  assumes "wp m (\<lambda>r s'. case r of Ok x \<Rightarrow> wp (f x) Q s' | Err e \<Rightarrow> Q (Err e) s' | Panic \<Rightarrow> False) s"
  shows "wp (andThen m f) Q s"
  using assms by (auto simp: wp_def andThen_def split: prod.splits outcome.splits)

lemma wp_mono:
  assumes "wp m Q s" and "\<And>r s'. r \<noteq> Panic \<Longrightarrow> Q r s' \<Longrightarrow> R r s'"
  shows "wp m R s"
  using assms by (simp add: wp_def)

lemma wp_conj: "wp m Q s \<Longrightarrow> wp m R s \<Longrightarrow> wp m (\<lambda>r s'. Q r s' \<and> R r s') s"
  by (simp add: wp_def)

section \<open>Checked and overflowing arithmetic\<close>

definition usize_add :: "usize \<Rightarrow> usize \<Rightarrow> ('e, usize) outcome" where [arith_defs]:
  "usize_add a b = (if a + b \<le> usize_MAX then Ok (a + b) else Panic)"

definition usize_sub :: "usize \<Rightarrow> usize \<Rightarrow> ('e, usize) outcome" where [arith_defs]:
  "usize_sub a b = (if b \<le> a then Ok (a - b) else Panic)"

definition usize_mul :: "usize \<Rightarrow> usize \<Rightarrow> ('e, usize) outcome" where [arith_defs]:
  "usize_mul a b = (if a * b \<le> usize_MAX then Ok (a * b) else Panic)"

text \<open>The plain operators on \<open>U256\<close>, and on \<open>u64\<close> or \<open>u128\<close> words, panic on overflow.\<close>

definition word_add :: "'a::len word \<Rightarrow> 'a word \<Rightarrow> ('e, 'a word) outcome" where [arith_defs]:
  "word_add a b = (if unat a + unat b < 2 ^ LENGTH('a) then Ok (a + b) else Panic)"

definition word_sub :: "'a::len word \<Rightarrow> 'a word \<Rightarrow> ('e, 'a word) outcome" where [arith_defs]:
  "word_sub a b = (if b \<le> a then Ok (a - b) else Panic)"

definition word_mul :: "'a::len word \<Rightarrow> 'a word \<Rightarrow> ('e, 'a word) outcome" where [arith_defs]:
  "word_mul a b = (if unat a * unat b < 2 ^ LENGTH('a) then Ok (a * b) else Panic)"

definition word_div :: "'a::len word \<Rightarrow> 'a word \<Rightarrow> ('e, 'a word) outcome" where [arith_defs]:
  "word_div a b = (if b = 0 then Panic else Ok (a div b))"

definition word_rem :: "'a::len word \<Rightarrow> 'a word \<Rightarrow> ('e, 'a word) outcome" where [arith_defs]:
  "word_rem a b = (if b = 0 then Panic else Ok (a mod b))"

definition overflowing_add :: "'a::len word \<Rightarrow> 'a word \<Rightarrow> 'a word \<times> bool" where [arith_defs]:
  "overflowing_add a b = (a + b, 2 ^ LENGTH('a) \<le> unat a + unat b)"

definition overflowing_sub :: "'a::len word \<Rightarrow> 'a word \<Rightarrow> 'a word \<times> bool" where [arith_defs]:
  "overflowing_sub a b = (a - b, a < b)"

definition overflowing_mul :: "'a::len word \<Rightarrow> 'a word \<Rightarrow> 'a word \<times> bool" where [arith_defs]:
  "overflowing_mul a b = (a * b, 2 ^ LENGTH('a) \<le> unat a * unat b)"

definition checked_add :: "'a::len word \<Rightarrow> 'a word \<Rightarrow> 'a word option" where [arith_defs]:
  "checked_add a b = (if unat a + unat b < 2 ^ LENGTH('a) then Some (a + b) else None)"

definition checked_sub :: "'a::len word \<Rightarrow> 'a word \<Rightarrow> 'a word option" where [arith_defs]:
  "checked_sub a b = (if b \<le> a then Some (a - b) else None)"

definition saturating_add :: "'a::len word \<Rightarrow> 'a word \<Rightarrow> 'a word" where [arith_defs]:
  "saturating_add a b = (if unat a + unat b < 2 ^ LENGTH('a) then a + b else - 1)"

definition saturating_sub :: "'a::len word \<Rightarrow> 'a word \<Rightarrow> 'a word" where [arith_defs]:
  "saturating_sub a b = (if b \<le> a then a - b else 0)"

lemma unat_add_exact:
  "unat (a::'a::len word) + unat b < 2 ^ LENGTH('a) \<Longrightarrow> unat (a + b) = unat a + unat b"
  by (simp add: unat_add_lem)

lemma unat_sub_exact: "(b::'a::len word) \<le> a \<Longrightarrow> unat (a - b) = unat a - unat b"
  by (rule unat_sub)

lemma unat_mul_exact:
  "unat (a::'a::len word) * unat b < 2 ^ LENGTH('a) \<Longrightarrow> unat (a * b) = unat a * unat b"
  by (simp add: unat_mult_lem)

lemma word_add_Ok: "word_add a b = Ok c \<Longrightarrow> unat c = unat a + unat b"
  by (auto simp: word_add_def unat_add_exact split: if_splits)

lemma word_sub_Ok: "word_sub a b = Ok c \<Longrightarrow> b \<le> a \<and> unat c = unat a - unat b"
  by (auto simp: word_sub_def unat_sub_exact split: if_splits)

lemma word_mul_Ok: "word_mul a b = Ok c \<Longrightarrow> unat c = unat a * unat b"
  by (auto simp: word_mul_def unat_mul_exact split: if_splits)

lemma unat_lt_exp: "unat (a::'a::len word) < 2 ^ LENGTH('a)"
  by (rule unsigned_less)

lemma unat_of_nat_exact: "n < 2 ^ LENGTH('a) \<Longrightarrow> unat (of_nat n :: 'a::len word) = n"
  by (simp add: unat_of_nat take_bit_nat_eq_self)

lemma word_eq_unatI: "unat (a::'a::len word) = unat b \<Longrightarrow> a = b"
  by (simp add: word_unat_eq_iff)

lemma unat_ucast_wide:
  assumes "LENGTH('a) \<le> LENGTH('b)"
  shows "unat (ucast (w :: 'a::len word) :: 'b::len word) = unat w"
proof -
  have "unat w < 2 ^ LENGTH('b)"
    using unat_lt_exp [of w] assms by (meson less_le_trans one_le_numeral power_increasing)
  then show ?thesis by (simp add: unsigned_ucast_eq take_bit_nat_eq_self)
qed

lemma unat_5word: "unat (n :: 5 word) \<le> 31"
  using unat_lt_exp [of n] by simp

lemma unat_4word: "unat (n :: 4 word) \<le> 15"
  using unat_lt_exp [of n] by simp

text \<open>Every word of a small width is one of its numerals.\<close>

lemma word5_cases:
  "(n :: 5 word) \<in>
      {0, 1, 2, 3, 4, 5, 6, 7, 8, 9, 10, 11, 12, 13, 14, 15, 16, 17, 18, 19, 20, 21, 22, 23,
       24, 25, 26, 27, 28, 29, 30, 31}"
proof -
  have "n \<in> of_nat ` {..<32}"
    using unat_lt_exp [of n] by (intro image_eqI [of _ _ "unat n"]) simp_all
  also have "{..<32::nat} = set [0..<32]" by auto
  also have "[0..<32] =
      [0, 1, 2, 3, 4, 5, 6, 7, 8, 9, 10, 11, 12, 13, 14, 15, 16, 17, 18, 19, 20, 21, 22, 23,
       24, 25, 26, 27, 28, 29, 30, 31]"
    by (simp add: upt_rec)
  finally show ?thesis by simp
qed

lemma word4_cases:
  "(n :: 4 word) \<in>
      {0, 1, 2, 3, 4, 5, 6, 7, 8, 9, 10, 11, 12, 13, 14, 15}"
proof -
  have "n \<in> of_nat ` {..<16}"
    using unat_lt_exp [of n] by (intro image_eqI [of _ _ "unat n"]) simp_all
  also have "{..<16::nat} = set [0..<16]" by auto
  also have "[0..<16] =
      [0, 1, 2, 3, 4, 5, 6, 7, 8, 9, 10, 11, 12, 13, 14, 15]"
    by (simp add: upt_rec)
  finally show ?thesis by simp
qed

lemma unat_drop_bit: "unat (drop_bit n (w :: 'a::len word)) = unat w div 2 ^ n"
  by (subst unat_drop_bit_eq) (rule drop_bit_eq_div)

lemma drop_bit_word_pos: "0 < drop_bit n (w :: 'a::len word) \<longleftrightarrow> 2 ^ n \<le> unat w"
  by (simp only: word_less_nat_alt unat_drop_bit unat_0) (simp add: div_greater_zero_iff)

lemma unat_ucast_mod: "unat (ucast (w :: 'a::len word) :: 'b::len word) = unat w mod 2 ^ LENGTH('b)"
  by (simp only: unsigned_ucast_eq take_bit_eq_mod)

section \<open>Lists and maps\<close>

lemma map_of_map_inj:
  "inj f \<Longrightarrow> map_of (map (\<lambda>(k, v). (f k, v)) xs) (f k) = map_of xs k"
  by (induction xs) (auto simp: inj_eq)

section \<open>Big-endian bytes\<close>

text \<open>
  \<open>be_nat\<close> is the number a byte string spells, \<open>be_digits k n\<close> the last \<open>k\<close>
  base-256 digits of \<open>n\<close>; \<open>from_be\<close> and \<open>to_be\<close> are the conversions of a word
  from and to big-endian bytes (\<open>U256::from(&[u8])\<close>, \<open>to_big_endian\<close>).
\<close>

definition be_nat :: "Bytes \<Rightarrow> nat" where
  "be_nat bs = foldl (\<lambda>a b. a * 256 + unat b) 0 bs"

primrec be_digits :: "nat \<Rightarrow> nat \<Rightarrow> Bytes" where
  "be_digits 0 n = []"
| "be_digits (Suc k) n = be_digits k (n div 256) @ [of_nat n]"

definition from_be :: "Bytes \<Rightarrow> 'a::len word" where
  "from_be bs = of_nat (be_nat bs)"

definition to_be :: "nat \<Rightarrow> 'a::len word \<Rightarrow> Bytes" where
  "to_be k w = be_digits k (unat w)"

lemma be_nat_Nil [simp]: "be_nat [] = 0"
  by (simp add: be_nat_def)

lemma be_nat_snoc [simp]: "be_nat (bs @ [b]) = be_nat bs * 256 + unat b"
  by (simp add: be_nat_def)

lemma length_be_digits [simp]: "length (be_digits k n) = k"
  by (induction k arbitrary: n) simp_all

lemma length_to_be [simp]: "length (to_be k w) = k"
  by (simp add: to_be_def)

lemma be_nat_bound: "be_nat bs < 256 ^ length bs"
proof (induction bs rule: rev_induct)
  case (snoc b bs)
  have "unat b < 256" using unat_lt_exp [of b] by simp
  with snoc show ?case by simp
qed simp

lemma be_nat_digits: "be_nat (be_digits k n) = n mod 256 ^ k"
proof (induction k arbitrary: n)
  case (Suc k)
  have "n mod 256 ^ Suc k = 256 * (n div 256 mod 256 ^ k) + n mod 256"
    by (simp add: mod_mult2_eq)
  then show ?case using Suc by (simp add: unat_of_nat take_bit_eq_mod mult.commute)
qed simp

lemma be_digits_nat: "be_digits (length bs) (be_nat bs) = bs"
proof (induction bs rule: rev_induct)
  case (snoc b bs)
  have "unat b < 256" using unat_lt_exp [of b] by simp
  moreover have "(256 :: u8) = 0" by (rule word_eq_unatI) simp
  then have "(w :: u8) * 256 = 0" for w by (metis mult_zero_right)
  then have "(of_nat (be_nat bs * 256 + unat b) :: u8) = b" by simp
  ultimately show ?case using snoc by simp
qed simp

lemma be_digits_nth: "i < k \<Longrightarrow> be_digits k n ! i = of_nat (n div 256 ^ (k - 1 - i))"
proof (induction k arbitrary: n i)
  case (Suc k)
  then show ?case
    by (cases "i = k") (auto simp: nth_append div_mult2_eq [symmetric] Suc_diff_Suc simp flip: power_Suc)
qed simp

lemma from_be_to_be:
  assumes "LENGTH('a) \<le> 8 * k"
  shows "from_be (to_be k (w :: 'a::len word)) = w"
proof -
  have "unat w < 2 ^ LENGTH('a)" by (rule unat_lt_exp)
  also have "\<dots> \<le> 2 ^ (8 * k)" using assms by (intro power_increasing) simp_all
  finally have "unat w < 256 ^ k" by (simp add: power_mult)
  then show ?thesis by (simp add: from_be_def to_be_def be_nat_digits)
qed

lemma unat_from_be:
  assumes "8 * length bs \<le> LENGTH('a)"
  shows "unat (from_be bs :: 'a::len word) = be_nat bs"
proof -
  have "be_nat bs < 2 ^ (8 * length bs)" using be_nat_bound [of bs] by (simp add: power_mult)
  also have "\<dots> \<le> 2 ^ LENGTH('a)" using assms by (intro power_increasing) simp_all
  finally show ?thesis by (simp add: from_be_def unat_of_nat_exact)
qed

lemma to_be_from_be:
  assumes "8 * length bs \<le> LENGTH('a)"
  shows "to_be (length bs) (from_be bs :: 'a::len word) = bs"
  by (simp add: to_be_def unat_from_be [OF assms] be_digits_nat)

section \<open>Operations on a field\<close>

text \<open>Running an operation of a component on the field of a larger state that holds it.\<close>

definition zoom :: "('s \<Rightarrow> 't) \<Rightarrow> ('t \<Rightarrow> 's \<Rightarrow> 's) \<Rightarrow> ('t, 'e, 'a) op \<Rightarrow> ('s, 'e, 'a) op" where
  "zoom get put m = (\<lambda>s. case m (get s) of (r, t) \<Rightarrow> (r, put t s))"

lemma zoom_apply: "m (get s) = (r, t) \<Longrightarrow> zoom get put m s = (r, put t s)"
  by (simp add: zoom_def)

lemma wp_zoom [wp_intro]:
  "wp m (\<lambda>r t. Q r (put t s)) (get s) \<Longrightarrow> wp (zoom get put m) Q s"
  by (auto simp: wp_def zoom_def split: prod.splits)

section \<open>Low words and slices\<close>

definition low_u64 :: "'a::len word \<Rightarrow> usize" where
  "low_u64 v = unat v mod 2 ^ 64"

lemma low_u64_le: "low_u64 v \<le> usize_MAX"
  by (simp add: low_u64_def usize_MAX_def less_Suc_eq_le [symmetric])

lemma low_u64_small: "unat v < 2 ^ 64 \<Longrightarrow> low_u64 v = unat v"
  by (simp add: low_u64_def)

text \<open>\<open>&xs[lo..hi]\<close> panics unless \<open>lo \<le> hi \<le> len\<close>.\<close>

definition slice :: "'a list \<Rightarrow> usize \<Rightarrow> usize \<Rightarrow> ('e, 'a list) outcome" where
  "slice xs lo hi = (if lo \<le> hi \<and> hi \<le> length xs then Ok (take (hi - lo) (drop lo xs)) else Panic)"

definition index :: "'a list \<Rightarrow> usize \<Rightarrow> ('e, 'a) outcome" where
  "index xs i = (if i < length xs then Ok (xs ! i) else Panic)"

text \<open>\<open>xs[lo..].copy_from_slice(ys)\<close> for a range inside the vector.\<close>

definition overwrite :: "'a list \<Rightarrow> nat \<Rightarrow> 'a list \<Rightarrow> 'a list" where
  "overwrite xs lo ys = take lo xs @ ys @ drop (lo + length ys) xs"

lemma length_overwrite [simp]: "lo + length ys \<le> length xs \<Longrightarrow> length (overwrite xs lo ys) = length xs"
  by (simp add: overwrite_def)

lemma overwrite_nth:
  assumes "lo + length ys \<le> length xs" "i < length xs"
  shows "overwrite xs lo ys ! i = (if lo \<le> i \<and> i < lo + length ys then ys ! (i - lo) else xs ! i)"
  using assms by (auto simp: overwrite_def nth_append)

lemma take_drop_overwrite:
  "lo + length ys \<le> length xs \<Longrightarrow> take (length ys) (drop lo (overwrite xs lo ys)) = ys"
  by (simp add: overwrite_def)

lemma slice_eq_Ok [simp]:
  "slice xs lo hi = Ok ys \<longleftrightarrow> lo \<le> hi \<and> hi \<le> length xs \<and> ys = take (hi - lo) (drop lo xs)"
  by (auto simp: slice_def)

lemma slice_eq_Panic [simp]: "slice xs lo hi = Panic \<longleftrightarrow> \<not> (lo \<le> hi \<and> hi \<le> length xs)"
  by (simp add: slice_def)

lemma slice_neq_Err [simp]: "slice xs lo hi \<noteq> Err e"
  by (simp add: slice_def)

lemma index_eq_Ok [simp]: "index xs i = Ok y \<longleftrightarrow> i < length xs \<and> y = xs ! i"
  by (auto simp: index_def)

end
