(* ===== verification/Evm_Types.thy ===== *)
theory Evm_Types
  imports Prelude
begin

text \<open>
  The data of the virtual-machine interface (\<open>src/cfx-evm/src/vm\<close>): the error
  type, the parameters and results of calls and creations, the environment,
  the cost specification, and the \<open>Context\<close> trait, a record of the operations
  an interpreter may call on its environment.  Where two Rust types use the
  same name for a constructor or a field, the name carries its type as a
  prefix.
\<close>

section \<open>Errors\<close>

datatype (plugins only: code size) AddressSpace = Builtin_space | User_space | Contract_space

datatype (plugins only: code size) AccountError =
    ReservedAddressSpace Address
  | AddressSpaceMismatch Address AddressSpace
  | InvalidRlp string

datatype (plugins only: code size) DbError =
    IncompleteDatabase Address
  | Account_error AccountError
  | Storage_error string
  | Decoder_error string
  | Db_msg string

datatype (plugins only: code size) Error =
    OutOfGas
  | BadJumpDestination usize
  | BadInstruction u8
  | StackUnderflow string usize usize
  | OutOfStack string usize usize
  | SubStackUnderflow usize usize
  | OutOfSubStack usize usize
  | InvalidSubEntry
  | NotEnoughBalanceForStorage U256 U256
  | ExceedStorageLimit
  | BuiltIn string
  | InternalContract string
  | MutableCallInStaticContext
  | StateDbError DbError
  | Wasm string
  | OutOfBounds
  | Reverted
  | InvalidAddress Address
  | ConflictAddress Address

type_synonym 'a vm_result = "(Error, 'a) outcome"
type_synonym 'a db_result = "(DbError, 'a) outcome"

fun separate_out_db_error :: "'a vm_result \<Rightarrow> ('a vm_result) db_result" where
  "separate_out_db_error (Err (StateDbError err)) = Err err"
| "separate_out_db_error Panic = Panic"
| "separate_out_db_error x = Ok x"

section \<open>Calls and creations\<close>

datatype (plugins only: code size) CallType =
    CallType_None | CallType_Call | CallType_CallCode | CallType_DelegateCall | CallType_StaticCall

datatype (plugins only: code size) CreateContractAddress = FromSenderNonce | FromSenderSaltAndCodeHash H256

datatype (plugins only: code size) CreateType = CreateType_None | CreateType_CREATE | CreateType_CREATE2

primrec from_address_scheme :: "CreateContractAddress \<Rightarrow> CreateType" where
  "from_address_scheme FromSenderNonce = CreateType_CREATE"
| "from_address_scheme (FromSenderSaltAndCodeHash _) = CreateType_CREATE2"

datatype (plugins only: code size) ActionValue = Transfer U256 | Apparent U256

primrec action_value :: "ActionValue \<Rightarrow> U256" where
  "action_value (Transfer x) = x"
| "action_value (Apparent x) = x"

datatype (plugins only: code size) ParamsType = Embedded | Separate

text \<open>\<open>Space\<close> has the single value \<open>Ethereum\<close>, so an address with its space is an address.\<close>

record ActionParams =
  ap_code_address :: Address
  ap_code_hash :: "H256 option"
  ap_address :: Address
  ap_sender :: Address
  ap_original_sender :: Address
  ap_gas :: U256
  ap_gas_price :: U256
  ap_value :: ActionValue
  ap_code :: "Bytes option"
  ap_data :: "Bytes option"
  ap_call_type :: CallType
  ap_create_type :: CreateType
  ap_params_type :: ParamsType

datatype (plugins only: code size) TrapKind = Trap_Call ActionParams | Trap_Create ActionParams

section \<open>Return data\<close>

record ReturnData =
  rd_mem :: Bytes
  rd_offset :: usize
  rd_size :: usize

definition rd_empty :: ReturnData where
  "rd_empty = \<lparr>rd_mem = [], rd_offset = 0, rd_size = 0\<rparr>"

definition rd_new :: "Bytes \<Rightarrow> usize \<Rightarrow> usize \<Rightarrow> ReturnData" where
  "rd_new m off sz = \<lparr>rd_mem = m, rd_offset = off, rd_size = sz\<rparr>"

definition rd_deref :: "ReturnData \<Rightarrow> ('e, Bytes) outcome" where
  "rd_deref rd =
     bind (usize_add (rd_offset rd) (rd_size rd)) (\<lambda>hi.
       if hi \<le> length (rd_mem rd)
       then Ok (take (rd_size rd) (drop (rd_offset rd) (rd_mem rd)))
       else Panic)"

datatype (plugins only: code size) GasLeft =
    Known U256
  | NeedsReturn U256 ReturnData bool

datatype (plugins only: code size) ContractCreateResult =
    Created Address U256
  | Create_Failed Error
  | Create_Reverted U256 ReturnData

datatype (plugins only: code size) MessageCallResult =
    Call_Success U256 ReturnData
  | Call_Failed Error
  | Call_Reverted U256 ReturnData

section \<open>Environment and specification\<close>

record Env =
  env_number :: u64
  env_author :: Address
  env_timestamp :: u64
  env_difficulty :: U256
  env_gas_limit :: U256
  env_last_hash :: H256
  env_accumulated_gas_used :: U256
  env_epoch_height :: u64

datatype (plugins only: code size) CleanDustMode = Off | BasicOnly | WithCodeAndStorage

record WasmCosts =
  wasm_regular :: nat
  wasm_div :: nat
  wasm_mul :: nat
  wasm_mem :: nat
  wasm_static_u256 :: nat
  wasm_static_address :: nat
  wasm_initial_mem :: nat
  wasm_grow_mem :: nat
  wasm_memcpy :: nat
  wasm_max_stack_height :: nat
  wasm_opcodes_mul :: nat
  wasm_opcodes_div :: nat
  wasm_have_create2 :: bool
  wasm_have_gasleft :: bool

record Spec =
  exceptional_failed_code_deposit :: bool
  stack_limit :: usize
  max_depth :: usize
  tier_step_gas :: "usize list"
  exp_gas :: usize
  exp_byte_gas :: usize
  sha3_gas :: usize
  sha3_word_gas :: usize
  sload_gas :: usize
  sstore_set_gas :: usize
  sstore_reset_gas :: usize
  sstore_refund_gas :: usize
  jumpdest_gas :: usize
  log_gas :: usize
  log_data_gas :: usize
  log_topic_gas :: usize
  create_gas :: usize
  call_gas :: usize
  call_stipend :: usize
  call_value_transfer_gas :: usize
  call_new_account_gas :: usize
  suicide_refund_gas :: usize
  memory_gas :: usize
  quad_coeff_div :: usize
  create_data_gas :: usize
  create_data_limit :: usize
  tx_gas :: usize
  tx_create_gas :: usize
  tx_data_zero_gas :: usize
  tx_data_non_zero_gas :: usize
  copy_gas :: usize
  extcodesize_gas :: usize
  extcodecopy_base_gas :: usize
  balance_gas :: usize
  extcodehash_gas :: usize
  suicide_gas :: usize
  retire_gas :: usize
  eip1820_gas :: usize
  suicide_to_new_account_cost :: usize
  sub_gas_cap_divisor :: "usize option"
  no_empty :: bool
  kill_empty :: bool
  blockhash_gas :: usize
  kill_dust :: CleanDustMode
  keep_unsigned_nonce :: bool
  wasm :: "WasmCosts option"
  contract_start_nonce :: U256
  account_start_nonce :: U256
  evm_gas_ratio :: usize
  cip43_init :: bool
  cip43_contract :: bool
  cip62 :: bool
  cip64 :: bool
  cip71 :: bool
  cip78a :: bool
  cip78b :: bool
  cip90 :: bool
  cip94 :: bool
  cip94_activation_block_number :: u64
  cip97 :: bool
  cip98 :: bool
  cip105 :: bool
  cip_sigma_fix :: bool

definition genesis_spec :: Spec where
  "genesis_spec = \<lparr>
     exceptional_failed_code_deposit = True,
     stack_limit = 1024,
     max_depth = 1024,
     tier_step_gas = [0, 2, 3, 5, 8, 10, 20, 0],
     exp_gas = 10,
     exp_byte_gas = 50,
     sha3_gas = 30,
     sha3_word_gas = 6,
     sload_gas = 200,
     sstore_set_gas = 20000,
     sstore_reset_gas = 5000,
     sstore_refund_gas = 15000,
     jumpdest_gas = 1,
     log_gas = 375,
     log_data_gas = 8,
     log_topic_gas = 375,
     create_gas = 32000,
     call_gas = 700,
     call_stipend = 2300,
     call_value_transfer_gas = 9000,
     call_new_account_gas = 25000,
     suicide_refund_gas = 24000,
     memory_gas = 3,
     quad_coeff_div = 512,
     create_data_gas = 200,
     create_data_limit = 49152,
     tx_gas = 21000,
     tx_create_gas = 53000,
     tx_data_zero_gas = 4,
     tx_data_non_zero_gas = 68,
     copy_gas = 3,
     extcodesize_gas = 700,
     extcodecopy_base_gas = 700,
     balance_gas = 400,
     extcodehash_gas = 400,
     suicide_gas = 5000,
     retire_gas = 5000000,
     eip1820_gas = 1500000,
     suicide_to_new_account_cost = 25000,
     sub_gas_cap_divisor = Some 64,
     no_empty = True,
     kill_empty = True,
     blockhash_gas = 20,
     kill_dust = Off,
     keep_unsigned_nonce = False,
     wasm = None,
     contract_start_nonce = 1,
     account_start_nonce = 0,
     evm_gas_ratio = 2,
     cip43_init = False,
     cip43_contract = False,
     cip62 = False,
     cip64 = False,
     cip71 = False,
     cip78a = False,
     cip78b = False,
     cip90 = False,
     cip94 = False,
     cip94_activation_block_number = - 1,
     cip97 = False,
     cip98 = False,
     cip105 = False,
     cip_sigma_fix = False\<rparr>"

record TransitionsBlockNumber =
  tr_cip43a :: u64
  tr_cip43b :: u64
  tr_cip62 :: u64
  tr_cip64 :: u64
  tr_cip71 :: u64
  tr_cip78a :: u64
  tr_cip78b :: u64
  tr_cip90b :: u64
  tr_cip92 :: u64
  tr_cip94 :: u64
  tr_cip97 :: u64
  tr_cip98 :: u64
  tr_cip105 :: u64
  tr_cip_sigma_fix :: u64

definition new_spec_from_common_params :: "TransitionsBlockNumber \<Rightarrow> u64 \<Rightarrow> Spec" where
  "new_spec_from_common_params p number = genesis_spec\<lparr>
     cip43_contract := tr_cip43a p \<le> number,
     cip43_init := tr_cip43a p \<le> number \<and> number < tr_cip43b p,
     cip62 := tr_cip62 p \<le> number,
     cip64 := tr_cip64 p \<le> number,
     cip71 := tr_cip71 p \<le> number,
     cip90 := tr_cip90b p \<le> number,
     cip78a := tr_cip78a p \<le> number,
     cip78b := tr_cip78b p \<le> number,
     cip94 := tr_cip94 p \<le> number,
     cip94_activation_block_number := tr_cip94 p,
     cip97 := tr_cip97 p \<le> number,
     cip98 := tr_cip98 p \<le> number,
     cip105 := tr_cip105 p \<le> number,
     cip_sigma_fix := tr_cip_sigma_fix p \<le> number\<rparr>"

section \<open>The context trait\<close>

text \<open>
  The trait \<open>Context\<close> as a record of operations over a context of type \<open>'ctx\<close>.
  A read takes \<open>&self\<close> in Rust but may fill the account cache behind a lock,
  so it is a stateful operation as well.  A creation or a call returns either
  its result (\<open>Inl\<close>) or a trap for the frame stack to run (\<open>Inr\<close>).
\<close>

record 'ctx Context =
  ctx_storage_at :: "Bytes \<Rightarrow> ('ctx, Error, U256) op"
  ctx_set_storage :: "Bytes \<Rightarrow> U256 \<Rightarrow> ('ctx, Error, unit) op"
  ctx_exists :: "Address \<Rightarrow> ('ctx, Error, bool) op"
  ctx_exists_and_not_null :: "Address \<Rightarrow> ('ctx, Error, bool) op"
  ctx_origin_balance :: "('ctx, Error, U256) op"
  ctx_balance :: "Address \<Rightarrow> ('ctx, Error, U256) op"
  ctx_blockhash :: "U256 \<Rightarrow> ('ctx, Error, H256) op"
  ctx_create :: "U256 \<Rightarrow> U256 \<Rightarrow> Bytes \<Rightarrow> CreateContractAddress \<Rightarrow>
                   ('ctx, DbError, ContractCreateResult + TrapKind) op"
  ctx_call :: "U256 \<Rightarrow> Address \<Rightarrow> Address \<Rightarrow> U256 option \<Rightarrow> Bytes \<Rightarrow> Address \<Rightarrow> CallType \<Rightarrow>
                 ('ctx, DbError, MessageCallResult + TrapKind) op"
  ctx_extcode :: "Address \<Rightarrow> ('ctx, Error, Bytes option) op"
  ctx_extcodehash :: "Address \<Rightarrow> ('ctx, Error, H256 option) op"
  ctx_extcodesize :: "Address \<Rightarrow> ('ctx, Error, usize option) op"
  ctx_log :: "H256 list \<Rightarrow> Bytes \<Rightarrow> ('ctx, Error, unit) op"
  ctx_ret :: "U256 \<Rightarrow> ReturnData \<Rightarrow> bool \<Rightarrow> ('ctx, Error, U256) op"
  ctx_suicide :: "Address \<Rightarrow> U256 \<Rightarrow> ('ctx, Error, unit) op"
  ctx_spec :: "'ctx \<Rightarrow> Spec"
  ctx_env :: "'ctx \<Rightarrow> Env"
  ctx_chain_id :: "'ctx \<Rightarrow> u64"
  ctx_depth :: "'ctx \<Rightarrow> usize"
  ctx_is_static :: "'ctx \<Rightarrow> bool"

end
