(* ===== verification/Evm_Instructions.thy ===== *)
theory Evm_Instructions
  imports Evm_Types
begin

text \<open>
  The instruction set (\<open>src/cfx-evm/src/evm/instructions.rs\<close>).  The 144
  variants of the Rust enum are grouped by family: a datatype per family, and
  \<open>PUSH\<close>, \<open>DUP\<close> and \<open>SWAP\<close> indexed by a 5-bit or a 4-bit word, so that
  \<open>PUSH 0\<close> is \<open>PUSH1\<close> and \<open>SWAP 15\<close> is \<open>SWAP16\<close>.  The discriminants are
  \<open>as_u8\<close>, the decoder is \<open>from_u8\<close>, and the table of arities and price tiers
  is \<open>INSTRUCTIONS\<close>.  \<open>ANDI\<close>, \<open>ORI\<close>, \<open>XORI\<close> and \<open>NOTI\<close> are the variants
  \<open>AND\<close>, \<open>OR\<close>, \<open>XOR\<close> and \<open>NOT\<close>.  The lemmas show that decoding inverts the
  discriminant and that the table has an entry for every instruction.
\<close>

section \<open>The enum\<close>

datatype (plugins only: code size) ArithOp =
    ADD | MUL | SUB | DIV | SDIV | MOD | SMOD | ADDMOD | MULMOD | EXP | SIGNEXTEND

datatype (plugins only: code size) LogicOp =
    LT | GT | SLT | SGT | EQ | ISZERO | ANDI | ORI | XORI | NOTI | BYTE | SHL | SHR
  | SAR

datatype (plugins only: code size) EnvOp =
    ADDRESS | BALANCE | ORIGIN | CALLER | CALLVALUE | CALLDATALOAD | CALLDATASIZE
  | CALLDATACOPY | CODESIZE | CODECOPY | GASPRICE | EXTCODESIZE | EXTCODECOPY
  | RETURNDATASIZE | RETURNDATACOPY | EXTCODEHASH

datatype (plugins only: code size) BlockOp =
    BLOCKHASH | COINBASE | TIMESTAMP | NUMBER | DIFFICULTY | GASLIMIT | CHAINID
  | SELFBALANCE

datatype (plugins only: code size) FlowOp =
    POP | MLOAD | MSTORE | MSTORE8 | SLOAD | SSTORE | JUMP | JUMPI | PC | MSIZE | GAS
  | JUMPDEST | BEGINSUB | RETURNSUB | JUMPSUB

datatype (plugins only: code size) SysOp =
    CREATE | CALL | CALLCODE | RETURN | DELEGATECALL | CREATE2 | REVERT | STATICCALL
  | SUICIDE

datatype (plugins only: code size) LogOp = LOG0 | LOG1 | LOG2 | LOG3 | LOG4

datatype (plugins only: code size) Instruction =
    STOP
  | Arith ArithOp
  | Logic LogicOp
  | SHA3
  | EnvI EnvOp
  | BlockI BlockOp
  | Flow FlowOp
  | PUSH "5 word"
  | DUP "4 word"
  | SWAP "4 word"
  | LOG LogOp
  | Sys SysOp

primrec op_Arith :: "ArithOp \<Rightarrow> u8" where
  "op_Arith ADD = 0x01"
| "op_Arith MUL = 0x02"
| "op_Arith SUB = 0x03"
| "op_Arith DIV = 0x04"
| "op_Arith SDIV = 0x05"
| "op_Arith MOD = 0x06"
| "op_Arith SMOD = 0x07"
| "op_Arith ADDMOD = 0x08"
| "op_Arith MULMOD = 0x09"
| "op_Arith EXP = 0x0a"
| "op_Arith SIGNEXTEND = 0x0b"

primrec op_Logic :: "LogicOp \<Rightarrow> u8" where
  "op_Logic LT = 0x10"
| "op_Logic GT = 0x11"
| "op_Logic SLT = 0x12"
| "op_Logic SGT = 0x13"
| "op_Logic EQ = 0x14"
| "op_Logic ISZERO = 0x15"
| "op_Logic ANDI = 0x16"
| "op_Logic ORI = 0x17"
| "op_Logic XORI = 0x18"
| "op_Logic NOTI = 0x19"
| "op_Logic BYTE = 0x1a"
| "op_Logic SHL = 0x1b"
| "op_Logic SHR = 0x1c"
| "op_Logic SAR = 0x1d"

primrec op_EnvI :: "EnvOp \<Rightarrow> u8" where
  "op_EnvI ADDRESS = 0x30"
| "op_EnvI BALANCE = 0x31"
| "op_EnvI ORIGIN = 0x32"
| "op_EnvI CALLER = 0x33"
| "op_EnvI CALLVALUE = 0x34"
| "op_EnvI CALLDATALOAD = 0x35"
| "op_EnvI CALLDATASIZE = 0x36"
| "op_EnvI CALLDATACOPY = 0x37"
| "op_EnvI CODESIZE = 0x38"
| "op_EnvI CODECOPY = 0x39"
| "op_EnvI GASPRICE = 0x3a"
| "op_EnvI EXTCODESIZE = 0x3b"
| "op_EnvI EXTCODECOPY = 0x3c"
| "op_EnvI RETURNDATASIZE = 0x3d"
| "op_EnvI RETURNDATACOPY = 0x3e"
| "op_EnvI EXTCODEHASH = 0x3f"

primrec op_BlockI :: "BlockOp \<Rightarrow> u8" where
  "op_BlockI BLOCKHASH = 0x40"
| "op_BlockI COINBASE = 0x41"
| "op_BlockI TIMESTAMP = 0x42"
| "op_BlockI NUMBER = 0x43"
| "op_BlockI DIFFICULTY = 0x44"
| "op_BlockI GASLIMIT = 0x45"
| "op_BlockI CHAINID = 0x46"
| "op_BlockI SELFBALANCE = 0x47"

primrec op_Flow :: "FlowOp \<Rightarrow> u8" where
  "op_Flow POP = 0x50"
| "op_Flow MLOAD = 0x51"
| "op_Flow MSTORE = 0x52"
| "op_Flow MSTORE8 = 0x53"
| "op_Flow SLOAD = 0x54"
| "op_Flow SSTORE = 0x55"
| "op_Flow JUMP = 0x56"
| "op_Flow JUMPI = 0x57"
| "op_Flow PC = 0x58"
| "op_Flow MSIZE = 0x59"
| "op_Flow GAS = 0x5a"
| "op_Flow JUMPDEST = 0x5b"
| "op_Flow BEGINSUB = 0x5c"
| "op_Flow RETURNSUB = 0x5d"
| "op_Flow JUMPSUB = 0x5e"

primrec op_Sys :: "SysOp \<Rightarrow> u8" where
  "op_Sys CREATE = 0xf0"
| "op_Sys CALL = 0xf1"
| "op_Sys CALLCODE = 0xf2"
| "op_Sys RETURN = 0xf3"
| "op_Sys DELEGATECALL = 0xf4"
| "op_Sys CREATE2 = 0xf5"
| "op_Sys REVERT = 0xfd"
| "op_Sys STATICCALL = 0xfa"
| "op_Sys SUICIDE = 0xff"

primrec op_LOG :: "LogOp \<Rightarrow> u8" where
  "op_LOG LOG0 = 0xa0"
| "op_LOG LOG1 = 0xa1"
| "op_LOG LOG2 = 0xa2"
| "op_LOG LOG3 = 0xa3"
| "op_LOG LOG4 = 0xa4"

primrec as_u8 :: "Instruction \<Rightarrow> u8" where
  "as_u8 STOP = 0x00"
| "as_u8 (Arith i) = op_Arith i"
| "as_u8 (Logic i) = op_Logic i"
| "as_u8 SHA3 = 0x20"
| "as_u8 (EnvI i) = op_EnvI i"
| "as_u8 (BlockI i) = op_BlockI i"
| "as_u8 (Flow i) = op_Flow i"
| "as_u8 (PUSH n) = 0x60 + ucast n"
| "as_u8 (DUP n) = 0x80 + ucast n"
| "as_u8 (SWAP n) = 0x90 + ucast n"
| "as_u8 (LOG i) = op_LOG i"
| "as_u8 (Sys i) = op_Sys i"

text \<open>The variants in the order of the enum.\<close>

definition all_instructions :: "Instruction list" where
  "all_instructions =
    [STOP, Arith ADD, Arith MUL, Arith SUB, Arith DIV, Arith SDIV, Arith MOD, Arith SMOD,
     Arith ADDMOD, Arith MULMOD, Arith EXP, Arith SIGNEXTEND, Logic LT, Logic GT,
     Logic SLT, Logic SGT, Logic EQ, Logic ISZERO, Logic ANDI, Logic ORI, Logic XORI,
     Logic NOTI, Logic BYTE, Logic SHL, Logic SHR, Logic SAR, SHA3, EnvI ADDRESS,
     EnvI BALANCE, EnvI ORIGIN, EnvI CALLER, EnvI CALLVALUE, EnvI CALLDATALOAD,
     EnvI CALLDATASIZE, EnvI CALLDATACOPY, EnvI CODESIZE, EnvI CODECOPY, EnvI GASPRICE,
     EnvI EXTCODESIZE, EnvI EXTCODECOPY, EnvI RETURNDATASIZE, EnvI RETURNDATACOPY,
     EnvI EXTCODEHASH, BlockI BLOCKHASH, BlockI COINBASE, BlockI TIMESTAMP, BlockI NUMBER,
     BlockI DIFFICULTY, BlockI GASLIMIT, BlockI CHAINID, BlockI SELFBALANCE, Flow POP,
     Flow MLOAD, Flow MSTORE, Flow MSTORE8, Flow SLOAD, Flow SSTORE, Flow JUMP, Flow JUMPI,
     Flow PC, Flow MSIZE, Flow GAS, Flow JUMPDEST, Flow BEGINSUB, Flow RETURNSUB,
     Flow JUMPSUB, PUSH 0, PUSH 1, PUSH 2, PUSH 3, PUSH 4, PUSH 5, PUSH 6, PUSH 7, PUSH 8,
     PUSH 9, PUSH 10, PUSH 11, PUSH 12, PUSH 13, PUSH 14, PUSH 15, PUSH 16, PUSH 17,
     PUSH 18, PUSH 19, PUSH 20, PUSH 21, PUSH 22, PUSH 23, PUSH 24, PUSH 25, PUSH 26,
     PUSH 27, PUSH 28, PUSH 29, PUSH 30, PUSH 31, DUP 0, DUP 1, DUP 2, DUP 3, DUP 4, DUP 5,
     DUP 6, DUP 7, DUP 8, DUP 9, DUP 10, DUP 11, DUP 12, DUP 13, DUP 14, DUP 15, SWAP 0,
     SWAP 1, SWAP 2, SWAP 3, SWAP 4, SWAP 5, SWAP 6, SWAP 7, SWAP 8, SWAP 9, SWAP 10,
     SWAP 11, SWAP 12, SWAP 13, SWAP 14, SWAP 15, LOG LOG0, LOG LOG1, LOG LOG2, LOG LOG3,
     LOG LOG4, Sys CREATE, Sys CALL, Sys CALLCODE, Sys RETURN, Sys DELEGATECALL,
     Sys CREATE2, Sys REVERT, Sys STATICCALL, Sys SUICIDE]"

text \<open>The macro-generated decoder: the variant whose discriminant is the byte.\<close>

definition from_u8 :: "u8 \<Rightarrow> Instruction option" where
  "from_u8 v = map_of (map (\<lambda>i. (as_u8 i, i)) all_instructions) v"

section \<open>Families\<close>

text \<open>The derived order compares discriminants, as \<open>repr(u8)\<close> fixes them.\<close>

definition in_range :: "Instruction \<Rightarrow> Instruction \<Rightarrow> Instruction \<Rightarrow> bool" where
  "in_range lo hi i \<longleftrightarrow> as_u8 lo \<le> as_u8 i \<and> as_u8 i \<le> as_u8 hi"

definition is_push :: "Instruction \<Rightarrow> bool" where
  "is_push i \<longleftrightarrow> in_range (PUSH 0) (PUSH 31) i"

definition push_bytes :: "Instruction \<Rightarrow> usize option" where
  "push_bytes i = (if is_push i then Some (unat (as_u8 i - as_u8 (PUSH 0) + 1)) else None)"

definition dup_position :: "Instruction \<Rightarrow> usize option" where
  "dup_position i =
     (if in_range (DUP 0) (DUP 15) i then Some (unat (as_u8 i - as_u8 (DUP 0))) else None)"

definition swap_position :: "Instruction \<Rightarrow> usize option" where
  "swap_position i =
     (if in_range (SWAP 0) (SWAP 15) i then Some (unat (as_u8 i - as_u8 (SWAP 0) + 1)) else None)"

definition log_topics :: "Instruction \<Rightarrow> usize option" where
  "log_topics i =
     (if in_range (LOG LOG0) (LOG LOG4) i then Some (unat (as_u8 i - as_u8 (LOG LOG0))) else None)"

definition MAX_NO_OF_TOPICS :: usize where
  "MAX_NO_OF_TOPICS = 4"

section \<open>Arities and price tiers\<close>

datatype (plugins only: code size) GasPriceTier =
  Zero | Base | VeryLow | Low | Mid | High | Ext | Special

primrec tier_idx :: "GasPriceTier \<Rightarrow> usize" where
  "tier_idx Zero = 0"
| "tier_idx Base = 1"
| "tier_idx VeryLow = 2"
| "tier_idx Low = 3"
| "tier_idx Mid = 4"
| "tier_idx High = 5"
| "tier_idx Ext = 6"
| "tier_idx Special = 7"

record InstructionInfo =
  info_name :: string
  info_args :: usize
  info_ret :: usize
  info_tier :: GasPriceTier

definition info_new :: "string \<Rightarrow> usize \<Rightarrow> usize \<Rightarrow> GasPriceTier \<Rightarrow> InstructionInfo" where
  "info_new n a r t = \<lparr>info_name = n, info_args = a, info_ret = r, info_tier = t\<rparr>"

text \<open>The static table, indexed by discriminant; an index that is not listed holds \<open>None\<close>.\<close>

definition INSTRUCTION_ROWS :: "(Instruction \<times> InstructionInfo) list" where
  "INSTRUCTION_ROWS = [
     (STOP, info_new ''STOP'' 0 0 Zero),
     (Arith ADD, info_new ''ADD'' 2 1 VeryLow),
     (Arith SUB, info_new ''SUB'' 2 1 VeryLow),
     (Arith MUL, info_new ''MUL'' 2 1 Low),
     (Arith DIV, info_new ''DIV'' 2 1 Low),
     (Arith SDIV, info_new ''SDIV'' 2 1 Low),
     (Arith MOD, info_new ''MOD'' 2 1 Low),
     (Arith SMOD, info_new ''SMOD'' 2 1 Low),
     (Arith EXP, info_new ''EXP'' 2 1 Special),
     (Logic NOTI, info_new ''NOT'' 1 1 VeryLow),
     (Logic LT, info_new ''LT'' 2 1 VeryLow),
     (Logic GT, info_new ''GT'' 2 1 VeryLow),
     (Logic SLT, info_new ''SLT'' 2 1 VeryLow),
     (Logic SGT, info_new ''SGT'' 2 1 VeryLow),
     (Logic EQ, info_new ''EQ'' 2 1 VeryLow),
     (Logic ISZERO, info_new ''ISZERO'' 1 1 VeryLow),
     (Logic ANDI, info_new ''AND'' 2 1 VeryLow),
     (Logic ORI, info_new ''OR'' 2 1 VeryLow),
     (Logic XORI, info_new ''XOR'' 2 1 VeryLow),
     (Logic BYTE, info_new ''BYTE'' 2 1 VeryLow),
     (Logic SHL, info_new ''SHL'' 2 1 VeryLow),
     (Logic SHR, info_new ''SHR'' 2 1 VeryLow),
     (Logic SAR, info_new ''SAR'' 2 1 VeryLow),
     (Arith ADDMOD, info_new ''ADDMOD'' 3 1 Mid),
     (Arith MULMOD, info_new ''MULMOD'' 3 1 Mid),
     (Arith SIGNEXTEND, info_new ''SIGNEXTEND'' 2 1 Low),
     (EnvI RETURNDATASIZE, info_new ''RETURNDATASIZE'' 0 1 Base),
     (EnvI RETURNDATACOPY, info_new ''RETURNDATACOPY'' 3 0 VeryLow),
     (SHA3, info_new ''SHA3'' 2 1 Special),
     (EnvI ADDRESS, info_new ''ADDRESS'' 0 1 Base),
     (EnvI BALANCE, info_new ''BALANCE'' 1 1 Special),
     (EnvI ORIGIN, info_new ''ORIGIN'' 0 1 Base),
     (EnvI CALLER, info_new ''CALLER'' 0 1 Base),
     (EnvI CALLVALUE, info_new ''CALLVALUE'' 0 1 Base),
     (EnvI CALLDATALOAD, info_new ''CALLDATALOAD'' 1 1 VeryLow),
     (EnvI CALLDATASIZE, info_new ''CALLDATASIZE'' 0 1 Base),
     (EnvI CALLDATACOPY, info_new ''CALLDATACOPY'' 3 0 VeryLow),
     (EnvI EXTCODEHASH, info_new ''EXTCODEHASH'' 1 1 Special),
     (EnvI CODESIZE, info_new ''CODESIZE'' 0 1 Base),
     (EnvI CODECOPY, info_new ''CODECOPY'' 3 0 VeryLow),
     (EnvI GASPRICE, info_new ''GASPRICE'' 0 1 Base),
     (EnvI EXTCODESIZE, info_new ''EXTCODESIZE'' 1 1 Special),
     (EnvI EXTCODECOPY, info_new ''EXTCODECOPY'' 4 0 Special),
     (BlockI BLOCKHASH, info_new ''BLOCKHASH'' 1 1 Ext),
     (BlockI COINBASE, info_new ''COINBASE'' 0 1 Base),
     (BlockI TIMESTAMP, info_new ''TIMESTAMP'' 0 1 Base),
     (BlockI NUMBER, info_new ''NUMBER'' 0 1 Base),
     (BlockI DIFFICULTY, info_new ''DIFFICULTY'' 0 1 Base),
     (BlockI GASLIMIT, info_new ''GASLIMIT'' 0 1 Base),
     (BlockI CHAINID, info_new ''CHAINID'' 0 1 Base),
     (BlockI SELFBALANCE, info_new ''SELFBALANCE'' 0 1 Low),
     (Flow POP, info_new ''POP'' 1 0 Base),
     (Flow MLOAD, info_new ''MLOAD'' 1 1 VeryLow),
     (Flow MSTORE, info_new ''MSTORE'' 2 0 VeryLow),
     (Flow MSTORE8, info_new ''MSTORE8'' 2 0 VeryLow),
     (Flow SLOAD, info_new ''SLOAD'' 1 1 Special),
     (Flow SSTORE, info_new ''SSTORE'' 2 0 Special),
     (Flow JUMP, info_new ''JUMP'' 1 0 Mid),
     (Flow JUMPI, info_new ''JUMPI'' 2 0 High),
     (Flow PC, info_new ''PC'' 0 1 Base),
     (Flow MSIZE, info_new ''MSIZE'' 0 1 Base),
     (Flow GAS, info_new ''GAS'' 0 1 Base),
     (Flow JUMPDEST, info_new ''JUMPDEST'' 0 0 Special),
     (PUSH 0, info_new ''PUSH1'' 0 1 VeryLow),
     (PUSH 1, info_new ''PUSH2'' 0 1 VeryLow),
     (PUSH 2, info_new ''PUSH3'' 0 1 VeryLow),
     (PUSH 3, info_new ''PUSH4'' 0 1 VeryLow),
     (PUSH 4, info_new ''PUSH5'' 0 1 VeryLow),
     (PUSH 5, info_new ''PUSH6'' 0 1 VeryLow),
     (PUSH 6, info_new ''PUSH7'' 0 1 VeryLow),
     (PUSH 7, info_new ''PUSH8'' 0 1 VeryLow),
     (PUSH 8, info_new ''PUSH9'' 0 1 VeryLow),
     (PUSH 9, info_new ''PUSH10'' 0 1 VeryLow),
     (PUSH 10, info_new ''PUSH11'' 0 1 VeryLow),
     (PUSH 11, info_new ''PUSH12'' 0 1 VeryLow),
     (PUSH 12, info_new ''PUSH13'' 0 1 VeryLow),
     (PUSH 13, info_new ''PUSH14'' 0 1 VeryLow),
     (PUSH 14, info_new ''PUSH15'' 0 1 VeryLow),
     (PUSH 15, info_new ''PUSH16'' 0 1 VeryLow),
     (PUSH 16, info_new ''PUSH17'' 0 1 VeryLow),
     (PUSH 17, info_new ''PUSH18'' 0 1 VeryLow),
     (PUSH 18, info_new ''PUSH19'' 0 1 VeryLow),
     (PUSH 19, info_new ''PUSH20'' 0 1 VeryLow),
     (PUSH 20, info_new ''PUSH21'' 0 1 VeryLow),
     (PUSH 21, info_new ''PUSH22'' 0 1 VeryLow),
     (PUSH 22, info_new ''PUSH23'' 0 1 VeryLow),
     (PUSH 23, info_new ''PUSH24'' 0 1 VeryLow),
     (PUSH 24, info_new ''PUSH25'' 0 1 VeryLow),
     (PUSH 25, info_new ''PUSH26'' 0 1 VeryLow),
     (PUSH 26, info_new ''PUSH27'' 0 1 VeryLow),
     (PUSH 27, info_new ''PUSH28'' 0 1 VeryLow),
     (PUSH 28, info_new ''PUSH29'' 0 1 VeryLow),
     (PUSH 29, info_new ''PUSH30'' 0 1 VeryLow),
     (PUSH 30, info_new ''PUSH31'' 0 1 VeryLow),
     (PUSH 31, info_new ''PUSH32'' 0 1 VeryLow),
     (DUP 0, info_new ''DUP1'' 1 2 VeryLow),
     (DUP 1, info_new ''DUP2'' 2 3 VeryLow),
     (DUP 2, info_new ''DUP3'' 3 4 VeryLow),
     (DUP 3, info_new ''DUP4'' 4 5 VeryLow),
     (DUP 4, info_new ''DUP5'' 5 6 VeryLow),
     (DUP 5, info_new ''DUP6'' 6 7 VeryLow),
     (DUP 6, info_new ''DUP7'' 7 8 VeryLow),
     (DUP 7, info_new ''DUP8'' 8 9 VeryLow),
     (DUP 8, info_new ''DUP9'' 9 10 VeryLow),
     (DUP 9, info_new ''DUP10'' 10 11 VeryLow),
     (DUP 10, info_new ''DUP11'' 11 12 VeryLow),
     (DUP 11, info_new ''DUP12'' 12 13 VeryLow),
     (DUP 12, info_new ''DUP13'' 13 14 VeryLow),
     (DUP 13, info_new ''DUP14'' 14 15 VeryLow),
     (DUP 14, info_new ''DUP15'' 15 16 VeryLow),
     (DUP 15, info_new ''DUP16'' 16 17 VeryLow),
     (SWAP 0, info_new ''SWAP1'' 2 2 VeryLow),
     (SWAP 1, info_new ''SWAP2'' 3 3 VeryLow),
     (SWAP 2, info_new ''SWAP3'' 4 4 VeryLow),
     (SWAP 3, info_new ''SWAP4'' 5 5 VeryLow),
     (SWAP 4, info_new ''SWAP5'' 6 6 VeryLow),
     (SWAP 5, info_new ''SWAP6'' 7 7 VeryLow),
     (SWAP 6, info_new ''SWAP7'' 8 8 VeryLow),
     (SWAP 7, info_new ''SWAP8'' 9 9 VeryLow),
     (SWAP 8, info_new ''SWAP9'' 10 10 VeryLow),
     (SWAP 9, info_new ''SWAP10'' 11 11 VeryLow),
     (SWAP 10, info_new ''SWAP11'' 12 12 VeryLow),
     (SWAP 11, info_new ''SWAP12'' 13 13 VeryLow),
     (SWAP 12, info_new ''SWAP13'' 14 14 VeryLow),
     (SWAP 13, info_new ''SWAP14'' 15 15 VeryLow),
     (SWAP 14, info_new ''SWAP15'' 16 16 VeryLow),
     (SWAP 15, info_new ''SWAP16'' 17 17 VeryLow),
     (LOG LOG0, info_new ''LOG0'' 2 0 Special),
     (LOG LOG1, info_new ''LOG1'' 3 0 Special),
     (LOG LOG2, info_new ''LOG2'' 4 0 Special),
     (LOG LOG3, info_new ''LOG3'' 5 0 Special),
     (LOG LOG4, info_new ''LOG4'' 6 0 Special),
     (Flow BEGINSUB, info_new ''BEGINSUB'' 0 0 Base),
     (Flow JUMPSUB, info_new ''JUMPSUB'' 1 0 High),
     (Flow RETURNSUB, info_new ''RETURNSUB'' 0 0 Low),
     (Sys CREATE, info_new ''CREATE'' 3 1 Special),
     (Sys CALL, info_new ''CALL'' 7 1 Special),
     (Sys CALLCODE, info_new ''CALLCODE'' 7 1 Special),
     (Sys RETURN, info_new ''RETURN'' 2 0 Zero),
     (Sys DELEGATECALL, info_new ''DELEGATECALL'' 6 1 Special),
     (Sys STATICCALL, info_new ''STATICCALL'' 6 1 Special),
     (Sys SUICIDE, info_new ''SUICIDE'' 1 0 Special),
     (Sys CREATE2, info_new ''CREATE2'' 4 1 Special),
     (Sys REVERT, info_new ''REVERT'' 2 0 Zero)]"

definition INSTRUCTIONS :: "u8 \<Rightarrow> InstructionInfo option" where
  "INSTRUCTIONS v = map_of (map (\<lambda>(i, x). (as_u8 i, x)) INSTRUCTION_ROWS) v"

definition info :: "Instruction \<Rightarrow> ('e, InstructionInfo) outcome" where
  "info i = expect (INSTRUCTIONS (as_u8 i))"

section \<open>Decoding\<close>

lemma all_instructions_complete: "i \<in> set all_instructions"
proof (cases i)
  case (Arith x)
  then show ?thesis by (cases x) (simp_all add: all_instructions_def)
next
  case (Logic x)
  then show ?thesis by (cases x) (simp_all add: all_instructions_def)
next
  case (EnvI x)
  then show ?thesis by (cases x) (simp_all add: all_instructions_def)
next
  case (BlockI x)
  then show ?thesis by (cases x) (simp_all add: all_instructions_def)
next
  case (Flow x)
  then show ?thesis by (cases x) (simp_all add: all_instructions_def)
next
  case (PUSH n)
  then show ?thesis using word5_cases [of n] by (auto simp: all_instructions_def)
next
  case (DUP n)
  then show ?thesis using word4_cases [of n] by (auto simp: all_instructions_def)
next
  case (SWAP n)
  then show ?thesis using word4_cases [of n] by (auto simp: all_instructions_def)
next
  case (LOG x)
  then show ?thesis by (cases x) (simp_all add: all_instructions_def)
next
  case (Sys x)
  then show ?thesis by (cases x) (simp_all add: all_instructions_def)
qed (simp_all add: all_instructions_def)

lemma as_u8_values:
  "map (\<lambda>i. unat (as_u8 i)) all_instructions =
     [0..<12] @ [16..<30] @ [32] @ [48..<72] @ [80..<95] @ [96..<165] @ [240..<246] @ [253, 250, 255]"
  by (simp add: all_instructions_def upt_rec)

lemma distinct_opcodes: "distinct (map (\<lambda>i. unat (as_u8 i)) all_instructions)"
  unfolding as_u8_values by auto

lemma distinct_all_instructions: "distinct all_instructions"
  using distinct_opcodes by (simp add: distinct_map)

lemma inj_as_u8: "inj as_u8"
proof -
  have "inj_on (\<lambda>i. unat (as_u8 i)) UNIV"
    using distinct_opcodes all_instructions_complete by (auto simp: distinct_map inj_on_def)
  then show ?thesis by (auto simp: inj_on_def)
qed

lemma as_u8_eq_iff: "as_u8 i = as_u8 j \<longleftrightarrow> i = j"
  using inj_as_u8 by (auto simp: inj_def)

lemma decode_as_u8 [simp]: "from_u8 (as_u8 i) = Some i"
  unfolding from_u8_def
  by (intro map_of_is_SomeI)
     (auto simp: comp_def distinct_map inj_on_def as_u8_eq_iff all_instructions_complete
        distinct_all_instructions)

lemma from_u8_Some: "from_u8 v = Some i \<longleftrightarrow> as_u8 i = v"
  by (auto simp: from_u8_def dest: map_of_SomeD) (metis decode_as_u8 from_u8_def)

section \<open>Facts on the families\<close>

lemma unat_as_u8_PUSH [simp]: "unat (as_u8 (PUSH n)) = 96 + unat n"
  using unat_lt_exp [of n] by (simp add: unat_add_exact unat_ucast_wide)

lemma unat_as_u8_DUP [simp]: "unat (as_u8 (DUP n)) = 128 + unat n"
  using unat_lt_exp [of n] by (simp add: unat_add_exact unat_ucast_wide)

lemma unat_as_u8_SWAP [simp]: "unat (as_u8 (SWAP n)) = 144 + unat n"
  using unat_lt_exp [of n] by (simp add: unat_add_exact unat_ucast_wide)

lemma in_range_unat:
  "in_range lo hi i \<longleftrightarrow> unat (as_u8 lo) \<le> unat (as_u8 i) \<and> unat (as_u8 i) \<le> unat (as_u8 hi)"
  by (simp add: in_range_def word_le_nat_alt)
lemma as_u8_LOG_bounds: "160 \<le> unat (as_u8 (LOG k)) \<and> unat (as_u8 (LOG k)) \<le> 164"
  by (cases k) simp_all

lemma op_bounds:
  "unat (op_Arith a) < 96" "unat (op_Logic l) < 96" "unat (op_EnvI e) < 96"
  "unat (op_BlockI b) < 96" "unat (op_Flow f) < 96" "240 \<le> unat (op_Sys s)"
  subgoal by (cases a) simp_all
  subgoal by (cases l) simp_all
  subgoal by (cases e) simp_all
  subgoal by (cases b) simp_all
  subgoal by (cases f) simp_all
  subgoal by (cases s) simp_all
  done

lemma as_u8_family:
  obtains (push) n where "i = PUSH n" | (dup) n where "i = DUP n"
  | (swap) n where "i = SWAP n" | (log) k where "i = LOG k"
  | (other) "unat (as_u8 i) < 96 \<or> 240 \<le> unat (as_u8 i)"
      "\<And>n. i \<noteq> PUSH n" "\<And>n. i \<noteq> DUP n" "\<And>n. i \<noteq> SWAP n" "\<And>k. i \<noteq> LOG k"
  using op_bounds by (cases i) auto

lemma in_range_PUSH: "in_range (PUSH 0) (PUSH 31) i \<longleftrightarrow> (\<exists>n. i = PUSH n)"
proof (cases i rule: as_u8_family)
  case (push n)
  then show ?thesis using unat_5word [of n] by (simp add: in_range_unat del: as_u8.simps)
next
  case (log k)
  then show ?thesis using as_u8_LOG_bounds [of k] by (auto simp: in_range_unat simp del: as_u8.simps)
qed (auto simp: in_range_unat simp del: as_u8.simps)

lemma in_range_DUP: "in_range (DUP 0) (DUP 15) i \<longleftrightarrow> (\<exists>n. i = DUP n)"
proof (cases i rule: as_u8_family)
  case (push n)
  then show ?thesis using unat_5word [of n] by (simp add: in_range_unat del: as_u8.simps)
next
  case (dup n)
  then show ?thesis using unat_4word [of n] by (simp add: in_range_unat del: as_u8.simps)
next
  case (log k)
  then show ?thesis using as_u8_LOG_bounds [of k] by (auto simp: in_range_unat simp del: as_u8.simps)
qed (auto simp: in_range_unat simp del: as_u8.simps)

lemma in_range_SWAP: "in_range (SWAP 0) (SWAP 15) i \<longleftrightarrow> (\<exists>n. i = SWAP n)"
proof (cases i rule: as_u8_family)
  case (push n)
  then show ?thesis using unat_5word [of n] by (simp add: in_range_unat del: as_u8.simps)
next
  case (dup n)
  then show ?thesis using unat_4word [of n] by (simp add: in_range_unat del: as_u8.simps)
next
  case (swap n)
  then show ?thesis using unat_4word [of n] by (simp add: in_range_unat del: as_u8.simps)
next
  case (log k)
  then show ?thesis using as_u8_LOG_bounds [of k] by (auto simp: in_range_unat simp del: as_u8.simps)
qed (auto simp: in_range_unat simp del: as_u8.simps)

lemma in_range_LOG: "in_range (LOG LOG0) (LOG LOG4) i \<longleftrightarrow> (\<exists>k. i = LOG k)"
proof (cases i rule: as_u8_family)
  case (push n)
  then show ?thesis using unat_5word [of n] by (simp add: in_range_unat del: as_u8.simps(8))
next
  case (dup n)
  then show ?thesis using unat_4word [of n] by (simp add: in_range_unat del: as_u8.simps(9))
next
  case (swap n)
  then show ?thesis using unat_4word [of n] by (simp add: in_range_unat del: as_u8.simps(10))
next
  case (log k)
  then show ?thesis using as_u8_LOG_bounds [of k] by (simp add: in_range_unat)
qed (auto simp: in_range_unat)

lemma is_push_iff: "is_push i \<longleftrightarrow> (\<exists>n. i = PUSH n)"
  by (simp add: is_push_def in_range_PUSH)

lemma push_bytes_PUSH [simp]: "push_bytes (PUSH n) = Some (Suc (unat n))"
proof -
  have "unat (as_u8 (PUSH n) - as_u8 (PUSH 0) + 1) = Suc (unat n)"
    using unat_5word [of n] by (simp add: unat_add_exact unat_ucast_wide add.commute)
  then show ?thesis by (simp add: push_bytes_def is_push_iff)
qed

lemma push_bytes_None: "push_bytes i = None \<longleftrightarrow> (\<nexists>n. i = PUSH n)"
  by (simp add: push_bytes_def is_push_iff)

lemma dup_position_DUP [simp]: "dup_position (DUP n) = Some (unat n)"
  by (simp add: dup_position_def in_range_DUP unat_ucast_wide)

lemma swap_position_SWAP [simp]: "swap_position (SWAP n) = Some (Suc (unat n))"
proof -
  have "unat (as_u8 (SWAP n) - as_u8 (SWAP 0) + 1) = Suc (unat n)"
    using unat_4word [of n] by (simp add: unat_add_exact unat_ucast_wide add.commute)
  then show ?thesis by (simp add: swap_position_def in_range_SWAP)
qed

primrec topics_of :: "LogOp \<Rightarrow> nat" where
  "topics_of LOG0 = 0" | "topics_of LOG1 = 1" | "topics_of LOG2 = 2"
| "topics_of LOG3 = 3" | "topics_of LOG4 = 4"

lemma log_topics_LOG [simp]: "log_topics (LOG k) = Some (topics_of k)"
  by (cases k) (simp_all add: log_topics_def in_range_LOG)

section \<open>The table\<close>

lemma info_eq: "info i = expect (map_of INSTRUCTION_ROWS i)"
  by (simp add: info_def INSTRUCTIONS_def map_of_map_inj inj_as_u8)

section \<open>Arities by family\<close>

text \<open>
  How many items an instruction takes from the stack and leaves on it, by
  family; \<open>info_arity\<close> shows that the table says the same.
\<close>

primrec arity_Arith :: "ArithOp \<Rightarrow> nat \<times> nat" where
  "arity_Arith ADD = (2, 1)"
| "arity_Arith MUL = (2, 1)"
| "arity_Arith SUB = (2, 1)"
| "arity_Arith DIV = (2, 1)"
| "arity_Arith SDIV = (2, 1)"
| "arity_Arith MOD = (2, 1)"
| "arity_Arith SMOD = (2, 1)"
| "arity_Arith ADDMOD = (3, 1)"
| "arity_Arith MULMOD = (3, 1)"
| "arity_Arith EXP = (2, 1)"
| "arity_Arith SIGNEXTEND = (2, 1)"

primrec arity_Logic :: "LogicOp \<Rightarrow> nat \<times> nat" where
  "arity_Logic LT = (2, 1)"
| "arity_Logic GT = (2, 1)"
| "arity_Logic SLT = (2, 1)"
| "arity_Logic SGT = (2, 1)"
| "arity_Logic EQ = (2, 1)"
| "arity_Logic ISZERO = (1, 1)"
| "arity_Logic ANDI = (2, 1)"
| "arity_Logic ORI = (2, 1)"
| "arity_Logic XORI = (2, 1)"
| "arity_Logic NOTI = (1, 1)"
| "arity_Logic BYTE = (2, 1)"
| "arity_Logic SHL = (2, 1)"
| "arity_Logic SHR = (2, 1)"
| "arity_Logic SAR = (2, 1)"

primrec arity_EnvI :: "EnvOp \<Rightarrow> nat \<times> nat" where
  "arity_EnvI ADDRESS = (0, 1)"
| "arity_EnvI BALANCE = (1, 1)"
| "arity_EnvI ORIGIN = (0, 1)"
| "arity_EnvI CALLER = (0, 1)"
| "arity_EnvI CALLVALUE = (0, 1)"
| "arity_EnvI CALLDATALOAD = (1, 1)"
| "arity_EnvI CALLDATASIZE = (0, 1)"
| "arity_EnvI CALLDATACOPY = (3, 0)"
| "arity_EnvI CODESIZE = (0, 1)"
| "arity_EnvI CODECOPY = (3, 0)"
| "arity_EnvI GASPRICE = (0, 1)"
| "arity_EnvI EXTCODESIZE = (1, 1)"
| "arity_EnvI EXTCODECOPY = (4, 0)"
| "arity_EnvI RETURNDATASIZE = (0, 1)"
| "arity_EnvI RETURNDATACOPY = (3, 0)"
| "arity_EnvI EXTCODEHASH = (1, 1)"

primrec arity_BlockI :: "BlockOp \<Rightarrow> nat \<times> nat" where
  "arity_BlockI BLOCKHASH = (1, 1)"
| "arity_BlockI COINBASE = (0, 1)"
| "arity_BlockI TIMESTAMP = (0, 1)"
| "arity_BlockI NUMBER = (0, 1)"
| "arity_BlockI DIFFICULTY = (0, 1)"
| "arity_BlockI GASLIMIT = (0, 1)"
| "arity_BlockI CHAINID = (0, 1)"
| "arity_BlockI SELFBALANCE = (0, 1)"

primrec arity_Flow :: "FlowOp \<Rightarrow> nat \<times> nat" where
  "arity_Flow POP = (1, 0)"
| "arity_Flow MLOAD = (1, 1)"
| "arity_Flow MSTORE = (2, 0)"
| "arity_Flow MSTORE8 = (2, 0)"
| "arity_Flow SLOAD = (1, 1)"
| "arity_Flow SSTORE = (2, 0)"
| "arity_Flow JUMP = (1, 0)"
| "arity_Flow JUMPI = (2, 0)"
| "arity_Flow PC = (0, 1)"
| "arity_Flow MSIZE = (0, 1)"
| "arity_Flow GAS = (0, 1)"
| "arity_Flow JUMPDEST = (0, 0)"
| "arity_Flow BEGINSUB = (0, 0)"
| "arity_Flow RETURNSUB = (0, 0)"
| "arity_Flow JUMPSUB = (1, 0)"

primrec arity_Sys :: "SysOp \<Rightarrow> nat \<times> nat" where
  "arity_Sys CREATE = (3, 1)"
| "arity_Sys CALL = (7, 1)"
| "arity_Sys CALLCODE = (7, 1)"
| "arity_Sys RETURN = (2, 0)"
| "arity_Sys DELEGATECALL = (6, 1)"
| "arity_Sys CREATE2 = (4, 1)"
| "arity_Sys REVERT = (2, 0)"
| "arity_Sys STATICCALL = (6, 1)"
| "arity_Sys SUICIDE = (1, 0)"

primrec arity :: "Instruction \<Rightarrow> nat \<times> nat" where
  "arity STOP = (0, 0)"
| "arity (Arith i) = arity_Arith i"
| "arity (Logic i) = arity_Logic i"
| "arity SHA3 = (2, 1)"
| "arity (EnvI i) = arity_EnvI i"
| "arity (BlockI i) = arity_BlockI i"
| "arity (Flow i) = arity_Flow i"
| "arity (PUSH n) = (0, 1)"
| "arity (DUP n) = (unat n + 1, unat n + 2)"
| "arity (SWAP n) = (unat n + 2, unat n + 2)"
| "arity (LOG k) = (topics_of k + 2, 0)"
| "arity (Sys i) = arity_Sys i"

text \<open>The instructions whose price is the one of their tier.\<close>

primrec tier_priced :: "Instruction \<Rightarrow> bool" where
  "tier_priced STOP = True"
| "tier_priced (Arith i) = (i \<noteq> EXP)"
| "tier_priced (Logic i) = True"
| "tier_priced SHA3 = False"
| "tier_priced (EnvI i) = (i \<notin> {BALANCE, EXTCODESIZE, EXTCODEHASH, EXTCODECOPY})"
| "tier_priced (BlockI i) = (i \<noteq> BLOCKHASH)"
| "tier_priced (Flow i) = (i \<notin> {JUMPDEST, SSTORE, SLOAD})"
| "tier_priced (PUSH n) = True"
| "tier_priced (DUP n) = True"
| "tier_priced (SWAP n) = True"
| "tier_priced (LOG k) = False"
| "tier_priced (Sys i) = (i \<in> {RETURN, REVERT})"

definition halting :: "Instruction \<Rightarrow> bool" where
  "halting i \<longleftrightarrow> i \<in> {STOP, Sys RETURN, Sys REVERT}"

text \<open>
  One row of the table against the three functions, and every row at once; an
  instruction has a row because its opcode is among those of the rows.
\<close>

definition row_ok :: "Instruction \<times> InstructionInfo \<Rightarrow> bool" where
  "row_ok r \<longleftrightarrow> (case r of (i, x) \<Rightarrow> (info_args x, info_ret x) = arity i \<and>
     (tier_priced i \<longrightarrow> (info_tier x = Zero \<longleftrightarrow> halting i) \<and> info_tier x \<noteq> Special))"

lemma rows_ok: "list_all row_ok INSTRUCTION_ROWS"
  by (simp add: INSTRUCTION_ROWS_def info_new_def row_ok_def halting_def)

lemma row_opcodes:
  "map (\<lambda>r. unat (as_u8 (fst r))) INSTRUCTION_ROWS =
     [0, 1, 3, 2, 4, 5, 6, 7, 10, 25, 16, 17, 18, 19, 20, 21, 22, 23, 24, 26, 27, 28, 29, 8, 
      9, 11, 61, 62, 32, 48, 49, 50, 51, 52, 53, 54, 55, 63, 56, 57, 58, 59, 60, 64, 65, 66, 67, 68, 
      69, 70, 71, 80, 81, 82, 83, 84, 85, 86, 87, 88, 89, 90, 91, 96, 97, 98, 99, 100, 101, 102, 103, 104, 
      105, 106, 107, 108, 109, 110, 111, 112, 113, 114, 115, 116, 117, 118, 119, 120, 121, 122, 123, 124, 125, 126, 127, 128, 
      129, 130, 131, 132, 133, 134, 135, 136, 137, 138, 139, 140, 141, 142, 143, 144, 145, 146, 147, 148, 149, 150, 151, 152, 
      153, 154, 155, 156, 157, 158, 159, 160, 161, 162, 163, 164, 92, 94, 93, 240, 241, 242, 243, 244, 250, 255, 245, 253]
      "
  by (simp add: INSTRUCTION_ROWS_def)

lemma opcodes_covered:
  "list_all (\<lambda>n. n \<in> set (map (\<lambda>r. unat (as_u8 (fst r))) INSTRUCTION_ROWS))
     (map (\<lambda>i. unat (as_u8 i)) all_instructions)"
  unfolding row_opcodes as_u8_values by (simp add: upt_rec)

lemma row_exists: "\<exists>x. map_of INSTRUCTION_ROWS i = Some x"
proof -
  have "unat (as_u8 i) \<in> set (map (\<lambda>r. unat (as_u8 (fst r))) INSTRUCTION_ROWS)"
    using opcodes_covered all_instructions_complete [of i] by (simp add: list_all_iff)
  then obtain r where r: "r \<in> set INSTRUCTION_ROWS" "unat (as_u8 i) = unat (as_u8 (fst r))" by auto
  then have "i = fst r" using word_eq_unatI as_u8_eq_iff by blast
  with r have "i \<in> fst ` set INSTRUCTION_ROWS" by simp
  then show ?thesis using map_of_eq_None_iff [of INSTRUCTION_ROWS i] by auto
qed

lemma info_row: "\<exists>x. info i = Ok x \<and> row_ok (i, x)"
  using row_exists [of i] rows_ok by (auto simp: info_eq list_all_iff dest: map_of_SomeD)

lemma info_arity:
  "info i = (Ok x :: (Error, InstructionInfo) outcome) \<Longrightarrow> info_args x = fst (arity i) \<and> info_ret x = snd (arity i)"
  using info_row [of i, where 'a = Error] by (auto simp: row_ok_def) (metis fst_conv snd_conv)+

lemma info_tier_priced:
  "info i = (Ok x :: (Error, InstructionInfo) outcome) \<Longrightarrow> tier_priced i \<Longrightarrow>
     (info_tier x = Zero \<longleftrightarrow> halting i) \<and> info_tier x \<noteq> Special"
  using info_row [of i, where 'a = Error] by (auto simp: row_ok_def)

lemma info_Ok: "\<exists>x. info i = (Ok x :: (Error, InstructionInfo) outcome)"
  using info_row [of i, where 'a = Error] by (auto simp: row_ok_def)

lemma arity_bounds: "fst (arity i) \<le> 17" "snd (arity i) \<le> fst (arity i) + 1"
proof -
  have "fst (arity i) \<le> 17 \<and> snd (arity i) \<le> fst (arity i) + 1"
  proof (cases i)
    case (Arith x)
    then show ?thesis by (cases x) simp_all
  next
    case (Logic x)
    then show ?thesis by (cases x) simp_all
  next
    case (EnvI x)
    then show ?thesis by (cases x) simp_all
  next
    case (BlockI x)
    then show ?thesis by (cases x) simp_all
  next
    case (Flow x)
    then show ?thesis by (cases x) simp_all
  next
    case (LOG x)
    then show ?thesis by (cases x) simp_all
  next
    case (Sys x)
    then show ?thesis by (cases x) simp_all
  next
    case (DUP n)
    then show ?thesis using unat_4word [of n] by simp
  next
    case (SWAP n)
    then show ?thesis using unat_4word [of n] by simp
  qed simp_all
  then show "fst (arity i) \<le> 17" "snd (arity i) \<le> fst (arity i) + 1" by blast+
qed

section \<open>Opcodes and the table\<close>

text \<open>C12.  The instruction table has a row for every instruction, so that the lookup never
  panics.  No row takes more than 17 items or returns more than one item above those it takes,
  and the rows of the four numbered families follow the number.\<close>

theorem table_total:
  "\<exists>x. info i = (Ok x :: InstructionInfo vm_result) \<and>
       info_args x \<le> 17 \<and> info_ret x \<le> info_args x + 1 \<and>
       (case i of
          PUSH n \<Rightarrow> push_bytes i = Some (unat n + 1) \<and> info_args x = 0 \<and> info_ret x = 1
        | DUP n \<Rightarrow> dup_position i = Some (unat n) \<and> info_args x = unat n + 1 \<and> info_ret x = unat n + 2
        | SWAP n \<Rightarrow> swap_position i = Some (unat n + 1) \<and> info_args x = unat n + 2 \<and> info_ret x = unat n + 2
        | LOG k \<Rightarrow> (\<exists>t \<le> 4. log_topics i = Some t \<and> info_args x = t + 2 \<and> info_ret x = 0)
        | _ \<Rightarrow> True)"
proof -
  obtain x where x: "info i = (Ok x :: InstructionInfo vm_result)" using info_Ok by blast
  have t: "topics_of k \<le> 4" for k by (cases k) simp_all
  note b = arity_bounds [of i] and a = info_arity [OF x]
  have "case i of
          PUSH n \<Rightarrow> push_bytes i = Some (unat n + 1) \<and> info_args x = 0 \<and> info_ret x = 1
        | DUP n \<Rightarrow> dup_position i = Some (unat n) \<and> info_args x = unat n + 1 \<and> info_ret x = unat n + 2
        | SWAP n \<Rightarrow> swap_position i = Some (unat n + 1) \<and> info_args x = unat n + 2 \<and> info_ret x = unat n + 2
        | LOG k \<Rightarrow> (\<exists>t \<le> 4. log_topics i = Some t \<and> info_args x = t + 2 \<and> info_ret x = 0)
        | _ \<Rightarrow> True"
    using a t by (auto simp: arity_def split: Instruction.split)
  with x a b show ?thesis by auto
qed

end
