(* ===== verification/Evm_Stack.thy ===== *)
theory Evm_Stack
  imports Evm_Instructions
begin

text \<open>
  The operand stack (\<open>src/cfx-evm/src/evm/interpreter/stack.rs\<close>).  The
  \<open>Stack\<close> trait is the locale \<open>stack\<close>: its laws speak of the items with the
  top first.  \<open>VecStack\<close>, a vector that grows at its end together with the
  buffer that \<open>pop_n\<close> fills, implements it.
\<close>

section \<open>The vector stack\<close>

record 'a VecStack =
  vs_stack :: "'a list"
  vs_logs :: "'a list"

definition with_capacity :: "'a \<Rightarrow> 'a VecStack" where
  "with_capacity zero = \<lparr>vs_stack = [], vs_logs = replicate MAX_NO_OF_TOPICS zero\<rparr>"

definition vs_peek :: "usize \<Rightarrow> ('a VecStack, 'e, 'a) op" where
  "vs_peek no_from_top = (\<lambda>s.
     (bind (usize_sub (length (vs_stack s)) no_from_top) (\<lambda>a.
      bind (usize_sub a 1) (\<lambda>i. index (vs_stack s) i)), s))"

definition list_swap :: "'a list \<Rightarrow> nat \<Rightarrow> nat \<Rightarrow> ('e, 'a list) outcome" where
  "list_swap xs i j =
     (if i < length xs \<and> j < length xs then Ok (xs[i := xs ! j, j := xs ! i]) else Panic)"

definition vs_swap_with_top :: "usize \<Rightarrow> ('a VecStack, 'e, unit) op" where
  "vs_swap_with_top no_from_top = (\<lambda>s.
     let len = length (vs_stack s) in
     case bind (usize_sub len no_from_top) (\<lambda>a.
          bind (usize_sub a 1) (\<lambda>i.
          bind (usize_sub len 1) (\<lambda>j. list_swap (vs_stack s) i j))) of
       Ok xs \<Rightarrow> (Ok (), s\<lparr>vs_stack := xs\<rparr>)
     | Err e \<Rightarrow> (Err e, s)
     | Panic \<Rightarrow> (Panic, s))"

definition vs_has :: "usize \<Rightarrow> 'a VecStack \<Rightarrow> bool" where
  "vs_has no_of_elems s \<longleftrightarrow> no_of_elems \<le> length (vs_stack s)"

definition vs_pop_back :: "('a VecStack, 'e, 'a) op" where
  "vs_pop_back = (\<lambda>s.
     if vs_stack s = [] then (Panic, s)
     else (Ok (last (vs_stack s)), s\<lparr>vs_stack := butlast (vs_stack s)\<rparr>))"

definition vs_push :: "'a \<Rightarrow> ('a VecStack, 'e, unit) op" where
  "vs_push elem = modify (\<lambda>s. s\<lparr>vs_stack := vs_stack s @ [elem]\<rparr>)"

definition vs_size :: "'a VecStack \<Rightarrow> usize" where
  "vs_size s = length (vs_stack s)"

primrec pop_n_loop :: "nat \<Rightarrow> nat \<Rightarrow> ('a VecStack, 'e, unit) op" where
  "pop_n_loop i 0 = ret ()"
| "pop_n_loop i (Suc n) =
     andThen vs_pop_back (\<lambda>x.
     andThen (modify (\<lambda>s. s\<lparr>vs_logs := (vs_logs s)[i := x]\<rparr>)) (\<lambda>_.
     pop_n_loop (Suc i) n))"

definition vs_pop_n :: "usize \<Rightarrow> ('a VecStack, 'e, 'a list) op" where
  "vs_pop_n no_of_elems =
     (if no_of_elems \<le> MAX_NO_OF_TOPICS then
        andThen (pop_n_loop 0 no_of_elems) (\<lambda>_.
        andThen (gets vs_logs) (\<lambda>logs. lift_outcome (slice logs 0 no_of_elems)))
      else panic)"

definition vs_peek_top :: "usize \<Rightarrow> 'a VecStack \<Rightarrow> ('e, 'a list) outcome" where
  "vs_peek_top no_from_top s =
     (if no_from_top \<le> length (vs_stack s)
      then slice (vs_stack s) (length (vs_stack s) - no_from_top) (length (vs_stack s))
      else Panic)"

section \<open>The stack interface\<close>

locale stack =
  fixes items :: "'s \<Rightarrow> 'a list"
    and wf :: "'s \<Rightarrow> bool"
    and push :: "'a \<Rightarrow> ('s, 'e, unit) op"
    and pop_back :: "('s, 'e, 'a) op"
    and peek :: "nat \<Rightarrow> ('s, 'e, 'a) op"
    and swap_with_top :: "nat \<Rightarrow> ('s, 'e, unit) op"
  assumes push_law: "wf s \<Longrightarrow> \<exists>s'. push x s = (Ok (), s') \<and> items s' = x # items s \<and> wf s'"
    and pop_law: "wf s \<Longrightarrow> items s = x # xs \<Longrightarrow>
      \<exists>s'. pop_back s = (Ok x, s') \<and> items s' = xs \<and> wf s'"
    and pop_empty: "items s = [] \<Longrightarrow> fst (pop_back s) = Panic"
    and peek_law: "wf s \<Longrightarrow> n < length (items s) \<Longrightarrow> peek n s = (Ok (items s ! n), s)"
    and peek_out: "length (items s) \<le> n \<Longrightarrow> fst (peek n s) = Panic"
    and swap_law: "wf s \<Longrightarrow> n < length (items s) \<Longrightarrow>
      \<exists>s'. swap_with_top n s = (Ok (), s') \<and>
           items s' = (items s)[0 := items s ! n, n := items s ! 0] \<and> wf s'"
begin

text \<open>A value pushed is the value popped, and the rest of the stack is as it was.\<close>

lemma push_pop:
  assumes "wf s"
  shows "\<exists>s'. andThen (push x) (\<lambda>_. pop_back) s = (Ok x, s') \<and> items s' = items s \<and> wf s'"
proof -
  from push_law [OF assms] obtain s1 where s1: "push x s = (Ok (), s1)" "items s1 = x # items s" "wf s1"
    by blast
  from pop_law [OF s1(3) s1(2)] s1 show ?thesis by auto
qed

text \<open>Popping as many items as there are never panics and yields them from the top.\<close>

primrec pops :: "nat \<Rightarrow> ('s, 'e, 'a list) op" where
  "pops 0 = ret []"
| "pops (Suc n) = andThen pop_back (\<lambda>x. andThen (pops n) (\<lambda>xs. ret (x # xs)))"

lemma pops_items:
  assumes "wf s" "n \<le> length (items s)"
  shows "\<exists>s'. pops n s = (Ok (take n (items s)), s') \<and> items s' = drop n (items s) \<and> wf s'"
  using assms
proof (induction n arbitrary: s)
  case (Suc n)
  then obtain x xs where xs: "items s = x # xs" by (cases "items s") auto
  with pop_law Suc.prems obtain s1 where s1: "pop_back s = (Ok x, s1)" "items s1 = xs" "wf s1"
    by blast
  with Suc xs obtain s2 where "pops n s1 = (Ok (take n xs), s2)" "items s2 = drop n xs" "wf s2"
    by fastforce
  with s1 xs show ?case by auto
qed simp

text \<open>Exchanging the top with the same position twice restores the stack.\<close>

lemma swap_involutive:
  assumes "wf s" "n < length (items s)"
  shows "\<exists>s'. andThen (swap_with_top n) (\<lambda>_. swap_with_top n) s = (Ok (), s') \<and> items s' = items s"
proof -
  from swap_law [OF assms] obtain s1 where
    s1: "swap_with_top n s = (Ok (), s1)" "items s1 = (items s)[0 := items s ! n, n := items s ! 0]" "wf s1"
    by blast
  with assms have "n < length (items s1)" by simp
  from swap_law [OF s1(3) this] obtain s2 where
    s2: "swap_with_top n s1 = (Ok (), s2)" "items s2 = (items s1)[0 := items s1 ! n, n := items s1 ! 0]"
    by blast
  from assms have "items s \<noteq> []" by auto
  then have "items s2 = items s"
    by (intro nth_equalityI) (use assms s1 s2 in \<open>auto simp: nth_list_update\<close>)
  with s1 s2 show ?thesis by simp
qed

end

section \<open>The vector stack implements the interface\<close>

definition vs_items :: "'a VecStack \<Rightarrow> 'a list" where
  "vs_items s = rev (vs_stack s)"

definition vs_wf :: "'a VecStack \<Rightarrow> bool" where
  "vs_wf s \<longleftrightarrow> length (vs_logs s) = MAX_NO_OF_TOPICS"

lemma length_vs_items [simp]: "length (vs_items s) = vs_size s"
  by (simp add: vs_items_def vs_size_def)

lemma vs_wf_with_capacity: "vs_wf (with_capacity z)"
  by (simp add: vs_wf_def with_capacity_def)

lemma vs_push_run: "vs_push x s = (Ok (), s\<lparr>vs_stack := vs_stack s @ [x]\<rparr>)"
  by (simp add: vs_push_def)

lemma vs_pop_back_run:
  assumes "vs_items s = x # xs"
  shows "vs_pop_back s = (Ok x, s\<lparr>vs_stack := rev xs\<rparr>)"
  using assms by (auto simp: vs_items_def vs_pop_back_def rev_swap)

lemma vs_peek_run:
  "vs_peek n s = (if n < vs_size s then Ok (vs_items s ! n) else Panic, s)"
  by (auto simp: vs_peek_def vs_size_def vs_items_def arith_defs index_def rev_nth)

lemma rev_swap_top:
  assumes "n < length xs"
  shows "rev (xs[length xs - n - 1 := xs ! (length xs - 1), length xs - 1 := xs ! (length xs - n - 1)]) =
         (rev xs)[0 := rev xs ! n, n := rev xs ! 0]"
proof (rule nth_equalityI)
  fix i
  assume "i < length (rev (xs[length xs - n - 1 := xs ! (length xs - 1), length xs - 1 := xs ! (length xs - n - 1)]))"
  moreover from assms have "xs \<noteq> []" by auto
  ultimately show "rev (xs[length xs - n - 1 := xs ! (length xs - 1), length xs - 1 := xs ! (length xs - n - 1)]) ! i =
      (rev xs)[0 := rev xs ! n, n := rev xs ! 0] ! i"
    using assms by (cases "i = 0") (auto simp: rev_nth nth_list_update)
qed simp

lemma vs_swap_run:
  assumes "n < vs_size s"
  shows "\<exists>xs. vs_swap_with_top n s = (Ok (), s\<lparr>vs_stack := xs\<rparr>) \<and>
              rev xs = (vs_items s)[0 := vs_items s ! n, n := vs_items s ! 0]"
  using assms rev_swap_top [of n "vs_stack s"]
  by (auto simp: vs_swap_with_top_def list_swap_def arith_defs vs_size_def vs_items_def Let_def)

interpretation vec: stack vs_items vs_wf vs_push vs_pop_back vs_peek vs_swap_with_top
proof
  fix s :: "'a VecStack" and x :: 'a
  assume "vs_wf s"
  then show "\<exists>s'. vs_push x s = (Ok (), s') \<and> vs_items s' = x # vs_items s \<and> vs_wf s'"
    by (simp add: vs_push_run vs_items_def vs_wf_def)
next
  fix s :: "'a VecStack" and x xs
  assume "vs_wf s" "vs_items s = x # xs"
  then show "\<exists>s'. vs_pop_back s = (Ok x, s') \<and> vs_items s' = xs \<and> vs_wf s'"
    by (simp add: vs_pop_back_run) (simp add: vs_items_def vs_wf_def)
next
  fix s :: "'a VecStack"
  assume "vs_items s = []"
  then show "fst (vs_pop_back s) = Panic" by (simp add: vs_items_def vs_pop_back_def)
next
  fix s :: "'a VecStack" and n
  assume "n < length (vs_items s)"
  then show "vs_peek n s = (Ok (vs_items s ! n), s)" by (simp add: vs_peek_run)
next
  fix s :: "'a VecStack" and n
  assume "length (vs_items s) \<le> n"
  then show "fst (vs_peek n s) = Panic" by (simp add: vs_peek_run)
next
  fix s :: "'a VecStack" and n
  assume "vs_wf s" "n < length (vs_items s)"
  then show "\<exists>s'. vs_swap_with_top n s = (Ok (), s') \<and>
      vs_items s' = (vs_items s)[0 := vs_items s ! n, n := vs_items s ! 0] \<and> vs_wf s'"
    using vs_swap_run [of n s] by (auto simp: vs_items_def vs_wf_def vs_size_def)
qed

lemma pop_n_loop_run:
  assumes "n \<le> vs_size s" "i + n \<le> length (vs_logs s)"
  shows "(pop_n_loop i n :: ('a VecStack, 'e, unit) op) s =
    (Ok (), s\<lparr>vs_stack := rev (drop n (vs_items s)),
              vs_logs := overwrite (vs_logs s) i (take n (vs_items s))\<rparr>)"
  using assms
proof (induction n arbitrary: i s)
  case 0
  then show ?case by (simp add: vs_items_def overwrite_def)
next
  case (Suc n)
  then obtain x xs where xs: "vs_items s = x # xs"
    by (cases "vs_items s") (auto simp: vs_items_def vs_size_def)
  let ?s = "s\<lparr>vs_stack := rev xs, vs_logs := (vs_logs s)[i := x]\<rparr>"
  have s: "vs_items ?s = xs" "vs_size ?s = length xs"
    by (simp_all add: vs_items_def vs_size_def)
  have "length xs = vs_size s - 1"
    using xs length_vs_items [of s] by simp
  then have "(pop_n_loop (Suc i) n :: ('a VecStack, 'e, unit) op) ?s =
      (Ok (), ?s\<lparr>vs_stack := rev (drop n xs), vs_logs := overwrite ((vs_logs s)[i := x]) (Suc i) (take n xs)\<rparr>)"
    using Suc.IH [of ?s "Suc i"] Suc.prems s by (simp add: le_diff_conv2)
  moreover have "overwrite ((vs_logs s)[i := x]) (Suc i) (take n xs) =
      overwrite (vs_logs s) i (take (Suc n) (x # xs))"
    using Suc.prems by (simp add: overwrite_def take_Suc_conv_app_nth)
  ultimately show ?case using xs by (simp add: vs_pop_back_run)
qed

lemma vs_pop_n_run:
  assumes "vs_wf s" "n \<le> MAX_NO_OF_TOPICS" "n \<le> vs_size s"
  shows "\<exists>s'. (vs_pop_n n :: ('a VecStack, 'e, 'a list) op) s = (Ok (take n (vs_items s)), s') \<and> vs_items s' = drop n (vs_items s) \<and> vs_wf s'"
proof -
  from assms have n: "0 + n \<le> length (vs_logs s)" by (simp add: vs_wf_def)
  from pop_n_loop_run [OF assms(3) n, where 'e = 'e] assms n show ?thesis
    by (simp add: vs_pop_n_def slice_def overwrite_def vs_wf_def vs_items_def vs_size_def)
qed

section \<open>The stack as the interpreter uses it\<close>

text \<open>C13.  On a stack of at least as many items, peeking, popping and the block pop of log
  topics return the items from the top without a panic and leave the rest; a push adds one item, and a
  pop takes it off again; exchanging the top with the item \<open>n\<close> below it exchanges these two items, keeps
  all others, and is undone by a second exchange.\<close>

theorem stack_operations:
  assumes "vs_wf s" "n < vs_size s" "k \<le> MAX_NO_OF_TOPICS" "k \<le> vs_size s"
  shows "vs_peek n s = (Ok (vs_items s ! n) :: _ vm_result, s) \<and>
    (\<exists>s'. vs_push x s = (Ok () :: _ vm_result, s') \<and> vs_items s' = x # vs_items s \<and> vs_wf s') \<and>
    (\<exists>s'. vs_pop_back s = (Ok (hd (vs_items s)) :: _ vm_result, s') \<and> vs_items s' = tl (vs_items s) \<and> vs_wf s') \<and>
    (\<exists>s'. andThen (vs_push x) (\<lambda>_. vs_pop_back) s = (Ok x :: _ vm_result, s') \<and>
          vs_items s' = vs_items s) \<and>
    (\<exists>s'. vs_pop_n k s = (Ok (take k (vs_items s)) :: _ vm_result, s') \<and>
          vs_items s' = drop k (vs_items s) \<and> vs_wf s') \<and>
    (\<exists>s'. vs_swap_with_top n s = (Ok () :: _ vm_result, s') \<and>
          vs_items s' = (vs_items s)[0 := vs_items s ! n, n := vs_items s ! 0] \<and> vs_wf s') \<and>
    (\<exists>s'. andThen (vs_swap_with_top n) (\<lambda>_. vs_swap_with_top n) s = (Ok () :: _ vm_result, s') \<and>
          vs_items s' = vs_items s)"
proof -
  have n: "n < length (vs_items s)" using assms(2) by simp
  then obtain y ys where "vs_items s = y # ys" by (cases "vs_items s") auto
  with assms n vec.peek_law [where 'b = Error, of s n] vec.push_pop [where 'b = Error, of s x]
    vec.push_law [where 'b = Error, of s x] vec.pop_law [where 'b = Error, of s y ys]
    vec.swap_law [where 'b = Error, of s n]
    vs_pop_n_run [where 'e = Error, of s k] vec.swap_involutive [where 'b = Error, of s n] show ?thesis by auto
qed

theorem stack_operations_witness:
  "\<exists>s'. vs_pop_n 2 (VecStack.make [10, 20, 30 :: U256] (replicate 4 0)) = (Ok [30, 20] :: _ vm_result, s')
        \<and> vs_items s' = [10]"
proof -
  define s where "s = VecStack.make [10, 20, 30 :: U256] (replicate 4 0)"
  have "vs_wf s" "2 < vs_size s" "2 \<le> MAX_NO_OF_TOPICS" "2 \<le> vs_size s" "vs_items s = [30, 20, 10]"
    by (simp_all add: s_def VecStack.defs vs_wf_def vs_size_def MAX_NO_OF_TOPICS_def vs_items_def)
  from stack_operations [OF this(1-4)] this show ?thesis by (auto simp: s_def)
qed

end
