(* ===== verification/Evm_Cost.thy ===== *)
theory Evm_Cost
  imports Evm_Types
begin

text \<open>
  The cost type of the gasometer (\<open>src/cfx-evm/src/evm/evm.rs\<close>): gas is
  counted in \<open>usize\<close> when the limit fits and in \<open>U256\<close> otherwise.  Both
  implementations of the trait are given as the source writes them; they are
  the instances at 64 and 256 bits of one definition on words of any length,
  which is what the gasometer uses.  Also the finalisation of a frame result.
\<close>

section \<open>The two implementations\<close>

definition U256_as_u256 :: "U256 \<Rightarrow> U256" where
  "U256_as_u256 x = x"

definition U256_from_u256 :: "U256 \<Rightarrow> U256 vm_result" where
  "U256_from_u256 val = Ok val"

definition U256_as_usize :: "U256 \<Rightarrow> usize vm_result" where
  "U256_as_usize x = (if unat x \<le> usize_MAX then Ok (unat x) else Panic)"

definition U256_overflow_mul_shr :: "U256 \<Rightarrow> U256 \<Rightarrow> usize \<Rightarrow> U256 \<times> bool" where
  "U256_overflow_mul_shr a b n =
     (let x = ucast a * ucast b :: U512;
          overflow = drop_bit 256 x > 0
      in (ucast (drop_bit n x), overflow))"

definition u64_as_u256 :: "u64 \<Rightarrow> U256" where
  "u64_as_u256 x = ucast x"

definition u64_from_u256 :: "U256 \<Rightarrow> u64 vm_result" where
  "u64_from_u256 val =
     (let res = ucast val :: u64 in if ucast res \<noteq> val then Err OutOfGas else Ok res)"

definition u64_as_usize :: "u64 \<Rightarrow> usize vm_result" where
  "u64_as_usize x = Ok (unat x)"

definition u64_overflow_mul_shr :: "u64 \<Rightarrow> u64 \<Rightarrow> usize \<Rightarrow> u64 \<times> bool" where
  "u64_overflow_mul_shr a b n =
     (let (c, overflowed) = overflowing_mul (ucast a :: u128) (ucast b);
          overflow = overflowed \<or> drop_bit 64 c > 0;
          parts0 = ucast (drop_bit n c) :: u64;
          result = parts0;
          overflow = overflow \<or> parts0 > result
      in (result, overflow))"

section \<open>One definition for both widths\<close>

definition as_u256 :: "'c::len word \<Rightarrow> U256" where
  "as_u256 x = ucast x"

definition from_u256 :: "U256 \<Rightarrow> ('c::len word) vm_result" where
  "from_u256 val = (if unat val < 2 ^ LENGTH('c) then Ok (ucast val) else Err OutOfGas)"

definition as_usize :: "'c::len word \<Rightarrow> usize vm_result" where
  "as_usize x = (if unat x \<le> usize_MAX then Ok (unat x) else Panic)"

definition from_usize :: "usize \<Rightarrow> 'c::len word" where
  "from_usize n = of_nat n"

definition overflow_add :: "'c::len word \<Rightarrow> 'c word \<Rightarrow> 'c word \<times> bool" where
  "overflow_add a b = overflowing_add a b"

definition overflow_mul :: "'c::len word \<Rightarrow> 'c word \<Rightarrow> 'c word \<times> bool" where
  "overflow_mul a b = overflowing_mul a b"

definition overflow_mul_shr :: "'c::len word \<Rightarrow> 'c word \<Rightarrow> usize \<Rightarrow> 'c word \<times> bool" where
  "overflow_mul_shr a b n =
     (of_nat (unat a * unat b div 2 ^ n), 2 ^ LENGTH('c) \<le> unat a * unat b)"

text \<open>The macro \<open>overflowing!\<close> of the gasometer: the value, or \<open>OutOfGas\<close>.\<close>

fun overflowing :: "'c \<times> bool \<Rightarrow> 'c vm_result" where
  "overflowing (v, overflow) = (if overflow then Err OutOfGas else Ok v)"

section \<open>The instances agree with the sources\<close>

lemma U256_from_u256_eq: "U256_from_u256 v = from_u256 v"
  using unat_lt_exp [of v] by (simp add: U256_from_u256_def from_u256_def)

lemma U256_as_usize_eq: "U256_as_usize x = as_usize x"
  by (simp add: U256_as_usize_def as_usize_def)

lemma u64_as_usize_eq: "u64_as_usize x = as_usize x"
  using unat_lt_exp [of x] by (simp add: u64_as_usize_def as_usize_def usize_MAX_eq)

lemma u64_from_u256_eq: "u64_from_u256 v = from_u256 v"
proof -
  have "unat (ucast (ucast v :: u64) :: U256) = unat v mod 2 ^ 64"
    by (simp add: unat_ucast_wide unat_ucast_mod)
  then have "ucast (ucast v :: u64) = v \<longleftrightarrow> unat v < 2 ^ 64"
    by (auto simp: word_unat_eq_iff mod_eq_self_iff_div_eq_0)
  then show ?thesis by (auto simp: u64_from_u256_def from_u256_def)
qed

lemma U256_overflow_mul_shr_eq: "U256_overflow_mul_shr a b n = overflow_mul_shr a b n"
proof -
  let ?x = "ucast a * ucast b :: U512"
  have "unat a * unat b < 2 ^ 256 * 2 ^ 256"
    by (intro mult_strict_mono) (use unat_lt_exp [of a] unat_lt_exp [of b] in simp_all)
  then have x: "unat ?x = unat a * unat b"
    by (simp add: unat_mul_exact unat_ucast_wide)
  have "(drop_bit 256 ?x > 0) = (2 ^ 256 \<le> unat ?x)"
    by (rule drop_bit_word_pos)
  moreover have "ucast (drop_bit n ?x) = (of_nat (unat ?x div 2 ^ n) :: U256)"
    by (rule word_eq_unatI) (simp only: unat_ucast_mod unat_of_nat unat_drop_bit take_bit_eq_mod)
  ultimately show ?thesis
    by (simp add: U256_overflow_mul_shr_def overflow_mul_shr_def Let_def x)
qed

lemma u64_overflow_mul_shr_eq: "u64_overflow_mul_shr a b n = overflow_mul_shr a b n"
proof -
  let ?x = "ucast a * ucast b :: u128"
  have lt: "unat a * unat b < 2 ^ 64 * 2 ^ 64"
    by (intro mult_strict_mono) (use unat_lt_exp [of a] unat_lt_exp [of b] in simp_all)
  then have x: "unat ?x = unat a * unat b"
    by (simp add: unat_mul_exact unat_ucast_wide)
  have "(drop_bit 64 ?x > 0) = (2 ^ 64 \<le> unat ?x)"
    by (rule drop_bit_word_pos)
  moreover have "ucast (drop_bit n ?x) = (of_nat (unat ?x div 2 ^ n) :: u64)"
    by (rule word_eq_unatI) (simp only: unat_ucast_mod unat_of_nat unat_drop_bit take_bit_eq_mod)
  ultimately show ?thesis using lt
    by (simp add: u64_overflow_mul_shr_def overflow_mul_shr_def overflowing_mul_def Let_def x
        unat_ucast_wide)
qed

section \<open>What the operations compute\<close>

lemma overflowing_add_Ok:
  "overflowing (overflow_add a b) = Ok c \<longleftrightarrow>
     unat a + unat b < 2 ^ LENGTH('c) \<and> c = a + b" for a b c :: "'c::len word"
  by (auto simp: overflow_add_def overflowing_add_def)

lemma overflowing_mul_Ok:
  "overflowing (overflow_mul a b) = Ok c \<longleftrightarrow>
     unat a * unat b < 2 ^ LENGTH('c) \<and> c = a * b" for a b c :: "'c::len word"
  by (auto simp: overflow_mul_def overflowing_mul_def)

lemma overflowing_mul_shr_Ok:
  "overflowing (overflow_mul_shr a b n) = Ok c \<longleftrightarrow>
     unat a * unat b < 2 ^ LENGTH('c) \<and> c = of_nat (unat a * unat b div 2 ^ n)"
  for a b c :: "'c::len word"
  by (auto simp: overflow_mul_shr_def)

lemma overflowing_neq_Panic [simp]: "overflowing p \<noteq> Panic"
  by (cases p) simp

lemma from_u256_neq_Panic [simp]: "from_u256 v \<noteq> Panic"
  by (simp add: from_u256_def)

section \<open>Finalisation\<close>

record FinalizationResult =
  fin_gas_left :: U256
  fin_apply_state :: bool
  fin_return_data :: ReturnData

text \<open>\<open>finalize\<close> consumes the context: \<open>ctx_ret\<close> is its last operation.\<close>

fun finalize :: "'ctx Context \<Rightarrow> GasLeft vm_result \<Rightarrow> ('ctx, Error, FinalizationResult) op" where
  "finalize C (Ok (Known gas_left)) =
     ret \<lparr>fin_gas_left = gas_left, fin_apply_state = True, fin_return_data = rd_empty\<rparr>"
| "finalize C (Ok (NeedsReturn gas_left data apply_state)) =
     andThen (ctx_ret C gas_left data apply_state) (\<lambda>gas_left.
       ret \<lparr>fin_gas_left = gas_left, fin_apply_state = apply_state, fin_return_data = data\<rparr>)"
| "finalize C (Err err) = throw err"
| "finalize C Panic = panic"

section \<open>The cost types agree\<close>

text \<open>C21.  The two cost types are the 64-bit and the 256-bit instance of one definition, and a
  product with shift that does not overflow in 64 bits is the same number in 256 bits: an
  interpreter that counts in \<open>usize\<close> and one that counts in \<open>U256\<close> compute the same figures.\<close>

theorem cost_types_agree:
  fixes a b :: u64 and x y :: U256
  shows "u64_from_u256 v = from_u256 v \<and> U256_from_u256 v = from_u256 v \<and>
    u64_as_usize a = as_usize a \<and> U256_as_usize x = as_usize x \<and>
    u64_overflow_mul_shr a b n = overflow_mul_shr a b n \<and>
    U256_overflow_mul_shr x y n = overflow_mul_shr x y n \<and>
    (\<not> snd (u64_overflow_mul_shr a b n) \<longrightarrow>
       U256_overflow_mul_shr (u64_as_u256 a) (u64_as_u256 b) n =
         (u64_as_u256 (fst (u64_overflow_mul_shr a b n)), False))"
proof -
  have u: "unat (u64_as_u256 w) = unat w" for w
    unfolding u64_as_u256_def by (rule unat_ucast_wide) simp
  have "U256_overflow_mul_shr (u64_as_u256 a) (u64_as_u256 b) n =
         (u64_as_u256 (fst (u64_overflow_mul_shr a b n)), False)"
    if "\<not> snd (u64_overflow_mul_shr a b n)"
  proof -
    from that have lt: "unat a * unat b < 2 ^ 64"
      by (simp add: u64_overflow_mul_shr_eq overflow_mul_shr_def not_le)
    then have "unat a * unat b div 2 ^ n < 2 ^ 64" by (meson div_le_dividend le_less_trans)
    moreover from this have "unat a * unat b div 2 ^ n < 2 ^ 256" by simp
    ultimately have "u64_as_u256 (of_nat (unat a * unat b div 2 ^ n)) = of_nat (unat a * unat b div 2 ^ n)"
      by (intro word_eq_unatI) (simp add: u unat_of_nat_exact)
    then show ?thesis using lt
      by (simp add: u64_overflow_mul_shr_eq U256_overflow_mul_shr_eq overflow_mul_shr_def u)
  qed
  then show ?thesis
    by (simp add: u64_from_u256_eq U256_from_u256_eq u64_as_usize_eq U256_as_usize_eq
        u64_overflow_mul_shr_eq U256_overflow_mul_shr_eq)
qed

theorem cost_types_agree_witness:
  "U256_overflow_mul_shr (u64_as_u256 6) (u64_as_u256 7) 1 = (u64_as_u256 21, False)"
  using cost_types_agree [of 0 6 0 7 1 0]
  by (simp add: u64_overflow_mul_shr_eq overflow_mul_shr_def)

end
