(* ===== verification/Evm_Gasometer.thy ===== *)
theory Evm_Gasometer
  imports Evm_Stack Evm_Cost
begin

text \<open>
  The gasometer (\<open>src/cfx-evm/src/evm/interpreter/gasometer.rs\<close>): what an
  instruction costs, how much memory it needs, and how much gas a call or a
  creation may hand to the frame it starts.  \<open>request\<close> is the large match of
  \<open>requirements\<close>, whose second half turns the request into the final figures.
  The cost type is a word of any length, see \<open>Evm_Cost\<close>.

  The lemmas relate the memory charge to the quadratic formula on natural
  numbers, bound the gas given to a sub-frame, and show that the two cost
  types agree whenever the narrow one succeeds.
\<close>

section \<open>Requests and requirements\<close>

datatype (plugins only: code size) 'g Request =
    Req_Gas 'g
  | Req_GasMem 'g 'g
  | Req_GasMemProvide 'g 'g "U256 option"
  | Req_GasMemCopy 'g 'g 'g

record 'g InstructionRequirements =
  req_gas_cost :: 'g
  req_provide_gas :: "'g option"
  req_memory_total_gas :: 'g
  req_memory_required_size :: usize

record 'g Gasometer =
  current_gas :: 'g
  current_mem_gas :: 'g

definition gasometer_new :: "'c::len word \<Rightarrow> 'c word Gasometer" where
  "gasometer_new g = \<lparr>current_gas = g, current_mem_gas = 0\<rparr>"

definition verify_gas :: "'c::len word Gasometer \<Rightarrow> 'c word \<Rightarrow> unit vm_result" where
  "verify_gas gm gas_cost = (if current_gas gm < gas_cost then Err OutOfGas else Ok ())"

definition gas_provided ::
  "'c::len word Gasometer \<Rightarrow> Spec \<Rightarrow> 'c word \<Rightarrow> U256 option \<Rightarrow> ('c word) vm_result" where
  "gas_provided gm spec needed requested_u =
     (let requested = map_option from_u256 requested_u :: ('c word) vm_result option;
          uncapped = (case requested of
              Some r \<Rightarrow> r
            | None \<Rightarrow> if needed \<le> current_gas gm then word_sub (current_gas gm) needed else Ok 0)
      in case sub_gas_cap_divisor spec of
           Some cap_divisor \<Rightarrow>
             if needed \<le> current_gas gm then
               bind (word_sub (current_gas gm) needed) (\<lambda>gas_remaining.
               bind (if cap_divisor = 64 then word_sub gas_remaining (drop_bit 6 gas_remaining)
                     else bind (word_div gas_remaining (from_usize cap_divisor)) (\<lambda>q.
                          word_sub gas_remaining q)) (\<lambda>max_gas_provided.
               case requested of
                 Some (Ok r) \<Rightarrow> Ok (min r max_gas_provided)
               | _ \<Rightarrow> Ok max_gas_provided))
             else uncapped
         | None \<Rightarrow> uncapped)"

section \<open>Memory\<close>

definition mem_needed_const :: "U256 \<Rightarrow> usize \<Rightarrow> ('c::len word) vm_result" where
  "mem_needed_const mem add =
     bind (overflowing (overflowing_add mem (of_nat add))) from_u256"

definition mem_needed :: "U256 \<Rightarrow> U256 \<Rightarrow> ('c::len word) vm_result" where
  "mem_needed offset sz =
     (if sz = 0 then Ok 0
      else bind (overflowing (overflowing_add offset sz)) from_u256)"

definition add_gas_usize :: "'c::len word \<Rightarrow> usize \<Rightarrow> 'c word \<times> bool" where
  "add_gas_usize value num = overflow_add value (from_usize num)"

definition to_word_size :: "'c::len word \<Rightarrow> 'c word \<times> bool" where
  "to_word_size value =
     (case add_gas_usize value 31 of (gas, overflow) \<Rightarrow>
        if overflow then (gas, overflow) else (drop_bit 5 gas, False))"

definition gas_for_mem :: "Spec \<Rightarrow> 'c::len word \<Rightarrow> ('c word) vm_result" where
  "gas_for_mem spec mem_size =
     (let s = drop_bit 5 mem_size in
      bind (overflowing (overflow_mul s (from_usize (memory_gas spec)))) (\<lambda>a.
      if quad_coeff_div spec \<noteq> 512 then Panic
      else bind (overflowing (overflow_mul_shr s s 9)) (\<lambda>b.
           overflowing (overflow_add a b))))"

definition mem_gas_cost ::
  "'c::len word Gasometer \<Rightarrow> Spec \<Rightarrow> usize \<Rightarrow> 'c word \<Rightarrow> ('c word \<times> 'c word \<times> usize) vm_result" where
  "mem_gas_cost gm spec cur_size mem_size =
     (let current_mem_size = from_usize cur_size in
      bind (overflowing (to_word_size mem_size)) (\<lambda>words.
      let req_mem_size_rounded = push_bit 5 words in
      bind (if current_mem_size < req_mem_size_rounded
            then bind (gas_for_mem spec req_mem_size_rounded) (\<lambda>new_mem_gas.
                 bind (word_sub new_mem_gas (current_mem_gas gm)) (\<lambda>d. Ok (d, new_mem_gas)))
            else Ok (0, current_mem_gas gm)) (\<lambda>(mem_gas_cost, new_mem_gas).
      bind (as_usize req_mem_size_rounded) (\<lambda>sz. Ok (mem_gas_cost, new_mem_gas, sz)))))"

section \<open>The request of an instruction\<close>

definition u256_to_address :: "U256 \<Rightarrow> Address" where
  "u256_to_address v = ucast v"

text \<open>\<open>bits\<close>: the position of the highest one, counted from one.\<close>

fun nat_bits :: "nat \<Rightarrow> nat" where
  "nat_bits n = (if n = 0 then 0 else Suc (nat_bits (n div 2)))"

declare nat_bits.simps [simp del]

definition bits :: "U256 \<Rightarrow> nat" where
  "bits v = nat_bits (unat v)"

abbreviation peek :: "U256 VecStack \<Rightarrow> nat \<Rightarrow> U256 vm_result" where
  "peek st n \<equiv> fst (vs_peek n st)"

abbreviation pk :: "U256 VecStack \<Rightarrow> nat \<Rightarrow> ('ctx, Error, U256) op" where
  "pk st n \<equiv> lift_outcome (peek st n)"

text \<open>
  The test shared by \<open>SUICIDE\<close> and \<open>CALL\<close>: is the beneficiary an account that
  the transfer would create?  The disjunction is evaluated from left to right
  and asks the context only where it has to.
\<close>

definition creates_account :: "'ctx Context \<Rightarrow> Spec \<Rightarrow> bool \<Rightarrow> Address \<Rightarrow> ('ctx, Error, bool) op" where
  "creates_account C spec is_value_transfer address =
     andThen (if \<not> no_empty spec
              then andThen (ctx_exists C address) (\<lambda>e. ret (\<not> e)) else ret False) (\<lambda>fst_disj.
     if fst_disj then ret True
     else if no_empty spec \<and> is_value_transfer
          then andThen (ctx_exists_and_not_null C address) (\<lambda>e. ret (\<not> e))
          else ret False)"

definition request_sstore ::
  "'ctx Context \<Rightarrow> Spec \<Rightarrow> U256 VecStack \<Rightarrow> ('ctx, Error, ('c::len word) Request) op" where
  "request_sstore C spec st =
     andThen (pk st 0) (\<lambda>k.
     andThen (pk st 1) (\<lambda>newval.
     andThen (ctx_storage_at C (to_be 32 k)) (\<lambda>val.
     andThen (lift_outcome (if val = 0 \<and> newval \<noteq> 0
              then usize_mul (sstore_set_gas spec) (evm_gas_ratio spec)
              else Ok (sstore_reset_gas spec))) (\<lambda>gas.
     ret (Req_Gas (from_usize gas))))))"

definition request_suicide ::
  "'ctx Context \<Rightarrow> Spec \<Rightarrow> U256 VecStack \<Rightarrow> ('ctx, Error, ('c::len word) Request) op" where
  "request_suicide C spec st =
     andThen (ctx_origin_balance C) (\<lambda>bal.
     andThen (pk st 0) (\<lambda>a.
     andThen (creates_account C spec (bal \<noteq> 0) (u256_to_address a)) (\<lambda>new.
     if new then
       andThen (lift_outcome (usize_mul (suicide_to_new_account_cost spec) (evm_gas_ratio spec))) (\<lambda>c.
       andThen (lift_outcome (overflowing (overflow_add (from_usize (suicide_gas spec)) (from_usize c)))) (\<lambda>gas.
       ret (Req_Gas gas)))
     else ret (Req_Gas (from_usize (suicide_gas spec))))))"

definition request_sha3 ::
  "Spec \<Rightarrow> U256 VecStack \<Rightarrow> ('ctx, Error, ('c::len word) Request) op" where
  "request_sha3 spec st = lift_outcome (
     bind (peek st 1) (\<lambda>len.
     bind (from_u256 len) (\<lambda>l.
     bind (overflowing (to_word_size l)) (\<lambda>words.
     bind (overflowing (overflow_mul (from_usize (sha3_word_gas spec)) words)) (\<lambda>w.
     bind (overflowing (overflow_add (from_usize (sha3_gas spec)) w)) (\<lambda>gas.
     bind (peek st 0) (\<lambda>off.
     bind (mem_needed off len) (\<lambda>mem. Ok (Req_GasMem gas mem)))))))))"

definition request_copy ::
  "usize \<Rightarrow> usize \<Rightarrow> 'c::len word \<Rightarrow> U256 VecStack \<Rightarrow> ('ctx, Error, ('c word) Request) op" where
  "request_copy off_pos len_pos gas st = lift_outcome (
     bind (peek st off_pos) (\<lambda>off.
     bind (peek st len_pos) (\<lambda>len.
     bind (mem_needed off len) (\<lambda>mem.
     bind (from_u256 len) (\<lambda>copy. Ok (Req_GasMemCopy gas mem copy))))))"

definition request_mem ::
  "'c::len word \<Rightarrow> U256 VecStack \<Rightarrow> ('ctx, Error, ('c word) Request) op" where
  "request_mem gas st = lift_outcome (
     bind (peek st 0) (\<lambda>off.
     bind (peek st 1) (\<lambda>len.
     bind (mem_needed off len) (\<lambda>mem. Ok (Req_GasMem gas mem)))))"

definition request_mem_const ::
  "'c::len word \<Rightarrow> usize \<Rightarrow> U256 VecStack \<Rightarrow> ('ctx, Error, ('c word) Request) op" where
  "request_mem_const gas add st = lift_outcome (
     bind (peek st 0) (\<lambda>off. bind (mem_needed_const off add) (\<lambda>mem. Ok (Req_GasMem gas mem))))"

definition request_log ::
  "Spec \<Rightarrow> Instruction \<Rightarrow> U256 VecStack \<Rightarrow> ('ctx, Error, ('c::len word) Request) op" where
  "request_log spec i st = lift_outcome (
     bind (expect (log_topics i)) (\<lambda>no_of_topics.
     bind (usize_mul (log_topic_gas spec) no_of_topics) (\<lambda>t.
     bind (usize_add (log_gas spec) t) (\<lambda>lg.
     bind (peek st 1) (\<lambda>len.
     bind (from_u256 len) (\<lambda>l.
     bind (overflowing (overflow_mul l (from_usize (log_data_gas spec)))) (\<lambda>data_gas.
     bind (overflowing (overflow_add data_gas (from_usize lg))) (\<lambda>gas.
     bind (peek st 0) (\<lambda>off.
     bind (mem_needed off len) (\<lambda>mem. Ok (Req_GasMem gas mem)))))))))))"

definition request_call ::
  "'ctx Context \<Rightarrow> Spec \<Rightarrow> Instruction \<Rightarrow> U256 VecStack \<Rightarrow> ('ctx, Error, ('c::len word) Request) op" where
  "request_call C spec i st =
     andThen (pk st 5) (\<lambda>out_off. andThen (pk st 6) (\<lambda>out_size.
     andThen (lift_outcome (mem_needed out_off out_size)) (\<lambda>m1.
     andThen (pk st 3) (\<lambda>in_off. andThen (pk st 4) (\<lambda>in_size.
     andThen (lift_outcome (mem_needed in_off in_size)) (\<lambda>m2.
     andThen (pk st 1) (\<lambda>a. andThen (pk st 2) (\<lambda>v.
     andThen (if i = Sys CALL then creates_account C spec (v \<noteq> 0) (u256_to_address a)
              else ret False) (\<lambda>new.
     andThen (if new
              then andThen (lift_outcome (usize_mul (call_new_account_gas spec) (evm_gas_ratio spec))) (\<lambda>c.
                   lift_outcome (overflowing (overflow_add (from_usize (call_gas spec)) (from_usize c))))
              else ret (from_usize (call_gas spec))) (\<lambda>gas.
     andThen (if v \<noteq> 0
              then lift_outcome (overflowing (overflow_add gas (from_usize (call_value_transfer_gas spec))))
              else ret gas) (\<lambda>gas.
     andThen (pk st 0) (\<lambda>requested.
     ret (Req_GasMemProvide gas (max m1 m2) (Some requested))))))))))))))"

definition request_delegate ::
  "Spec \<Rightarrow> U256 VecStack \<Rightarrow> ('ctx, Error, ('c::len word) Request) op" where
  "request_delegate spec st = lift_outcome (
     bind (peek st 4) (\<lambda>out_off. bind (peek st 5) (\<lambda>out_size.
     bind (mem_needed out_off out_size) (\<lambda>m1.
     bind (peek st 2) (\<lambda>in_off. bind (peek st 3) (\<lambda>in_size.
     bind (mem_needed in_off in_size) (\<lambda>m2.
     bind (peek st 0) (\<lambda>requested.
     Ok (Req_GasMemProvide (from_usize (call_gas spec)) (max m1 m2) (Some requested))))))))))"

definition request_create ::
  "Spec \<Rightarrow> Instruction \<Rightarrow> U256 VecStack \<Rightarrow> ('ctx, Error, ('c::len word) Request) op" where
  "request_create spec i st = lift_outcome (
     bind (peek st 1) (\<lambda>start. bind (peek st 2) (\<lambda>len.
     bind (from_u256 len) (\<lambda>l.
     bind (overflowing (to_word_size l)) (\<lambda>word.
     bind (overflowing (overflow_mul (from_usize (sha3_word_gas spec)) word)) (\<lambda>word_gas0.
     let word_gas = (if i = Sys CREATE then 0 else word_gas0) in
     bind (overflowing (overflow_add (from_usize (create_gas spec)) word_gas)) (\<lambda>gas.
     bind (mem_needed start len) (\<lambda>mem.
     Ok (Req_GasMemProvide gas mem None)))))))))"

definition request_exp ::
  "Spec \<Rightarrow> U256 VecStack \<Rightarrow> ('ctx, Error, ('c::len word) Request) op" where
  "request_exp spec st = lift_outcome (
     bind (peek st 1) (\<lambda>expon.
     bind (usize_mul (exp_byte_gas spec) ((bits expon + 7) div 8)) (\<lambda>b.
     bind (usize_add (exp_gas spec) b) (\<lambda>g. Ok (Req_Gas (from_usize g))))))"

definition request ::
  "'ctx Context \<Rightarrow> Spec \<Rightarrow> Instruction \<Rightarrow> 'c::len word \<Rightarrow> U256 VecStack \<Rightarrow>
     ('ctx, Error, ('c word) Request) op" where
  "request C spec i default_gas st = (case i of
     Flow op \<Rightarrow> (case op of
         JUMPDEST \<Rightarrow> ret (Req_Gas (from_usize 1))
       | SSTORE \<Rightarrow> request_sstore C spec st
       | SLOAD \<Rightarrow> ret (Req_Gas (from_usize (sload_gas spec)))
       | MSTORE \<Rightarrow> request_mem_const default_gas 32 st
       | MLOAD \<Rightarrow> request_mem_const default_gas 32 st
       | MSTORE8 \<Rightarrow> request_mem_const default_gas 1 st
       | _ \<Rightarrow> ret (Req_Gas default_gas))
   | EnvI op \<Rightarrow> (case op of
         BALANCE \<Rightarrow> ret (Req_Gas (from_usize (balance_gas spec)))
       | EXTCODESIZE \<Rightarrow> ret (Req_Gas (from_usize (extcodesize_gas spec)))
       | EXTCODEHASH \<Rightarrow> ret (Req_Gas (from_usize (extcodehash_gas spec)))
       | CALLDATACOPY \<Rightarrow> request_copy 0 2 default_gas st
       | CODECOPY \<Rightarrow> request_copy 0 2 default_gas st
       | RETURNDATACOPY \<Rightarrow> request_copy 0 2 default_gas st
       | EXTCODECOPY \<Rightarrow> request_copy 1 3 (from_usize (extcodecopy_base_gas spec)) st
       | _ \<Rightarrow> ret (Req_Gas default_gas))
   | Sys op \<Rightarrow> (case op of
         SUICIDE \<Rightarrow> request_suicide C spec st
       | RETURN \<Rightarrow> request_mem default_gas st
       | REVERT \<Rightarrow> request_mem default_gas st
       | CALL \<Rightarrow> request_call C spec i st
       | CALLCODE \<Rightarrow> request_call C spec i st
       | DELEGATECALL \<Rightarrow> request_delegate spec st
       | STATICCALL \<Rightarrow> request_delegate spec st
       | CREATE \<Rightarrow> request_create spec i st
       | CREATE2 \<Rightarrow> request_create spec i st)
   | SHA3 \<Rightarrow> request_sha3 spec st
   | LOG _ \<Rightarrow> request_log spec i st
   | Arith op \<Rightarrow> (case op of
         EXP \<Rightarrow> request_exp spec st
       | _ \<Rightarrow> ret (Req_Gas default_gas))
   | BlockI op \<Rightarrow> (case op of
         BLOCKHASH \<Rightarrow> ret (Req_Gas (from_usize (blockhash_gas spec)))
       | _ \<Rightarrow> ret (Req_Gas default_gas))
   | _ \<Rightarrow> ret (Req_Gas default_gas))"

section \<open>From the request to the requirements\<close>

fun finish_request ::
  "'c::len word Gasometer \<Rightarrow> Spec \<Rightarrow> usize \<Rightarrow> ('c word) Request \<Rightarrow>
     ('c word InstructionRequirements) vm_result" where
  "finish_request gm spec cur_size (Req_Gas gas) =
     Ok \<lparr>req_gas_cost = gas, req_provide_gas = None,
         req_memory_total_gas = current_mem_gas gm, req_memory_required_size = 0\<rparr>"
| "finish_request gm spec cur_size (Req_GasMem gas mem_size) =
     bind (mem_gas_cost gm spec cur_size mem_size) (\<lambda>(mem_gas, new_mem_gas, new_mem_size).
     bind (overflowing (overflow_add gas mem_gas)) (\<lambda>gas.
     Ok \<lparr>req_gas_cost = gas, req_provide_gas = None,
         req_memory_total_gas = new_mem_gas, req_memory_required_size = new_mem_size\<rparr>))"
| "finish_request gm spec cur_size (Req_GasMemProvide gas mem_size requested) =
     bind (mem_gas_cost gm spec cur_size mem_size) (\<lambda>(mem_gas, new_mem_gas, new_mem_size).
     bind (overflowing (overflow_add gas mem_gas)) (\<lambda>gas.
     bind (gas_provided gm spec gas requested) (\<lambda>provided.
     bind (overflowing (overflow_add gas provided)) (\<lambda>total_gas.
     Ok \<lparr>req_gas_cost = total_gas, req_provide_gas = Some provided,
         req_memory_total_gas = new_mem_gas, req_memory_required_size = new_mem_size\<rparr>))))"
| "finish_request gm spec cur_size (Req_GasMemCopy gas mem_size copy) =
     bind (mem_gas_cost gm spec cur_size mem_size) (\<lambda>(mem_gas, new_mem_gas, new_mem_size).
     bind (overflowing (to_word_size copy)) (\<lambda>copy.
     bind (overflowing (overflow_mul (from_usize (copy_gas spec)) copy)) (\<lambda>copy_gas.
     bind (overflowing (overflow_add gas copy_gas)) (\<lambda>gas.
     bind (overflowing (overflow_add gas mem_gas)) (\<lambda>gas.
     Ok \<lparr>req_gas_cost = gas, req_provide_gas = None,
         req_memory_total_gas = new_mem_gas, req_memory_required_size = new_mem_size\<rparr>)))))"

definition requirements ::
  "'ctx Context \<Rightarrow> 'c::len word Gasometer \<Rightarrow> Instruction \<Rightarrow> InstructionInfo \<Rightarrow> U256 VecStack \<Rightarrow>
     usize \<Rightarrow> ('ctx, Error, 'c word InstructionRequirements) op" where
  "requirements C gm i nfo st cur_size =
     andThen (gets (ctx_spec C)) (\<lambda>spec.
     andThen (lift_outcome (index (tier_step_gas spec) (tier_idx (info_tier nfo)))) (\<lambda>d.
     andThen (request C spec i (from_usize d) st) (\<lambda>cost.
     lift_outcome (finish_request gm spec cur_size cost))))"

section \<open>Well-formed specifications\<close>

text \<open>
  The conditions on a cost specification under which the gasometer neither
  overflows a \<open>usize\<close> nor gives an instruction away: every price but those of
  the tiers \<open>Zero\<close> and \<open>Special\<close> is positive and below \<open>2 ^ 31\<close>, the table of
  tiers has its eight entries, the two divisors are the ones the code expects,
  and the stipend is less than the charge for a transfer of value.
\<close>

definition prices :: "Spec \<Rightarrow> usize list" where
  "prices s =
     [tier_step_gas s ! 1, tier_step_gas s ! 2, tier_step_gas s ! 3, tier_step_gas s ! 4,
      tier_step_gas s ! 5, tier_step_gas s ! 6,
      exp_gas s, exp_byte_gas s, sha3_gas s, sha3_word_gas s, sload_gas s, sstore_set_gas s,
      sstore_reset_gas s, log_gas s, log_data_gas s, log_topic_gas s, create_gas s, call_gas s,
      call_value_transfer_gas s, call_new_account_gas s, memory_gas s, copy_gas s,
      extcodesize_gas s, extcodecopy_base_gas s, balance_gas s, extcodehash_gas s, suicide_gas s,
      suicide_to_new_account_cost s, blockhash_gas s, evm_gas_ratio s, call_stipend s]"

definition wf_spec :: "Spec \<Rightarrow> bool" where
  "wf_spec s \<longleftrightarrow> (\<forall>p \<in> set (prices s). 0 < p \<and> p < 2 ^ 31) \<and>
     length (tier_step_gas s) = 8 \<and> tier_step_gas s ! 0 < 2 ^ 31 \<and> tier_step_gas s ! 7 < 2 ^ 31 \<and>
     quad_coeff_div s = 512 \<and> sub_gas_cap_divisor s = Some 64 \<and>
     stack_limit s < 2 ^ 31 \<and> call_stipend s < call_value_transfer_gas s"

lemma wf_genesis_spec: "wf_spec genesis_spec"
  by (simp add: wf_spec_def prices_def genesis_spec_def)

lemma wf_new_spec: "wf_spec (new_spec_from_common_params p n)"
  by (simp add: wf_spec_def prices_def genesis_spec_def new_spec_from_common_params_def)

section \<open>The memory charge\<close>

text \<open>
  The cost of a memory of \<open>w\<close> words: linear in \<open>w\<close> plus a quadratic term.
  \<open>words_of n\<close> is the number of words that hold \<open>n\<close> bytes.
\<close>

definition mem_cost :: "Spec \<Rightarrow> nat \<Rightarrow> nat" where
  "mem_cost spec w = w * memory_gas spec + w * w div 512"

definition words_of :: "nat \<Rightarrow> nat" where
  "words_of n = (n + 31) div 32"

lemma mem_cost_mono: "v \<le> w \<Longrightarrow> mem_cost spec v \<le> mem_cost spec w"
  unfolding mem_cost_def by (intro add_mono mult_le_mono div_le_mono) simp_all

lemma two_pow_64_le: "64 \<le> LENGTH('c::len) \<Longrightarrow> (2::nat) ^ 64 \<le> 2 ^ LENGTH('c)"
  by (rule power_increasing) simp_all

lemma unat_from_usize:
  assumes "64 \<le> LENGTH('c)" "n \<le> usize_MAX"
  shows "unat (from_usize n :: 'c::len word) = n"
proof -
  have "n < 2 ^ 64" using assms(2) by (simp add: usize_MAX_def)
  then have "n < 2 ^ LENGTH('c)" using two_pow_64_le [OF assms(1)] by linarith
  then show ?thesis by (simp add: from_usize_def unat_of_nat_exact)
qed

lemma to_word_size_Ok:
  fixes v w :: "'c::len word"
  assumes "64 \<le> LENGTH('c)"
  shows "overflowing (to_word_size v) = Ok w \<longleftrightarrow>
    unat v + 31 < 2 ^ LENGTH('c) \<and> unat w = words_of (unat v)"
proof -
  have u: "unat (from_usize 31 :: 'c word) = 31"
    by (rule unat_from_usize [OF assms]) (simp add: usize_MAX_def)
  show ?thesis
  proof (cases "unat v + 31 < 2 ^ LENGTH('c)")
    case True
    then have "unat (v + from_usize 31) = unat v + 31" using u by (simp add: unat_add_exact)
    with True u show ?thesis
      by (auto simp: to_word_size_def add_gas_usize_def overflow_add_def overflowing_add_def
          words_of_def word_unat_eq_iff unat_drop_bit)
  next
    case False
    with u show ?thesis
      by (simp add: to_word_size_def add_gas_usize_def overflow_add_def overflowing_add_def)
  qed
qed

lemma gas_for_mem_eq:
  fixes m :: "'c::len word"
  assumes "64 \<le> LENGTH('c)" "wf_spec spec" and s: "s = unat m div 32"
  shows "gas_for_mem spec m =
    (if s * s < 2 ^ LENGTH('c) \<and> mem_cost spec s < 2 ^ LENGTH('c)
     then Ok (of_nat (mem_cost spec s)) else Err OutOfGas)"
proof -
  from assms(2) have mg: "memory_gas spec \<le> usize_MAX" and q: "quad_coeff_div spec = 512"
    by (simp_all add: wf_spec_def prices_def usize_MAX_def)
  note u = unat_from_usize [OF assms(1) mg]
  have d: "unat (drop_bit 5 m) = s" by (simp add: unat_drop_bit s)
  have "drop_bit 5 m = of_nat (unat (drop_bit 5 m))" by simp
  then have dm: "drop_bit 5 m = of_nat s" by (simp only: d)
  have a: "unat (drop_bit 5 m * from_usize (memory_gas spec)) = s * memory_gas spec"
    if "s * memory_gas spec < 2 ^ LENGTH('c)"
    using that by (simp add: unat_mul_exact d u)
  have b: "unat (of_nat (s * s div 512) :: 'c word) = s * s div 512" if "s * s < 2 ^ LENGTH('c)"
    using that by (intro unat_of_nat_exact) (meson div_le_dividend le_less_trans)
  have "drop_bit 5 m * from_usize (memory_gas spec) + of_nat (s * s div 512) =
        (of_nat (mem_cost spec s) :: 'c word)"
    using dm by (simp only: mem_cost_def from_usize_def of_nat_add of_nat_mult)
  then show ?thesis using a b
    by (auto simp: gas_for_mem_def Let_def q d u overflow_mul_def overflowing_mul_def
        overflow_mul_shr_def overflow_add_def overflowing_add_def mem_cost_def)
qed

lemma gas_for_mem_neq_Panic: "wf_spec spec \<Longrightarrow> gas_for_mem spec m \<noteq> Panic"
  by (auto simp: gas_for_mem_def Let_def outcome_simps wf_spec_def)

text \<open>What the gasometer keeps about memory: the gas paid for the memory the frame has.\<close>

definition mem_paid :: "Spec \<Rightarrow> 'c::len word Gasometer \<Rightarrow> usize \<Rightarrow> bool" where
  "mem_paid spec gm cur \<longleftrightarrow> 32 dvd cur \<and> cur \<le> usize_MAX \<and>
     unat (current_mem_gas gm) = mem_cost spec (cur div 32)"

lemma unat_push_bit:
  assumes "unat w * 2 ^ n < 2 ^ LENGTH('a)"
  shows "unat (push_bit n (w :: 'a::len word)) = unat w * 2 ^ n"
  using assms by (subst unsigned_push_bit_eq) (simp add: take_bit_nat_eq_self push_bit_eq_mult [where 'a = nat])

lemma rounded_mem_size:
  fixes v w :: "'c::len word"
  assumes "64 \<le> LENGTH('c)" "overflowing (to_word_size v) = Ok w"
  shows "unat (push_bit 5 w) = 32 * words_of (unat v)"
proof -
  from assms have w: "unat v + 31 < 2 ^ LENGTH('c)" "unat w = words_of (unat v)"
    by (simp_all add: to_word_size_Ok)
  have "32 * words_of (unat v) \<le> unat v + 31" by (simp add: words_of_def)
  then have "32 * words_of (unat v) < 2 ^ LENGTH('c)" using w(1) by linarith
  then show ?thesis using unat_push_bit [of w 5] by (simp add: w(2) mult.commute)
qed

text \<open>
  The charge in one equation: growing the memory costs the difference of the
  two quadratic costs, not growing it costs nothing, and the size is rounded
  up to words; a size or a cost that leaves the cost type is out of gas.
\<close>

lemma mem_gas_cost_eq:
  fixes gm :: "'c::len word Gasometer"
  assumes L: "64 \<le> LENGTH('c)" and wf: "wf_spec spec" and paid: "mem_paid spec gm cur"
    and w: "w = words_of (unat m)"
  shows "mem_gas_cost gm spec cur m =
    (if 2 ^ LENGTH('c) \<le> unat m + 31 then Err OutOfGas
     else if cur < 32 * w then
       (if w * w < 2 ^ LENGTH('c) \<and> mem_cost spec w < 2 ^ LENGTH('c) then
          (if 32 * w \<le> usize_MAX
           then Ok (of_nat (mem_cost spec w - mem_cost spec (cur div 32)), of_nat (mem_cost spec w), 32 * w)
           else Panic)
        else Err OutOfGas)
     else Ok (0, current_mem_gas gm, 32 * w))"
proof (cases "2 ^ LENGTH('c) \<le> unat m + 31")
  case True
  then have "overflowing (to_word_size m) \<noteq> Ok x" for x by (simp add: to_word_size_Ok [OF L])
  then have "overflowing (to_word_size m) = Err OutOfGas"
    by (cases "to_word_size m") (metis overflowing.simps)
  with True show ?thesis by (simp add: mem_gas_cost_def)
next
  case False
  let ?v = "of_nat w :: 'c word"
  have "w \<le> unat m" if "0 < unat m" using that by (simp add: w words_of_def)
  then have uv: "unat ?v = w"
    using False by (intro unat_of_nat_exact) (cases "unat m = 0"; simp add: w words_of_def)
  then have v: "overflowing (to_word_size m) = Ok ?v" using False w by (simp add: to_word_size_Ok [OF L])
  have r: "unat (push_bit 5 ?v) = 32 * w" using rounded_mem_size [OF L v] w by simp
  have c: "unat (from_usize cur :: 'c word) = cur"
    using paid by (intro unat_from_usize [OF L]) (simp add: mem_paid_def)
  have g: "unat (current_mem_gas gm) = mem_cost spec (cur div 32)" using paid by (simp add: mem_paid_def)
  show ?thesis
  proof (cases "cur < 32 * w")
    case True
    then have lt: "from_usize cur < push_bit 5 ?v" by (simp add: word_less_nat_alt c r)
    have "mem_cost spec (cur div 32) \<le> mem_cost spec w" using True by (intro mem_cost_mono) simp
    moreover have "(of_nat (mem_cost spec w) :: 'c word) - current_mem_gas gm =
        of_nat (mem_cost spec w - mem_cost spec (cur div 32))"
      using calculation by (simp add: of_nat_diff flip: g)
    ultimately have "word_sub (of_nat (mem_cost spec w)) (current_mem_gas gm) =
        (Ok (of_nat (mem_cost spec w - mem_cost spec (cur div 32))) :: ('c word) vm_result)"
      if "mem_cost spec w < 2 ^ LENGTH('c)"
      using that g by (simp add: word_sub_def word_le_nat_alt unat_of_nat_exact)
    then show ?thesis
      using False True lt by (simp add: mem_gas_cost_def v gas_for_mem_eq [OF L wf refl] r as_usize_def)
  next
    case False': False
    then have "\<not> from_usize cur < push_bit 5 ?v" by (simp add: word_less_nat_alt c r)
    moreover have "32 * w \<le> usize_MAX" using False' paid by (simp add: mem_paid_def)
    ultimately show ?thesis using False False' by (simp add: mem_gas_cost_def v r as_usize_def)
  qed
qed

section \<open>Gas for a sub-frame\<close>

text \<open>
  With the divisor 64 a frame keeps at least a 64th of what remains after the
  instruction is paid; a request above the cap, or above the cost type, gets
  the cap.
\<close>

lemma gas_provided_capped:
  fixes gm :: "'c::len word Gasometer"
  assumes "wf_spec spec" "needed \<le> current_gas gm"
    and r: "r = current_gas gm - needed"
  shows "gas_provided gm spec needed req = Ok
    (let cap = r - drop_bit 6 r in
     case req of
       Some v \<Rightarrow> if unat v < 2 ^ LENGTH('c) then min (ucast v) cap else cap
     | None \<Rightarrow> cap)"
proof -
  have "drop_bit 6 r \<le> r" by (simp add: word_le_nat_alt unat_drop_bit del: drop_bit_eq_div)
  with assms show ?thesis
    by (auto simp: gas_provided_def Let_def wf_spec_def word_sub_def from_u256_def split: option.split)
qed

lemma gas_provided_bound:
  fixes gm :: "'c::len word Gasometer"
  assumes "wf_spec spec" "needed \<le> current_gas gm" "gas_provided gm spec needed req = Ok p"
    and r: "r = unat (current_gas gm) - unat needed"
  shows "unat p \<le> r - r div 64"
proof -
  let ?r = "current_gas gm - needed"
  have u: "unat ?r = r" using assms by (simp add: unat_sub_exact)
  have "drop_bit 6 ?r \<le> ?r" by (simp add: word_le_nat_alt unat_drop_bit del: drop_bit_eq_div)
  then have cap: "unat (?r - drop_bit 6 ?r) = r - r div 64"
    using u by (simp add: unat_sub_exact unat_drop_bit del: drop_bit_eq_div)
  have "p \<le> ?r - drop_bit 6 ?r"
    using assms(3) gas_provided_capped [OF assms(1,2) refl]
    by (auto simp: Let_def split: option.splits if_splits)
  then show ?thesis using cap by (simp add: word_le_nat_alt)
qed

lemma gas_provided_neq_Panic: "wf_spec spec \<Longrightarrow> gas_provided gm spec needed req \<noteq> Panic"
  by (cases "needed \<le> current_gas gm")
     (simp add: gas_provided_capped, auto simp: gas_provided_def Let_def wf_spec_def split: option.split)

section \<open>The requirements of a request\<close>

primrec rq_mem :: "('c::len word) Request \<Rightarrow> nat" where
  "rq_mem (Req_Gas g) = 0"
| "rq_mem (Req_GasMem g m) = unat m"
| "rq_mem (Req_GasMemProvide g m r) = unat m"
| "rq_mem (Req_GasMemCopy g m n) = unat m"

primrec rq_gas :: "('c::len word) Request \<Rightarrow> nat" where
  "rq_gas (Req_Gas g) = unat g"
| "rq_gas (Req_GasMem g m) = unat g"
| "rq_gas (Req_GasMemProvide g m r) = unat g"
| "rq_gas (Req_GasMemCopy g m n) = unat g"

primrec rq_provides :: "('c::len word) Request \<Rightarrow> bool" where
  "rq_provides (Req_Gas g) = False"
| "rq_provides (Req_GasMem g m) = False"
| "rq_provides (Req_GasMemProvide g m r) = True"
| "rq_provides (Req_GasMemCopy g m n) = False"

text \<open>
  The requirements cover the request: the size is a number of words and holds
  the memory asked for, the total is the price of the memory afterwards, and
  the charge covers the base price and the gas handed on.
\<close>

definition req_sound ::
  "Spec \<Rightarrow> usize \<Rightarrow> ('c::len word) Request \<Rightarrow> 'c word InstructionRequirements \<Rightarrow> bool" where
  "req_sound spec cur rq q \<longleftrightarrow>
     32 dvd req_memory_required_size q \<and> req_memory_required_size q \<le> usize_MAX \<and>
     rq_mem rq \<le> req_memory_required_size q \<and>
     unat (req_memory_total_gas q) = mem_cost spec (max cur (req_memory_required_size q) div 32) \<and>
     rq_gas rq + (case req_provide_gas q of None \<Rightarrow> 0 | Some p \<Rightarrow> unat p) \<le> unat (req_gas_cost q) \<and>
     (req_provide_gas q \<noteq> None \<longleftrightarrow> rq_provides rq)"

lemma mem_gas_cost_narrow:
  fixes gm :: "64 word Gasometer"
  assumes "wf_spec spec" "mem_paid spec gm cur"
  shows "mem_gas_cost gm spec cur m \<noteq> Panic"
    and "mem_gas_cost gm spec cur m = Ok (d, t, sz) \<Longrightarrow>
      32 dvd sz \<and> sz \<le> usize_MAX \<and> unat m \<le> sz \<and> unat t = mem_cost spec (max cur sz div 32)"
proof -
  let ?w = "words_of (unat m)"
  note eq = mem_gas_cost_eq [where 'c = 64, OF _ assms refl, of m]
  have le: "32 * ?w \<le> usize_MAX" if "unat m + 31 < 2 ^ 64"
  proof -
    have "32 * ?w \<le> unat m + 31" by (simp add: words_of_def)
    then show ?thesis using that by (simp add: usize_MAX_def)
  qed
  then show "mem_gas_cost gm spec cur m \<noteq> Panic" using eq by (simp add: not_le)
  have m: "unat m \<le> 32 * ?w" by (simp add: words_of_def)
  from assms(2) have cur: "32 dvd cur" "unat (current_mem_gas gm) = mem_cost spec (cur div 32)"
    by (simp_all add: mem_paid_def)
  show "32 dvd sz \<and> sz \<le> usize_MAX \<and> unat m \<le> sz \<and> unat t = mem_cost spec (max cur sz div 32)"
    if "mem_gas_cost gm spec cur m = Ok (d, t, sz)"
    using that eq le m cur
    by (auto simp: not_le max_def unat_of_nat_exact split: if_splits)
qed

lemma finish_request_narrow:
  fixes gm :: "64 word Gasometer"
  assumes "wf_spec spec" "mem_paid spec gm cur"
  shows "finish_request gm spec cur rq \<noteq> Panic"
    and "finish_request gm spec cur rq = Ok q \<Longrightarrow> req_sound spec cur rq q"
proof -
  note np = mem_gas_cost_narrow(1) [OF assms] and ok = mem_gas_cost_narrow(2) [OF assms]
  show "finish_request gm spec cur rq \<noteq> Panic"
    by (cases rq) (auto simp: outcome_simps np gas_provided_neq_Panic [OF assms(1)])
  have base: "unat (current_mem_gas gm) = mem_cost spec (cur div 32)" using assms(2) by (simp add: mem_paid_def)
  show "req_sound spec cur rq q" if "finish_request gm spec cur rq = Ok q"
    using that
    by (cases rq) (auto simp: outcome_simps req_sound_def overflowing_add_Ok unat_add_exact base dest!: ok)
qed

section \<open>The gasometer as the interpreter uses it\<close>

text \<open>C22.  With gas counted in 64 bits, the charge for memory is the difference of the quadratic
  costs after and before, nothing if the memory need not grow, and out of gas where a figure
  leaves the type; it never panics.\<close>

theorem memory_charge:
  fixes gm :: "64 word Gasometer"
  assumes "wf_spec spec" "mem_paid spec gm cur" and w: "w = words_of (unat m)"
  shows "mem_gas_cost gm spec cur m =
    (if 2 ^ 64 \<le> unat m + 31 \<or> (cur < 32 * w \<and> (2 ^ 64 \<le> w * w \<or> 2 ^ 64 \<le> mem_cost spec w))
     then Err OutOfGas
     else if cur < 32 * w
     then Ok (of_nat (mem_cost spec w - mem_cost spec (cur div 32)), of_nat (mem_cost spec w), 32 * w)
     else Ok (0, current_mem_gas gm, 32 * w))"
proof -
  have "32 * w \<le> unat m + 31" by (simp add: w words_of_def)
  then have "32 * w \<le> usize_MAX" if "\<not> 2 ^ 64 \<le> unat m + 31"
    using that by (simp add: usize_MAX_def)
  then show ?thesis using mem_gas_cost_eq [where 'c = 64, OF _ assms] by (auto simp: not_le)
qed

theorem memory_charge_witness:
  "mem_gas_cost \<lparr>current_gas = 100, current_mem_gas = 3 :: 64 word\<rparr> genesis_spec 32 33 = Ok (3, 6, 64)"
proof -
  have "mem_paid genesis_spec \<lparr>current_gas = 100, current_mem_gas = 3 :: 64 word\<rparr> 32"
    by (simp add: mem_paid_def mem_cost_def genesis_spec_def usize_MAX_def)
  from memory_charge [OF wf_genesis_spec this refl, of 33] show ?thesis
    by (simp add: words_of_def mem_cost_def genesis_spec_def)
qed

text \<open>C23.  With gas counted in 256 bits the same charge panics: a memory of \<open>2 ^ 64\<close> bytes is
  priced, and its size converted to \<open>usize\<close>, before the price is compared with the gas, so that
  the conversion fails whatever gas the frame has.\<close>

theorem wide_memory_charge_panics:
  "mem_gas_cost \<lparr>current_gas = g, current_mem_gas = 0\<rparr> (new_spec_from_common_params p n) 0
     (2 ^ 64 :: U256) = Panic"
proof -
  let ?s = "new_spec_from_common_params p n"
  have paid: "mem_paid ?s \<lparr>current_gas = g, current_mem_gas = 0 :: U256\<rparr> 0"
    by (simp add: mem_paid_def mem_cost_def)
  have u: "unat (2 ^ 64 :: U256) = 2 ^ 64" 
    using unat_of_nat_exact [of "2 ^ 64", where 'a = 256] by (simp only: of_nat_power of_nat_numeral) simp
  have w: "words_of (unat (2 ^ 64 :: U256)) = 2 ^ 59" by (simp only: u words_of_def) simp
  have c: "mem_cost ?s (2 ^ 59) = 3 * 2 ^ 59 + 2 ^ 109"
    by (simp add: mem_cost_def new_spec_from_common_params_def genesis_spec_def)
  from mem_gas_cost_eq [where 'c = 256, OF _ wf_new_spec paid w [symmetric]] show ?thesis
    unfolding u c by (simp add: usize_MAX_def)
qed

text \<open>C24.  A sub-frame gets what its caller asks for, or all of it if nothing is asked for, but
  never more than the remainder after the instruction is paid less one 64th of it, rounded down.
  (The documentation of \<open>sub_gas_cap_divisor\<close> in \<open>vm/spec.rs\<close> rounds the cap itself down, which is one
  less unless the remainder is a multiple of 64.)\<close>

theorem subframe_gas:
  fixes gm :: "'c::len word Gasometer"
  assumes "wf_spec spec" "needed \<le> current_gas gm"
    and r: "r = unat (current_gas gm) - unat needed"
  shows "\<exists>p. gas_provided gm spec needed req = Ok p \<and>
    unat p = (case req of None \<Rightarrow> r - r div 64 | Some v \<Rightarrow> min (unat v) (r - r div 64))"
proof -
  let ?r = "current_gas gm - needed"
  have u: "unat ?r = r" using assms by (simp add: unat_sub_exact)
  have "drop_bit 6 ?r \<le> ?r" by (simp add: word_le_nat_alt unat_drop_bit del: drop_bit_eq_div)
  then have cap: "unat (?r - drop_bit 6 ?r) = r - r div 64"
    using u by (simp add: unat_sub_exact unat_drop_bit del: drop_bit_eq_div)
  have lt: "r - r div 64 < 2 ^ LENGTH('c)" using unat_lt_exp [of ?r] u by linarith
  have v: "unat (ucast v :: 'c word) = unat v" if "unat v < 2 ^ LENGTH('c)" for v :: U256
    using that by (simp add: unat_ucast_mod)
  show ?thesis unfolding gas_provided_capped [OF assms(1,2) refl] Let_def
    using cap lt v by (auto simp: min_def word_le_nat_alt split: option.split)
qed

theorem subframe_gas_witness:
  "\<exists>p. gas_provided \<lparr>current_gas = 1000 :: 64 word, current_mem_gas = 0\<rparr> genesis_spec 360 (Some 5000) = Ok p \<and>
       unat p = 630"
  using subframe_gas [OF wf_genesis_spec, of 360 "\<lparr>current_gas = 1000 :: 64 word, current_mem_gas = 0\<rparr>" _ "Some 5000"]
  by simp

end
