(* ===== verification/Evm_Memory.thy ===== *)
theory Evm_Memory
  imports Evm_Types
begin

text \<open>
  The byte-addressed memory of a frame
  (\<open>src/cfx-evm/src/evm/interpreter/memory.rs\<close>).  The \<open>Memory\<close> trait is the
  locale \<open>memory\<close>, whose laws give every byte after an operation; the
  implementation is a vector of bytes, and a slice outside the vector panics.
\<close>

definition MAX_RETURN_WASTE_BYTES :: usize where
  "MAX_RETURN_WASTE_BYTES = 16384"

definition is_valid_range :: "usize \<Rightarrow> usize \<Rightarrow> bool" where
  "is_valid_range off sz \<longleftrightarrow> 0 < sz \<and> off + sz \<le> usize_MAX"

section \<open>The vector of bytes\<close>

definition mem_size :: "Bytes \<Rightarrow> usize" where
  "mem_size m = length m"

definition mem_read_slice :: "U256 \<Rightarrow> U256 \<Rightarrow> Bytes \<Rightarrow> ('e, Bytes) outcome" where
  "mem_read_slice init_off_u init_size_u m =
     (let off = low_u64 init_off_u; sz = low_u64 init_size_u in
      if \<not> is_valid_range off sz then Ok [] else slice m off (off + sz))"

definition mem_read :: "U256 \<Rightarrow> Bytes \<Rightarrow> ('e, U256) outcome" where
  "mem_read offset m =
     (let off = low_u64 offset in
      bind (usize_add off 32) (\<lambda>hi. bind (slice m off hi) (\<lambda>bs. Ok (from_be bs))))"

text \<open>\<open>writeable_slice\<close> returns a mutable view: the position and length the caller may write.\<close>

definition mem_writeable_slice :: "U256 \<Rightarrow> U256 \<Rightarrow> Bytes \<Rightarrow> ('e, usize \<times> usize) outcome" where
  "mem_writeable_slice offset sz m =
     (let off = low_u64 offset; s = low_u64 sz in
      if \<not> is_valid_range off s then Ok (0, 0)
      else bind (slice m off (off + s)) (\<lambda>_. Ok (off, s)))"

definition mem_write_slice :: "U256 \<Rightarrow> Bytes \<Rightarrow> Bytes \<Rightarrow> ('e, Bytes) outcome" where
  "mem_write_slice offset bs m =
     (if bs \<noteq> [] then
        let off = low_u64 offset in
        bind (usize_add off (length bs)) (\<lambda>hi.
        bind (slice m off hi) (\<lambda>_. Ok (overwrite m off bs)))
      else Ok m)"

definition mem_write :: "U256 \<Rightarrow> U256 \<Rightarrow> Bytes \<Rightarrow> ('e, Bytes) outcome" where
  "mem_write offset value m =
     (let off = low_u64 offset in
      bind (usize_add off 32) (\<lambda>hi.
      bind (slice m off hi) (\<lambda>_. Ok (overwrite m off (to_be 32 value)))))"

definition mem_write_byte :: "U256 \<Rightarrow> U256 \<Rightarrow> Bytes \<Rightarrow> ('e, Bytes) outcome" where
  "mem_write_byte offset value m =
     (let off = low_u64 offset; val = low_u64 value in
      if off < length m then Ok (m[off := of_nat val]) else Panic)"

definition mem_resize :: "usize \<Rightarrow> Bytes \<Rightarrow> Bytes" where
  "mem_resize new_size m = take new_size m @ replicate (new_size - length m) 0"

definition mem_expand :: "usize \<Rightarrow> Bytes \<Rightarrow> Bytes" where
  "mem_expand sz m = (if length m < sz then mem_resize sz m else m)"

definition into_return_data :: "U256 \<Rightarrow> U256 \<Rightarrow> Bytes \<Rightarrow> ('e, ReturnData) outcome" where
  "into_return_data off_u size_u m =
     (let offset = low_u64 off_u; sz = low_u64 size_u in
      if \<not> is_valid_range offset sz then Ok rd_empty
      else bind (usize_sub (length m) sz) (\<lambda>waste.
        if MAX_RETURN_WASTE_BYTES < waste then
          (if offset = 0 then Ok (rd_new (take sz m) 0 sz)
           else bind (slice m offset (offset + sz)) (\<lambda>m'. Ok (rd_new m' 0 sz)))
        else Ok (rd_new m offset sz)))"

section \<open>The memory interface\<close>

locale memory =
  fixes msize :: "'m \<Rightarrow> nat"
    and byte :: "'m \<Rightarrow> nat \<Rightarrow> u8"
    and read_slice :: "U256 \<Rightarrow> U256 \<Rightarrow> 'm \<Rightarrow> ('e, Bytes) outcome"
    and write_slice :: "U256 \<Rightarrow> Bytes \<Rightarrow> 'm \<Rightarrow> ('e, 'm) outcome"
    and expand :: "nat \<Rightarrow> 'm \<Rightarrow> 'm"
  assumes size_bound: "read_slice off sz m = Ok bs \<Longrightarrow> bs \<noteq> [] \<Longrightarrow> low_u64 off + length bs \<le> msize m"
    and read_law: "low_u64 off + low_u64 sz \<le> msize m \<Longrightarrow> msize m \<le> usize_MAX \<Longrightarrow>
      read_slice off sz m = Ok (map (byte m) [low_u64 off ..< low_u64 off + low_u64 sz])"
    and write_law: "low_u64 off + length bs \<le> msize m \<Longrightarrow> msize m \<le> usize_MAX \<Longrightarrow>
      \<exists>m'. write_slice off bs m = Ok m' \<and> msize m' = msize m \<and>
           (\<forall>i < msize m. byte m' i = (if low_u64 off \<le> i \<and> i < low_u64 off + length bs
                                      then bs ! (i - low_u64 off) else byte m i))"
    and expand_size: "msize (expand n m) = max n (msize m)"
    and expand_byte: "i < max n (msize m) \<Longrightarrow> byte (expand n m) i = (if i < msize m then byte m i else 0)"
begin

text \<open>A slice read where a slice was written is the slice written.\<close>

lemma read_after_write:
  assumes "low_u64 off + length bs \<le> msize m" "msize m \<le> usize_MAX" "low_u64 sz = length bs"
  shows "bind (write_slice off bs m) (read_slice off sz) = Ok bs"
proof -
  from write_law [OF assms(1,2)] obtain m' where m': "write_slice off bs m = Ok m'" "msize m' = msize m"
    "\<forall>i < msize m. byte m' i = (if low_u64 off \<le> i \<and> i < low_u64 off + length bs
                               then bs ! (i - low_u64 off) else byte m i)" by blast
  have "map (byte m') [low_u64 off ..< low_u64 off + length bs] = bs"
    by (rule nth_equalityI) (use m' assms in auto)
  then show ?thesis using m' assms read_law [of off sz m'] by simp
qed

text \<open>A write leaves every slice that does not meet its range as it was.\<close>

lemma read_disjoint_write:
  assumes "low_u64 off + length bs \<le> msize m" "msize m \<le> usize_MAX"
    and "low_u64 off' + low_u64 sz \<le> msize m"
    and "low_u64 off' + low_u64 sz \<le> low_u64 off \<or> low_u64 off + length bs \<le> low_u64 off'"
  shows "bind (write_slice off bs m) (read_slice off' sz) = read_slice off' sz m"
proof -
  from write_law [OF assms(1,2)] obtain m' where m': "write_slice off bs m = Ok m'" "msize m' = msize m"
    "\<forall>i < msize m. byte m' i = (if low_u64 off \<le> i \<and> i < low_u64 off + length bs
                               then bs ! (i - low_u64 off) else byte m i)" by blast
  have "map (byte m') [low_u64 off' ..< low_u64 off' + low_u64 sz] =
        map (byte m) [low_u64 off' ..< low_u64 off' + low_u64 sz]"
    using m' assms by auto
  then show ?thesis using m' assms read_law [of off' sz m'] read_law [of off' sz m] by simp
qed

text \<open>Growing the memory keeps what it held.\<close>

lemma read_expand:
  assumes "low_u64 off + low_u64 sz \<le> msize m" "max n (msize m) \<le> usize_MAX"
  shows "read_slice off sz (expand n m) = read_slice off sz m"
  using assms read_law [of off sz m] read_law [of off sz "expand n m"]
  by (simp add: expand_size) (auto simp: expand_byte)

end

section \<open>The vector of bytes implements the interface\<close>

lemma length_mem_expand [simp]: "length (mem_expand n m) = max n (length m)"
  by (simp add: mem_expand_def mem_resize_def max_def)

lemma mem_expand_nth:
  "i < max n (length m) \<Longrightarrow> mem_expand n m ! i = (if i < length m then m ! i else 0)"
  by (auto simp: mem_expand_def mem_resize_def nth_append)

lemma mem_write_slice_run:
  assumes "low_u64 off + length bs \<le> length m" "length m \<le> usize_MAX"
  shows "mem_write_slice off bs m = Ok (overwrite m (low_u64 off) bs)"
  using assms by (auto simp: mem_write_slice_def slice_def Let_def arith_defs overwrite_def)

lemma mem_read_slice_run:
  assumes "low_u64 off + low_u64 sz \<le> length m" "length m \<le> usize_MAX"
  shows "mem_read_slice off sz m = Ok (take (low_u64 sz) (drop (low_u64 off) m))"
  using assms by (auto simp: mem_read_slice_def is_valid_range_def slice_def Let_def)

lemma take_drop_map: "lo + n \<le> length xs \<Longrightarrow> take n (drop lo xs) = map ((!) xs) [lo ..< lo + n]"
  by (rule nth_equalityI) auto

interpretation vec_mem: memory mem_size nth mem_read_slice mem_write_slice mem_expand
proof
  fix off sz :: U256 and m bs :: Bytes
  assume "mem_read_slice off sz m = Ok bs" "bs \<noteq> []"
  then show "low_u64 off + length bs \<le> mem_size m"
    by (auto simp: mem_read_slice_def mem_size_def Let_def split: if_splits)
next
  fix off sz :: U256 and m :: Bytes
  assume "low_u64 off + low_u64 sz \<le> mem_size m" "mem_size m \<le> usize_MAX"
  then show "mem_read_slice off sz m = Ok (map ((!) m) [low_u64 off ..< low_u64 off + low_u64 sz])"
    by (simp add: mem_size_def mem_read_slice_run take_drop_map)
next
  fix off :: U256 and bs m :: Bytes
  assume "low_u64 off + length bs \<le> mem_size m" "mem_size m \<le> usize_MAX"
  then show "\<exists>m'. mem_write_slice off bs m = Ok m' \<and> mem_size m' = mem_size m \<and>
      (\<forall>i < mem_size m. m' ! i = (if low_u64 off \<le> i \<and> i < low_u64 off + length bs
                                  then bs ! (i - low_u64 off) else m ! i))"
    by (simp add: mem_size_def mem_write_slice_run overwrite_nth)
qed (simp_all add: mem_size_def mem_expand_nth)

section \<open>Words in memory\<close>

lemma mem_write_run:
  assumes "low_u64 off + 32 \<le> length m" "length m \<le> usize_MAX"
  shows "mem_write off v m = Ok (overwrite m (low_u64 off) (to_be 32 v))"
  using assms by (simp add: mem_write_def slice_def Let_def arith_defs)

lemma mem_read_run:
  assumes "low_u64 off + 32 \<le> length m" "length m \<le> usize_MAX"
  shows "mem_read off m = Ok (from_be (take 32 (drop (low_u64 off) m)))"
  using assms by (simp add: mem_read_def slice_def Let_def arith_defs)

lemma mem_write_byte_run:
  assumes "low_u64 off < length m"
  shows "mem_write_byte off v m = Ok (m[low_u64 off := ucast v])"
proof -
  have "(of_nat (low_u64 v) :: u8) = ucast v"
    by (rule word_eq_unatI)
       (simp add: low_u64_def unsigned_ucast_eq unat_of_nat take_bit_eq_mod mod_mod_cancel)
  with assms show ?thesis by (simp add: mem_write_byte_def)
qed

lemma into_return_data_deref:
  assumes "low_u64 off + low_u64 sz \<le> length m" "length m \<le> usize_MAX"
  shows "bind (into_return_data off sz m) rd_deref = mem_read_slice off sz m"
  using assms
  by (auto simp: into_return_data_def mem_read_slice_def rd_deref_def rd_new_def rd_empty_def
      is_valid_range_def slice_def arith_defs Let_def min_def)

lemma into_return_data_no_panic:
  assumes "low_u64 off + low_u64 sz \<le> length m"
  shows "\<exists>rd. into_return_data off sz m = Ok rd \<and> rd_offset rd + rd_size rd \<le> length (rd_mem rd)"
  using assms
  by (auto simp: into_return_data_def rd_new_def rd_empty_def slice_def arith_defs Let_def)

section \<open>The memory as the interpreter uses it\<close>

text \<open>C14.  A slice written is read back, a slice that does not meet the range written is
  unchanged, and the memory grows to the size asked for, never shrinks, keeps every slice and
  is filled with zeros.\<close>

theorem memory_operations:
  assumes "low_u64 off + length bs \<le> length m" "length m \<le> usize_MAX"
    and "low_u64 off' + low_u64 sz \<le> length m" "k \<le> usize_MAX"
    and "low_u64 sz' = length bs"
  shows "bind (mem_write_slice off bs m) (mem_read_slice off sz') = (Ok bs :: Bytes vm_result) \<and>
    (low_u64 off' + low_u64 sz \<le> low_u64 off \<or> low_u64 off + length bs \<le> low_u64 off' \<longrightarrow>
       bind (mem_write_slice off bs m) (mem_read_slice off' sz) = (mem_read_slice off' sz m :: Bytes vm_result)) \<and>
    mem_read_slice off' sz (mem_expand k m) = (mem_read_slice off' sz m :: Bytes vm_result) \<and>
    length (mem_expand k m) = max k (length m) \<and> (\<forall>i. length m \<le> i \<and> i < k \<longrightarrow> mem_expand k m ! i = 0)"
  using assms vec_mem.read_after_write [where 'a = Error, of off bs m sz']
    vec_mem.read_disjoint_write [where 'a = Error, of off bs m off' sz]
    vec_mem.read_expand [where 'a = Error, of off' sz m k] by (auto simp: mem_size_def mem_expand_nth)

theorem memory_operations_witness:
  "bind (mem_write_slice 1 [7, 8] [0, 0, 0, 9]) (mem_read_slice 3 1) = (Ok [9] :: Bytes vm_result)"
  using memory_operations [of 1 "[7, 8]" "[0, 0, 0, 9]" 3 1 0 2]
  by (simp add: low_u64_def usize_MAX_def mem_read_slice_run)

text \<open>C15.  The return data made from the memory, whether it keeps the whole vector, cuts it or
  copies the range, dereferences to the range of memory asked for.\<close>

theorem return_data_slice:
  assumes "low_u64 off + low_u64 sz \<le> length m" "length m \<le> usize_MAX"
  shows "bind (into_return_data off sz m) rd_deref =
    (Ok (take (low_u64 sz) (drop (low_u64 off) m)) :: Bytes vm_result)"
  using into_return_data_deref [OF assms, where 'a = Error] mem_read_slice_run [OF assms, where 'a = Error] by simp

theorem return_data_slice_witness:
  "bind (into_return_data 1 2 [4, 5, 6]) rd_deref = (Ok [5, 6] :: Bytes vm_result)"
  using return_data_slice [of 1 2 "[4, 5, 6]"]
  by (simp add: low_u64_def usize_MAX_def)

end
