(* ===== verification/Evm_Arith.thy ===== *)
theory Evm_Arith
  imports Evm_Types "HOL-Library.Signed_Division"
begin

text \<open>
  What the arithmetic, comparison and bit instructions push
  (\<open>src/cfx-evm/src/evm/interpreter/mod.rs\<close>, the arms of \<open>exec_instruction\<close>
  from \<open>ADD\<close> to \<open>SAR\<close>), as functions of the values popped, first argument
  the top of the stack.  The lemmas give each its mathematical meaning on the
  unsigned or the two's-complement value of its operands.
\<close>

section \<open>Signs\<close>

definition ONE :: U256 where "ONE = 0x1"
definition TWO :: U256 where "TWO = 0x2"
definition TWO_POW_5 :: U256 where "TWO_POW_5 = 0x20"
definition TWO_POW_8 :: U256 where "TWO_POW_8 = 0x100"
definition TWO_POW_16 :: U256 where "TWO_POW_16 = 0x10000"
definition TWO_POW_24 :: U256 where "TWO_POW_24 = 0x1000000"
definition TWO_POW_64 :: U256 where "TWO_POW_64 = push_bit 64 0x1"
definition TWO_POW_96 :: U256 where "TWO_POW_96 = push_bit 64 0x100000000"
definition TWO_POW_224 :: U256 where "TWO_POW_224 = push_bit 192 0x100000000"
definition TWO_POW_248 :: U256 where "TWO_POW_248 = push_bit 192 0x100000000000000"

definition bool_to_u256 :: "bool \<Rightarrow> U256" where
  "bool_to_u256 val = (if val then 1 else 0)"

definition set_sign :: "U256 \<Rightarrow> bool \<Rightarrow> U256" where
  "set_sign value sign = (if sign then fst (overflowing_add (NOT 0 XOR value) 1) else value)"

definition get_and_reset_sign :: "U256 \<Rightarrow> U256 \<times> bool" where
  "get_and_reset_sign value = (let sign = bit value 255 in (set_sign value sign, sign))"

definition address_to_u256 :: "Address \<Rightarrow> U256" where
  "address_to_u256 a = ucast a"

section \<open>Instructions\<close>

definition evm_add :: "U256 \<Rightarrow> U256 \<Rightarrow> U256" where
  "evm_add a b = fst (overflowing_add a b)"

definition evm_mul :: "U256 \<Rightarrow> U256 \<Rightarrow> U256" where
  "evm_mul a b = fst (overflowing_mul a b)"

definition evm_sub :: "U256 \<Rightarrow> U256 \<Rightarrow> U256" where
  "evm_sub a b = fst (overflowing_sub a b)"

definition evm_div :: "U256 \<Rightarrow> U256 \<Rightarrow> U256" where
  "evm_div a b =
     (if b \<noteq> 0 then
        if b = ONE then a
        else if b = TWO then drop_bit 1 a
        else if b = TWO_POW_5 then drop_bit 5 a
        else if b = TWO_POW_8 then drop_bit 8 a
        else if b = TWO_POW_16 then drop_bit 16 a
        else if b = TWO_POW_24 then drop_bit 24 a
        else if b = TWO_POW_64 then drop_bit 64 a
        else if b = TWO_POW_96 then drop_bit 96 a
        else if b = TWO_POW_224 then drop_bit 224 a
        else if b = TWO_POW_248 then drop_bit 248 a
        else a div b
      else 0)"

definition evm_mod :: "U256 \<Rightarrow> U256 \<Rightarrow> U256" where
  "evm_mod a b = (if b \<noteq> 0 then a mod b else 0)"

definition evm_sdiv :: "U256 \<Rightarrow> U256 \<Rightarrow> U256" where
  "evm_sdiv x y =
     (let (a, sign_a) = get_and_reset_sign x;
          (b, sign_b) = get_and_reset_sign y;
          min = push_bit 255 1 - 1
      in if b = 0 then 0
         else if a = min \<and> b = NOT 0 then min
         else set_sign (a div b) (sign_a \<noteq> sign_b))"

definition evm_smod :: "U256 \<Rightarrow> U256 \<Rightarrow> U256" where
  "evm_smod ua ub =
     (let (a, sign_a) = get_and_reset_sign ua;
          b = fst (get_and_reset_sign ub)
      in if b \<noteq> 0 then set_sign (a mod b) sign_a else 0)"

text \<open>\<open>overflowing_pow(..).0\<close> is the power modulo \<open>2 ^ 256\<close>.\<close>

definition evm_exp :: "U256 \<Rightarrow> U256 \<Rightarrow> U256" where
  "evm_exp base expon = base ^ unat expon"

definition evm_slt :: "U256 \<Rightarrow> U256 \<Rightarrow> U256" where
  "evm_slt x y =
     (let (a, neg_a) = get_and_reset_sign x;
          (b, neg_b) = get_and_reset_sign y;
          is_positive_lt = a < b \<and> \<not> (neg_a \<or> neg_b);
          is_negative_lt = a > b \<and> (neg_a \<and> neg_b);
          has_different_signs = neg_a \<and> \<not> neg_b
      in bool_to_u256 (is_positive_lt \<or> is_negative_lt \<or> has_different_signs))"

definition evm_sgt :: "U256 \<Rightarrow> U256 \<Rightarrow> U256" where
  "evm_sgt x y =
     (let (a, neg_a) = get_and_reset_sign x;
          (b, neg_b) = get_and_reset_sign y;
          is_positive_gt = a > b \<and> \<not> (neg_a \<or> neg_b);
          is_negative_gt = a < b \<and> (neg_a \<and> neg_b);
          has_different_signs = \<not> neg_a \<and> neg_b
      in bool_to_u256 (is_positive_gt \<or> is_negative_gt \<or> has_different_signs))"

definition evm_byte :: "U256 \<Rightarrow> U256 \<Rightarrow> U256" where
  "evm_byte word val =
     (if word < 32 then drop_bit (8 * (31 - low_u64 word)) val AND 0xFF else 0)"

definition evm_addmod :: "U256 \<Rightarrow> U256 \<Rightarrow> U256 \<Rightarrow> ('e, U256) outcome" where
  "evm_addmod a b c =
     (if c \<noteq> 0 then
        let res = fst (overflowing_add (ucast a :: U512) (ucast b));
            x = res mod ucast c
        in if unat x < 2 ^ 256 then Ok (ucast x) else Panic
      else Ok 0)"

definition evm_mulmod :: "U256 \<Rightarrow> U256 \<Rightarrow> U256 \<Rightarrow> ('e, U256) outcome" where
  "evm_mulmod a b c =
     (if c \<noteq> 0 then
        let res = fst (overflowing_mul (ucast a :: U512) (ucast b));
            x = res mod ucast c
        in if unat x < 2 ^ 256 then Ok (ucast x) else Panic
      else Ok 0)"

text \<open>The arm of \<open>SIGNEXTEND\<close> for a byte position below 32; for a larger one it leaves the number.\<close>

text \<open>Where the position is out of range, the number stays on the stack.\<close>

definition evm_signextend :: "U256 \<Rightarrow> U256 \<Rightarrow> U256" where
  "evm_signextend pos number =
     (if pos < 32 then
        (let bit_position = low_u64 pos * 8 + 7;
             mask = push_bit bit_position 1 - 1
         in if bit number bit_position then number OR NOT mask else number AND mask)
      else number)"

definition evm_shl :: "U256 \<Rightarrow> U256 \<Rightarrow> U256" where
  "evm_shl shift value = (if 256 \<le> shift then 0 else push_bit (unat shift) value)"

definition evm_shr :: "U256 \<Rightarrow> U256 \<Rightarrow> U256" where
  "evm_shr shift value = (if 256 \<le> shift then 0 else drop_bit (unat shift) value)"

definition evm_sar :: "U256 \<Rightarrow> U256 \<Rightarrow> U256" where
  "evm_sar shift value =
     (let sign = value AND push_bit 192 0x8000000000000000 \<noteq> 0
      in if 256 \<le> shift then (if sign then - 1 else 0)
         else let n = unat shift;
                  shifted = drop_bit n value
              in if sign then shifted OR push_bit (256 - n) (- 1) else shifted)"

section \<open>Signed values\<close>

lemma uint_bound: "0 \<le> uint (w :: U256)" "uint w < 2 ^ 256"
  using unsigned_less [of w] by simp_all

lemma sint_eq: "sint (w :: U256) = (if bit w 255 then uint w - 2 ^ 256 else uint w)"
proof -
  have "sint w = signed_take_bit 255 (uint w)" by (simp add: sint_uint)
  also have "\<dots> = take_bit 256 (uint w) - (if bit (uint w) 255 then 2 ^ 256 else 0)"
    by (simp add: signed_take_bit_eq_take_bit_minus)
  also have "take_bit 256 (uint w) = uint w"
    using uint_bound [of w] by (intro take_bit_int_eq_self) simp_all
  finally show ?thesis by (simp add: bit_uint_iff)
qed

lemma odd_div_iff:
  fixes u N :: int
  assumes "0 \<le> u" "u < 2 * N"
  shows "odd (u div N) \<longleftrightarrow> N \<le> u"
proof (cases "N \<le> u")
  case True
  then have "u div N = (u - N) div N + 1" using assms by (simp add: div_pos_geq)
  also have "(u - N) div N = 0" using assms True by (intro div_pos_pos_trivial) simp_all
  finally show ?thesis using True by simp
next
  case False
  then show ?thesis using assms by (simp add: div_pos_pos_trivial)
qed

lemma bit_255_iff: "bit (w :: U256) 255 \<longleftrightarrow> 2 ^ 255 \<le> uint w"
proof -
  have "bit w 255 \<longleftrightarrow> bit (uint w) 255" by (simp add: bit_uint_iff)
  also have "\<dots> \<longleftrightarrow> odd (uint w div 2 ^ 255)" by (rule bit_iff_odd)
  also have "\<dots> \<longleftrightarrow> 2 ^ 255 \<le> uint w"
    using uint_bound [of w] by (intro odd_div_iff) simp_all
  finally show ?thesis .
qed

lemma sint_cases:
  "sint (w :: U256) = (if 2 ^ 255 \<le> uint w then uint w - 2 ^ 256 else uint w)"
  by (simp only: sint_eq bit_255_iff)

lemma sint_bound: "- (2 ^ 255) \<le> sint (w :: U256)" "sint w < 2 ^ 255"
proof -
  note u = uint_bound [of w]
  have "- (2 ^ 255) \<le> sint w \<and> sint w < 2 ^ 255"
  proof (cases "2 ^ 255 \<le> uint w")
    case True
    then have "sint w = uint w - 2 ^ 256" by (simp only: sint_cases if_True)
    then show ?thesis using u True by simp
  next
    case False
    then have "sint w = uint w" by (simp only: sint_cases if_False)
    then show ?thesis using u False by linarith
  qed
  then show "- (2 ^ 255) \<le> sint w" "sint w < 2 ^ 255" by blast+
qed

lemma uint_uminus:
  fixes w :: "'a::len word"
  assumes "w \<noteq> 0"
  shows "uint (- w) = 2 ^ LENGTH('a) - uint w"
proof -
  have "uint w mod 2 ^ LENGTH('a) = uint w" by (simp add: mod_pos_pos_trivial)
  with assms show ?thesis by (simp add: uint_word_ariths zmod_zminus1_eq_if unsigned_eq_0_iff)
qed

lemma set_sign_eq: "set_sign v s = (if s then - v else v)"
  by (simp add: set_sign_def overflowing_add_def not_eq_complement)

text \<open>Resetting the sign yields the absolute value and whether the number is negative.\<close>

lemma reset_sign:
  assumes "get_and_reset_sign x = (a, s)"
  shows "s = (sint x < 0)" "uint a = \<bar>sint x\<bar>"
proof -
  from assms have s: "s = bit x 255" and a: "a = set_sign x s"
    by (auto simp: get_and_reset_sign_def Let_def)
  note u = uint_bound [of x]
  have "s = (sint x < 0) \<and> uint a = \<bar>sint x\<bar>"
  proof (cases s)
    case True
    then have big: "2 ^ 255 \<le> uint x" by (simp only: s bit_255_iff)
    then have "sint x = uint x - 2 ^ 256" by (simp only: sint_cases if_True)
    moreover from big have "x \<noteq> 0" by auto
    then have "uint a = 2 ^ 256 - uint x" using True by (simp add: a set_sign_eq uint_uminus)
    ultimately show ?thesis using True u by simp
  next
    case False
    then have "sint x = uint x" using s by (simp only: sint_eq if_False)
    with False u show ?thesis by (simp add: a set_sign_eq)
  qed
  then show "s = (sint x < 0)" "uint a = \<bar>sint x\<bar>" by blast+
qed

lemma abs_eq_0:
  assumes "get_and_reset_sign y = (b, t)"
  shows "b = 0 \<longleftrightarrow> sint y = 0"
proof -
  have "b = 0 \<longleftrightarrow> uint b = 0" by (simp add: unsigned_eq_0_iff)
  also have "\<dots> \<longleftrightarrow> sint y = 0" by (simp only: reset_sign(2) [OF assms] abs_eq_0_iff)
  finally show ?thesis .
qed

lemma abs_neq_max:
  assumes "get_and_reset_sign y = (b, t)"
  shows "b \<noteq> NOT 0"
proof
  assume "b = NOT 0"
  then have "uint b = 2 ^ 256 - 1" by (simp add: unsigned_minus_1_eq_mask mask_eq_exp_minus_1)
  then show False using sint_bound [of y] by (simp add: reset_sign(2) [OF assms] abs_if split: if_splits)
qed

lemma word_eq_of_uint: "uint (w :: 'a::len word) = k \<Longrightarrow> w = word_of_int k"
  using word_of_int_uint [of w] by simp

lemma evm_sdiv_eq: "evm_sdiv x y = word_of_int (sint x sdiv sint y)"
proof -
  obtain a s where a: "get_and_reset_sign x = (a, s)" by fastforce
  obtain b t where b: "get_and_reset_sign y = (b, t)" by fastforce
  note ra = reset_sign [OF a] and rb = reset_sign [OF b]
  have "uint (a div b) = \<bar>sint x\<bar> div \<bar>sint y\<bar>"
    by (simp only: uint_div_distrib ra rb)
  then have q: "a div b = word_of_int (\<bar>sint x\<bar> div \<bar>sint y\<bar>)" by (rule word_eq_of_uint)
  have "evm_sdiv x y = (if sint y = 0 then 0 else set_sign (a div b) (s \<noteq> t))"
    by (simp only: evm_sdiv_def a b Let_def case_prod_conv abs_neq_max [OF b] abs_eq_0 [OF b]
        simp_thms if_False)
  also have "\<dots> = word_of_int (sint x sdiv sint y)"
    by (simp only: q set_sign_eq ra(1) rb(1) signed_divide_int_def sgn_if) simp
  finally show ?thesis .
qed

lemma evm_smod_eq: "evm_smod x y = (if y = 0 then 0 else word_of_int (sint x smod sint y))"
proof -
  obtain a s where a: "get_and_reset_sign x = (a, s)" by fastforce
  obtain b t where b: "get_and_reset_sign y = (b, t)" by fastforce
  note ra = reset_sign [OF a] and rb = reset_sign [OF b]
  have "uint (a mod b) = \<bar>sint x\<bar> mod \<bar>sint y\<bar>"
    by (simp only: uint_mod_distrib ra rb)
  then have q: "a mod b = word_of_int (\<bar>sint x\<bar> mod \<bar>sint y\<bar>)" by (rule word_eq_of_uint)
  have "evm_smod x y = (if sint y = 0 then 0 else set_sign (a mod b) s)"
    by (simp add: evm_smod_def a b abs_eq_0 [OF b])
  also have "\<dots> = (if y = 0 then 0 else word_of_int (sint x smod sint y))"
    by (simp add: q set_sign_eq ra(1) smod_int_alt_def sgn_if signed_eq_0_iff)
  finally show ?thesis .
qed

lemma evm_slt_eq: "evm_slt x y = bool_to_u256 (sint x < sint y)"
proof -
  obtain a s where a: "get_and_reset_sign x = (a, s)" by fastforce
  obtain b t where b: "get_and_reset_sign y = (b, t)" by fastforce
  note ra = reset_sign [OF a] and rb = reset_sign [OF b]
  have "evm_slt x y = bool_to_u256 (uint a < uint b \<and> \<not> (s \<or> t) \<or> uint a > uint b \<and> s \<and> t \<or> s \<and> \<not> t)"
    by (simp add: evm_slt_def a b word_less_def)
  also have "\<dots> = bool_to_u256 (sint x < sint y)"
    unfolding ra rb by (rule arg_cong [of _ _ bool_to_u256], cases "sint x < 0"; cases "sint y < 0"; simp)
  finally show ?thesis .
qed

lemma evm_sgt_eq: "evm_sgt x y = bool_to_u256 (sint x > sint y)"
proof -
  obtain a s where a: "get_and_reset_sign x = (a, s)" by fastforce
  obtain b t where b: "get_and_reset_sign y = (b, t)" by fastforce
  note ra = reset_sign [OF a] and rb = reset_sign [OF b]
  have "evm_sgt x y = bool_to_u256 (uint a > uint b \<and> \<not> (s \<or> t) \<or> uint a < uint b \<and> s \<and> t \<or> \<not> s \<and> t)"
    by (simp add: evm_sgt_def a b word_less_def)
  also have "\<dots> = bool_to_u256 (sint x > sint y)"
    unfolding ra rb by (rule arg_cong [of _ _ bool_to_u256], cases "sint x < 0"; cases "sint y < 0"; simp)
  finally show ?thesis .
qed

section \<open>Unsigned arithmetic\<close>

lemma evm_add_eq: "evm_add a b = a + b"
  by (simp add: evm_add_def overflowing_add_def)

lemma evm_mul_eq: "evm_mul a b = a * b"
  by (simp add: evm_mul_def overflowing_mul_def)

lemma evm_sub_eq: "evm_sub a b = a - b"
  by (simp add: evm_sub_def overflowing_sub_def)

lemma drop_bit_div: "unat b = 2 ^ n \<Longrightarrow> drop_bit n a = a div (b :: 'a::len word)"
  by (rule word_eq_unatI) (simp add: unat_drop_bit unat_div_distrib)

lemma powers_of_two:
  "unat TWO = 2 ^ 1" "unat TWO_POW_5 = 2 ^ 5" "unat TWO_POW_8 = 2 ^ 8" "unat TWO_POW_16 = 2 ^ 16"
  "unat TWO_POW_24 = 2 ^ 24" "unat TWO_POW_64 = 2 ^ 64" "unat TWO_POW_96 = 2 ^ 96"
  "unat TWO_POW_224 = 2 ^ 224" "unat TWO_POW_248 = 2 ^ 248"
  by (simp_all add: TWO_def TWO_POW_5_def TWO_POW_8_def TWO_POW_16_def
      TWO_POW_24_def TWO_POW_64_def TWO_POW_96_def TWO_POW_224_def TWO_POW_248_def)

lemma div_shortcut:
  "unat c = 2 ^ n \<Longrightarrow> r = a div b \<Longrightarrow> (if b = c then drop_bit n a else r) = a div (b :: U256)"
  by (simp add: drop_bit_div del: drop_bit_eq_div)

lemma evm_div_eq: "evm_div a b = a div b"
proof (cases "b = 0")
  case True
  then show ?thesis by (simp only: evm_div_def simp_thms if_False if_True word_div_def) simp
next
  case False
  have one: "r = a div b \<Longrightarrow> (if b = ONE then a else r) = a div b" for r
    by (simp add: ONE_def)
  show ?thesis
    unfolding evm_div_def if_P [OF False]
    by (rule one, (rule div_shortcut, rule powers_of_two)+, rule refl)
qed

lemma evm_mod_eq: "evm_mod a b = (if b = 0 then 0 else a mod b)"
  by (simp add: evm_mod_def)

lemma evm_addmod_eq:
  "evm_addmod a b c = Ok (if c = 0 then 0 else of_nat ((unat a + unat b) mod unat c))"
proof (cases "c = 0")
  case False
  then have c: "0 < unat c" by (simp add: unat_gt_0)
  have "unat a + unat b < 2 ^ 256 + 2 ^ 256"
    using unat_lt_exp [of a] unat_lt_exp [of b] by simp
  then have "unat (ucast a + ucast b :: U512) = unat a + unat b"
    by (simp add: unat_add_exact unat_ucast_wide)
  then have x: "unat ((ucast a + ucast b :: U512) mod ucast c) = (unat a + unat b) mod unat c"
    by (simp add: unat_mod_distrib unat_ucast_wide)
  moreover have "(unat a + unat b) mod unat c < 2 ^ 256"
    by (rule less_trans [OF mod_less_divisor [OF c]]) (use unat_lt_exp [of c] in simp)
  moreover have "ucast ((ucast a + ucast b :: U512) mod ucast c) = (of_nat ((unat a + unat b) mod unat c) :: U256)"
    by (rule word_eq_unatI) (simp only: unat_ucast_mod x unat_of_nat take_bit_eq_mod)
  ultimately show ?thesis using False by (simp add: evm_addmod_def overflowing_add_def Let_def)
qed (simp add: evm_addmod_def)

lemma evm_mulmod_eq:
  "evm_mulmod a b c = Ok (if c = 0 then 0 else of_nat ((unat a * unat b) mod unat c))"
proof (cases "c = 0")
  case False
  then have c: "0 < unat c" by (simp add: unat_gt_0)
  have "unat a * unat b < 2 ^ 256 * 2 ^ 256"
    by (intro mult_strict_mono) (use unat_lt_exp [of a] unat_lt_exp [of b] in simp_all)
  then have "unat (ucast a * ucast b :: U512) = unat a * unat b"
    by (simp add: unat_mul_exact unat_ucast_wide)
  then have x: "unat ((ucast a * ucast b :: U512) mod ucast c) = (unat a * unat b) mod unat c"
    by (simp add: unat_mod_distrib unat_ucast_wide)
  moreover have "(unat a * unat b) mod unat c < 2 ^ 256"
    by (rule less_trans [OF mod_less_divisor [OF c]]) (use unat_lt_exp [of c] in simp)
  moreover have "ucast ((ucast a * ucast b :: U512) mod ucast c) = (of_nat ((unat a * unat b) mod unat c) :: U256)"
    by (rule word_eq_unatI) (simp only: unat_ucast_mod x unat_of_nat take_bit_eq_mod)
  ultimately show ?thesis using False by (simp add: evm_mulmod_def overflowing_mul_def Let_def)
qed (simp add: evm_mulmod_def)

section \<open>Bits and shifts\<close>

lemma mask_word: "push_bit n 1 - 1 = (mask n :: 'a::len word)"
  by (simp add: mask_eq_exp_minus_1 push_bit_of_1)

lemma evm_signextend_eq:
  "evm_signextend pos number = (if unat pos < 32 then signed_take_bit (8 * unat pos + 7) number else number)"
proof (cases "unat pos < 32")
  case True
  then have n: "low_u64 pos * 8 + 7 = 8 * unat pos + 7" and "pos < 32"
    by (simp_all add: low_u64_small word_less_nat_alt)
  moreover have "(if bit number (8 * unat pos + 7) then number OR NOT (push_bit (8 * unat pos + 7) 1 - 1)
      else number AND (push_bit (8 * unat pos + 7) 1 - 1)) = signed_take_bit (8 * unat pos + 7) number"
    unfolding mask_word by (rule bit_eqI) (auto simp: bit_simps min_def split: if_splits)
  ultimately show ?thesis using True unfolding evm_signextend_def Let_def n by (simp only: if_True)
qed (simp add: evm_signextend_def word_less_nat_alt)

lemma sar_sign: "(v AND push_bit 192 0x8000000000000000 \<noteq> 0) = bit (v :: U256) 255"
proof -
  have "push_bit 192 0x8000000000000000 = (2 ^ 255 :: U256)" by simp
  then show ?thesis by (simp only: and_exp_eq_0_iff_not_bit not_not)
qed

lemma bit_sar: "bit (word_of_int (sint (v :: U256) div 2 ^ n) :: U256) k \<longleftrightarrow> k < 256 \<and> bit v (min (n + k) 255)"
  by (auto simp: bit_simps min.commute simp flip: drop_bit_eq_div)

lemma evm_sar_eq: "evm_sar shift v = word_of_int (sint v div 2 ^ unat shift)"
proof (rule bit_eqI)
  fix k
  have le: "256 \<le> shift \<longleftrightarrow> 256 \<le> unat shift" by (simp add: word_le_nat_alt)
  show "bit (evm_sar shift v) k = bit (word_of_int (sint v div 2 ^ unat shift) :: U256) k"
    unfolding bit_sar
    unfolding evm_sar_def sar_sign Let_def le
    by (auto simp: bit_simps min_def not_le not_less dest: bit_imp_le_length)
qed

lemma evm_byte_eq: "evm_byte i x = (if unat i < 32 then ucast (to_be 32 x ! unat i) else 0)"
proof (cases "unat i < 32")
  case True
  then have lt: "i < 32" and low: "low_u64 i = unat i" by (simp_all add: word_less_nat_alt low_u64_small)
  have "evm_byte i x = take_bit 8 (drop_bit (8 * (31 - unat i)) x)"
    by (simp add: evm_byte_def lt low take_bit_eq_mask mask_eq_exp_minus_1 del: drop_bit_eq_div)
  moreover have "unat (take_bit 8 (drop_bit (8 * (31 - unat i)) x)) = unat x div 256 ^ (31 - unat i) mod 256"
    by (simp add: unsigned_take_bit_eq unat_drop_bit take_bit_eq_mod [where 'a = nat] power_mult del: drop_bit_eq_div)
  moreover have "unat (ucast (to_be 32 x ! unat i) :: U256) = unat x div 256 ^ (31 - unat i) mod 256"
    using True by (simp add: to_be_def be_digits_nth unat_ucast_wide unat_of_nat take_bit_eq_mod)
  ultimately show ?thesis using True by (simp add: word_eq_unatI)
next
  case False
  then show ?thesis by (simp add: evm_byte_def word_less_nat_alt)
qed

lemma unat_evm_shr: "unat (evm_shr shift v) = unat v div 2 ^ unat shift"
proof (cases "256 \<le> unat shift")
  case True
  have "unat v < 2 ^ 256" using unat_lt_exp [of v] by simp
  also have "(2::nat) ^ 256 \<le> 2 ^ unat shift" by (rule power_increasing [OF True]) simp
  finally show ?thesis using True by (simp add: evm_shr_def word_le_nat_alt)
qed (simp add: evm_shr_def word_le_nat_alt unat_drop_bit del: drop_bit_eq_div)

lemma evm_shl_eq: "evm_shl shift v = v * 2 ^ unat shift"
proof (cases "256 \<le> unat shift")
  case True
  then have "(2 :: U256) ^ unat shift = 0" by simp
  then have "v * 2 ^ unat shift = 0" by (metis mult_zero_right)
  with True show ?thesis by (simp add: evm_shl_def word_le_nat_alt)
qed (simp add: evm_shl_def word_le_nat_alt push_bit_eq_mult)

section \<open>The arithmetic of the machine\<close>

text \<open>C10.  The signed operations, which the interpreter computes from a sign and an absolute
  value, are those of two's complement: truncated division and remainder, the orders, the
  arithmetic shift as the floor of a division, and sign extension, which leaves the number alone
  where the position of the sign is outside of the word.\<close>

theorem signed_arithmetic:
  "evm_sdiv x y = word_of_int (sint x sdiv sint y) \<and>
   evm_smod x y = (if y = 0 then 0 else word_of_int (sint x smod sint y)) \<and>
   evm_slt x y = bool_to_u256 (sint x < sint y) \<and>
   evm_sgt x y = bool_to_u256 (sint x > sint y) \<and>
   evm_sar x y = word_of_int (sint y div 2 ^ unat x) \<and>
   evm_signextend x y = (if unat x < 32 then signed_take_bit (8 * unat x + 7) y else y)"
  by (simp add: evm_sdiv_eq evm_smod_eq evm_slt_eq evm_sgt_eq evm_sar_eq evm_signextend_eq)

text \<open>C11.  Division by one of the ten powers of two goes through a shift, every other one
  through the division of the word type: both are the quotient, and zero for a zero divisor.
  The modular sum and product are computed in 512 bits and never panic.\<close>

theorem unsigned_arithmetic:
  "evm_div a b = a div b \<and>
   evm_mod a b = (if b = 0 then 0 else a mod b) \<and>
   evm_addmod a b c = Ok (if c = 0 then 0 else of_nat ((unat a + unat b) mod unat c)) \<and>
   evm_mulmod a b c = Ok (if c = 0 then 0 else of_nat ((unat a * unat b) mod unat c)) \<and>
   evm_shl s a = a * 2 ^ unat s \<and>
   unat (evm_shr s a) = unat a div 2 ^ unat s \<and>
   evm_byte b a = (if unat b < 32 then ucast (to_be 32 a ! unat b) else 0)"
  by (simp add: evm_div_eq evm_mod_eq evm_addmod_eq evm_mulmod_eq evm_shl_eq unat_evm_shr evm_byte_eq)

end
