(* ===== verification/Memory_Cache.thy ===== *)
theory Memory_Cache
  imports Prelude "HOL-Library.AList"
begin

text \<open>
  The cache bounded by the memory of its values
  (\<open>src/cfx-evm/utils/memory-cache/src/lib.rs\<close>).  It wraps \<open>LruCache\<close> of the
  crate \<open>lru_cache\<close>, which is bounded by the number of its entries: that
  container is the parameter \<open>L\<close>, and \<open>lru_cache\<close> states its documented
  behaviour.  The size of a value in memory is the parameter \<open>heap_size_of\<close>.

  The lemmas show that an insertion ends, keeps nothing but what was inserted,
  keeps the new entry where it fits, and bounds the recorded size; and by how
  much the recorded size differs from the size of the entries.
\<close>

section \<open>The container\<close>

record ('k, 'v, 'l) LruCache =
  lc_new :: "usize \<Rightarrow> 'l"
  lc_capacity :: "'l \<Rightarrow> usize"
  lc_set_capacity :: "usize \<Rightarrow> 'l \<Rightarrow> 'l"
  lc_len :: "'l \<Rightarrow> usize"
  lc_insert :: "'k \<Rightarrow> 'v \<Rightarrow> 'l \<Rightarrow> 'v option \<times> 'l"
  lc_remove_lru :: "'l \<Rightarrow> ('k \<times> 'v) option \<times> 'l"
  lc_get_mut :: "'k \<Rightarrow> 'l \<Rightarrow> 'v option \<times> 'l"

section \<open>The cache\<close>

record 'l MemoryLruCache =
  inner :: 'l
  cur_size :: usize
  max_size :: usize

definition INITIAL_CAPACITY :: usize where
  "INITIAL_CAPACITY = 4"

definition mlc_new :: "('k, 'v, 'l) LruCache \<Rightarrow> usize \<Rightarrow> 'l MemoryLruCache" where
  "mlc_new L limit = \<lparr>inner = lc_new L INITIAL_CAPACITY, cur_size = 0, max_size = limit\<rparr>"

text \<open>The loop that removes entries; \<open>None\<close> is a loop that does not end.\<close>

partial_function (option) evict ::
  "('k, 'v, 'l) LruCache \<Rightarrow> ('v \<Rightarrow> usize) \<Rightarrow> 'l MemoryLruCache \<Rightarrow>
     ((unit, unit) outcome \<times> 'l MemoryLruCache) option" where
  "evict L heap_size_of c =
     (if max_size c < cur_size c
      then (case lc_remove_lru L (inner c) of
          (Some (_, v), l) \<Rightarrow>
            (case usize_sub (cur_size c) (heap_size_of v) :: (unit, usize) outcome of
               Ok n \<Rightarrow> evict L heap_size_of (c\<lparr>inner := l, cur_size := n\<rparr>)
             | _ \<Rightarrow> Some (Panic, c\<lparr>inner := l\<rparr>))
        | (None, l) \<Rightarrow> Some (Ok (), c\<lparr>inner := l\<rparr>))
      else Some (Ok (), c))"

definition mlc_grow :: "('k, 'v, 'l) LruCache \<Rightarrow> ('l MemoryLruCache, unit, unit) op" where
  "mlc_grow L = (\<lambda>c.
     let cap = lc_capacity L (inner c) in
     if lc_len L (inner c) = cap \<and> cur_size c < max_size c
     then (case usize_mul cap 2 :: (unit, usize) outcome of
             Ok n \<Rightarrow> (Ok (), c\<lparr>inner := lc_set_capacity L n (inner c)\<rparr>)
           | _ \<Rightarrow> (Panic, c))
     else (Ok (), c))"

definition mlc_put :: "('k, 'v, 'l) LruCache \<Rightarrow> ('v \<Rightarrow> usize) \<Rightarrow> 'k \<Rightarrow> 'v \<Rightarrow> ('l MemoryLruCache, unit, unit) op" where
  "mlc_put L heap_size_of key val = (\<lambda>c.
     case usize_add (cur_size c) (heap_size_of val) :: (unit, usize) outcome of
       Ok n \<Rightarrow> (case lc_insert L key val (inner c) of
           (Some lru, l) \<Rightarrow> (case usize_sub n (heap_size_of lru) :: (unit, usize) outcome of
               Ok n' \<Rightarrow> (Ok (), c\<lparr>inner := l, cur_size := n'\<rparr>)
             | _ \<Rightarrow> (Panic, c\<lparr>inner := l, cur_size := n\<rparr>))
         | (None, l) \<Rightarrow> (Ok (), c\<lparr>inner := l, cur_size := n\<rparr>))
     | _ \<Rightarrow> (Panic, c))"

definition mlc_insert ::
  "('k, 'v, 'l) LruCache \<Rightarrow> ('v \<Rightarrow> usize) \<Rightarrow> 'k \<Rightarrow> 'v \<Rightarrow> 'l MemoryLruCache \<Rightarrow>
     ((unit, unit) outcome \<times> 'l MemoryLruCache) option" where
  "mlc_insert L heap_size_of key val c =
     (case andThen (mlc_grow L) (\<lambda>_. mlc_put L heap_size_of key val) c of
        (Ok _, c') \<Rightarrow> evict L heap_size_of c'
      | r \<Rightarrow> Some r)"

definition mlc_get_mut :: "('k, 'v, 'l) LruCache \<Rightarrow> 'k \<Rightarrow> 'l MemoryLruCache \<Rightarrow> 'v option \<times> 'l MemoryLruCache" where
  "mlc_get_mut L key c = (case lc_get_mut L key (inner c) of (v, l) \<Rightarrow> (v, c\<lparr>inner := l\<rparr>))"

definition current_size :: "'l MemoryLruCache \<Rightarrow> usize" where
  "current_size c = cur_size c"

section \<open>What the container promises\<close>

text \<open>
  The entries of the container, the least recently used one first: a lookup
  and an insertion make an entry the most recently used one, an insertion returns
  the old value of its key and drops the first entry where there are more
  than the capacity.  \<open>valid\<close> are the states of the container.
\<close>

definition touched :: "'k \<Rightarrow> 'v \<Rightarrow> ('k \<times> 'v) list \<Rightarrow> ('k \<times> 'v) list" where
  "touched k v es = AList.delete k es @ [(k, v)]"

definition lru_cache :: "('k, 'v, 'l) LruCache \<Rightarrow> ('l \<Rightarrow> bool) \<Rightarrow> ('l \<Rightarrow> ('k \<times> 'v) list) \<Rightarrow> bool" where
  "lru_cache L valid entries \<longleftrightarrow>
     (\<forall>n. valid (lc_new L n) \<and> entries (lc_new L n) = [] \<and> lc_capacity L (lc_new L n) = n) \<and>
     (\<forall>l. valid l \<longrightarrow>
        distinct (map fst (entries l)) \<and> length (entries l) \<le> lc_capacity L l \<and> lc_len L l = length (entries l) \<and>
        (\<forall>n. valid (lc_set_capacity L n l) \<and> lc_capacity L (lc_set_capacity L n l) = n \<and>
           entries (lc_set_capacity L n l) = drop (length (entries l) - n) (entries l)) \<and>
        (\<forall>k v. case lc_insert L k v l of (old, l') \<Rightarrow> old = map_of (entries l) k \<and> valid l' \<and>
           lc_capacity L l' = lc_capacity L l \<and>
           entries l' = drop (length (touched k v (entries l)) - lc_capacity L l) (touched k v (entries l))) \<and>
        (case lc_remove_lru L l of (r, l') \<Rightarrow> valid l' \<and> lc_capacity L l' = lc_capacity L l \<and>
           (case entries l of [] \<Rightarrow> r = None \<and> entries l' = [] | e # es \<Rightarrow> r = Some e \<and> entries l' = es)) \<and>
        (\<forall>k. case lc_get_mut L k l of (r, l') \<Rightarrow> r = map_of (entries l) k \<and> valid l' \<and>
           lc_capacity L l' = lc_capacity L l \<and>
           entries l' = (case r of None \<Rightarrow> entries l | Some v \<Rightarrow> touched k v (entries l))))"

text \<open>A container that behaves so, for concrete runs: the entries with the capacity.\<close>

definition list_lru :: "('k, 'v, ('k \<times> 'v) list \<times> usize) LruCache" where
  "list_lru = \<lparr>lc_new = (\<lambda>n. ([], n)), lc_capacity = snd, lc_set_capacity = (\<lambda>n (es, _). (drop (length es - n) es, n)),
     lc_len = length \<circ> fst,
     lc_insert = (\<lambda>k v (es, n). (map_of es k, drop (length (touched k v es) - n) (touched k v es), n)),
     lc_remove_lru = (\<lambda>(es, n). case es of [] \<Rightarrow> (None, es, n) | e # es' \<Rightarrow> (Some e, es', n)),
     lc_get_mut = (\<lambda>k (es, n). case map_of es k of None \<Rightarrow> (None, es, n) | Some v \<Rightarrow> (Some v, touched k v es, n))\<rparr>"

lemma distinct_touched: "distinct (map fst es) \<Longrightarrow> distinct (map fst (touched k v es))"
  by (simp add: touched_def distinct_delete delete_notin_dom)

lemma map_of_touched: "map_of (touched k v es) = (map_of es)(k \<mapsto> v)"
  by (auto simp: touched_def delete_conv' fun_eq_iff map_add_def split: option.split)

section \<open>Entries and their size\<close>

definition used :: "('v \<Rightarrow> usize) \<Rightarrow> ('k \<times> 'v) list \<Rightarrow> nat" where
  "used heap_size_of es = (\<Sum>(_, v) \<leftarrow> es. heap_size_of v)"

lemma used_simps [simp]:
  "used h [] = 0" "used h (e # es) = h (snd e) + used h es" "used h (es @ es') = used h es + used h es'"
  by (simp_all add: used_def split_beta)

lemma used_one: "used (\<lambda>_. Suc 0) es = length es"
  by (induction es) simp_all

lemma used_take_drop: "used h (take n es) + used h (drop n es) = used h es"
  by (metis append_take_drop_id used_simps(3))

lemma used_delete:
  "distinct (map fst es) \<Longrightarrow> used h (AList.delete k es) + (case map_of es k of None \<Rightarrow> 0 | Some v \<Rightarrow> h v) = used h es"
proof (induction es)
  case (Cons e es)
  show ?case
  proof (cases "fst e = k")
    case True
    with Cons.prems have "k \<notin> fst ` set es" by auto
    with True show ?thesis by (cases e) simp
  qed (use Cons in \<open>cases e; auto\<close>)
qed simp

lemma map_of_drop: "distinct (map fst es) \<Longrightarrow> map_of (drop n es) \<subseteq>\<^sub>m map_of es"
  unfolding map_le_def
proof
  fix k assume d: "distinct (map fst es)" and "k \<in> dom (map_of (drop n es))"
  then obtain v where v: "map_of (drop n es) k = Some v" by blast
  then have "(k, v) \<in> set es" using in_set_dropD map_of_SomeD by metis
  with v d show "map_of (drop n es) k = map_of es k" by simp
qed

lemma length_touched:
  "distinct (map fst es) \<Longrightarrow> length (touched k v es) = (if map_of es k = None then Suc (length es) else length es)"
  using used_delete [of es "\<lambda>_. Suc 0" k] by (auto simp: touched_def used_one split: option.splits)

lemma capacity_list_lru: "lc_capacity list_lru = snd"
  by (simp add: list_lru_def)

lemma lru_cache_list: "lru_cache list_lru (\<lambda>(es, n). distinct (map fst es) \<and> length es \<le> n) fst"
proof -
  have "distinct (map fst (drop n es))" if "distinct (map fst es)" for n and es :: "('a \<times> 'b) list"
    using that by (simp add: drop_map [symmetric])
  then show ?thesis
    by (auto simp: lru_cache_def list_lru_def distinct_touched length_touched split: list.split option.split)
qed

lemma lru_state:
  assumes "lru_cache L valid entries" "valid l"
  shows "distinct (map fst (entries l))" "length (entries l) \<le> lc_capacity L l" "lc_len L l = length (entries l)"
    "\<And>n. valid (lc_set_capacity L n l)" "\<And>n. lc_capacity L (lc_set_capacity L n l) = n"
    "\<And>n. entries (lc_set_capacity L n l) = drop (length (entries l) - n) (entries l)"
    and lru_insert: "\<And>k v. \<exists>l'. lc_insert L k v l = (map_of (entries l) k, l') \<and> valid l' \<and> lc_capacity L l' = lc_capacity L l \<and>
      entries l' = drop (length (touched k v (entries l)) - lc_capacity L l) (touched k v (entries l))"
    and lru_remove: "\<exists>l'. lc_remove_lru L l = (case entries l of [] \<Rightarrow> None | e # _ \<Rightarrow> Some e, l') \<and> valid l' \<and>
      lc_capacity L l' = lc_capacity L l \<and> entries l' = tl (entries l)"
    and lru_get: "\<And>k. \<exists>l'. lc_get_mut L k l = (map_of (entries l) k, l') \<and> valid l' \<and> lc_capacity L l' = lc_capacity L l \<and>
      entries l' = (case map_of (entries l) k of None \<Rightarrow> entries l | Some v \<Rightarrow> touched k v (entries l))"
proof -
  note laws = assms(1) [unfolded lru_cache_def, THEN conjunct2, THEN spec, THEN mp, OF assms(2)]
  show "distinct (map fst (entries l))" "length (entries l) \<le> lc_capacity L l" "lc_len L l = length (entries l)"
    using laws by simp_all
  fix n
  show "valid (lc_set_capacity L n l)" "lc_capacity L (lc_set_capacity L n l) = n"
    "entries (lc_set_capacity L n l) = drop (length (entries l) - n) (entries l)" using laws by simp_all
next
  note laws = assms(1) [unfolded lru_cache_def, THEN conjunct2, THEN spec, THEN mp, OF assms(2)]
  fix k v
  show "\<exists>l'. lc_insert L k v l = (map_of (entries l) k, l') \<and> valid l' \<and> lc_capacity L l' = lc_capacity L l \<and>
      entries l' = drop (length (touched k v (entries l)) - lc_capacity L l) (touched k v (entries l))"
    using conjunct1 [OF conjunct2 [OF conjunct2 [OF conjunct2 [OF conjunct2 [OF laws]]]], THEN spec, THEN spec, of k v]
    by (cases "lc_insert L k v l") simp
next
  note laws = assms(1) [unfolded lru_cache_def, THEN conjunct2, THEN spec, THEN mp, OF assms(2)]
  note rest = conjunct2 [OF conjunct2 [OF conjunct2 [OF conjunct2 [OF conjunct2 [OF laws]]]]]
  show "\<exists>l'. lc_remove_lru L l = (case entries l of [] \<Rightarrow> None | e # _ \<Rightarrow> Some e, l') \<and> valid l' \<and>
      lc_capacity L l' = lc_capacity L l \<and> entries l' = tl (entries l)"
    using conjunct1 [OF rest] by (cases "lc_remove_lru L l"; cases "entries l") simp_all
  fix k
  show "\<exists>l'. lc_get_mut L k l = (map_of (entries l) k, l') \<and> valid l' \<and> lc_capacity L l' = lc_capacity L l \<and>
      entries l' = (case map_of (entries l) k of None \<Rightarrow> entries l | Some v \<Rightarrow> touched k v (entries l))"
    using conjunct2 [OF rest, THEN spec, of k] by (cases "lc_get_mut L k l") simp
qed

section \<open>An insertion\<close>

text \<open>The loop removes entries from the least recently used one on, as few as it needs.\<close>

lemma evict_run:
  assumes L: "lru_cache L valid entries"
  shows "valid (inner c) \<Longrightarrow> used h (entries (inner c)) \<le> cur_size c \<Longrightarrow> \<exists>c' n. evict L h c = Some (Ok (), c') \<and>
    valid (inner c') \<and> lc_capacity L (inner c') = lc_capacity L (inner c) \<and> max_size c' = max_size c \<and>
    entries (inner c') = drop n (entries (inner c)) \<and> cur_size c' + used h (take n (entries (inner c))) = cur_size c \<and>
    (cur_size c' \<le> max_size c \<or> entries (inner c') = []) \<and> (\<forall>j < n. max_size c + used h (take j (entries (inner c))) < cur_size c)"
proof (induction "entries (inner c)" arbitrary: c)
  case Nil
  from lru_remove [OF L Nil.prems(1)] obtain l where "lc_remove_lru L (inner c) = (None, l)" "entries l = []" "valid l"
    "lc_capacity L l = lc_capacity L (inner c)" unfolding Nil.hyps [symmetric] by auto
  with Nil show ?case by (intro exI [of _ "if max_size c < cur_size c then c\<lparr>inner := l\<rparr> else c"] exI [of _ 0])
      (auto simp: evict.simps [of L h c])
next
  case (Cons e es)
  show ?case
  proof (cases "max_size c < cur_size c")
    case True
    obtain k v where e: "e = (k, v)" by fastforce
    from lru_remove [OF L Cons.prems(1)] obtain l where
      l: "lc_remove_lru L (inner c) = (Some e, l)" "entries l = es" "valid l" "lc_capacity L l = lc_capacity L (inner c)"
      unfolding Cons.hyps(2) [symmetric] by auto
    let ?c = "c\<lparr>inner := l, cur_size := cur_size c - h v\<rparr>"
    have le: "h v + used h es \<le> cur_size c" using Cons.prems(2) e unfolding Cons.hyps(2) [symmetric] by simp
    have step: "evict L h c = evict L h ?c" using True l(1) e le by (simp add: evict.simps [of L h c] usize_sub_def)
    have "\<exists>c' n. evict L h ?c = Some (Ok (), c') \<and> valid (inner c') \<and> lc_capacity L (inner c') = lc_capacity L (inner ?c) \<and>
        max_size c' = max_size ?c \<and> entries (inner c') = drop n (entries (inner ?c)) \<and>
        cur_size c' + used h (take n (entries (inner ?c))) = cur_size ?c \<and>
        (cur_size c' \<le> max_size ?c \<or> entries (inner c') = []) \<and> (\<forall>j < n. max_size ?c + used h (take j (entries (inner ?c))) < cur_size ?c)"
      using l(2,3) le by (intro Cons.hyps(1)) simp_all
    then obtain c' n where c': "evict L h ?c = Some (Ok (), c')" "valid (inner c')" "lc_capacity L (inner c') = lc_capacity L (inner c)"
        "max_size c' = max_size c" "entries (inner c') = drop n es" "cur_size c' + used h (take n es) = cur_size c - h v"
        "cur_size c' \<le> max_size c \<or> entries (inner c') = []" "\<forall>j < n. max_size c + used h (take j es) < cur_size c - h v"
      using l by auto
    have "\<forall>j < Suc n. max_size c + used h (take j (e # es)) < cur_size c"
      using c'(8) True le e by (auto simp: less_Suc_eq_0_disj)
    with step c' Cons.hyps(2) le e show ?thesis
      by (intro exI [of _ c'] exI [of _ "Suc n"]) (simp flip: Cons.hyps(2))
  next
    case False
    then show ?thesis using Cons.prems by (intro exI [of _ c] exI [of _ 0]) (simp add: evict.simps [of L h c])
  qed
qed

text \<open>
  Whether an insertion displaces an entry: the container is full, its capacity
  does not grow, and the key is new.
\<close>

definition displaces :: "('k, 'v, 'l) LruCache \<Rightarrow> ('l \<Rightarrow> ('k \<times> 'v) list) \<Rightarrow> 'k \<Rightarrow> 'l MemoryLruCache \<Rightarrow> bool" where
  "displaces L entries k c \<longleftrightarrow> map_of (entries (inner c)) k = None \<and>
     length (entries (inner c)) = lc_capacity L (inner c) \<and> max_size c \<le> cur_size c"

lemma grow_run:
  assumes L: "lru_cache L valid entries" "valid (inner c)" and cap: "lc_capacity L (inner c) * 2 \<le> usize_MAX"
  obtains l where "mlc_grow L c = (Ok (), c\<lparr>inner := l\<rparr>)" "valid l" "entries l = entries (inner c)"
    "lc_capacity L l = (if length (entries (inner c)) = lc_capacity L (inner c) \<and> cur_size c < max_size c
       then lc_capacity L (inner c) * 2 else lc_capacity L (inner c))"
proof (cases "length (entries (inner c)) = lc_capacity L (inner c) \<and> cur_size c < max_size c")
  case True
  then show thesis using that [of "lc_set_capacity L (lc_capacity L (inner c) * 2) (inner c)"] lru_state [OF L] cap
    by (simp add: mlc_grow_def Let_def usize_mul_def)
next
  case False
  then show thesis using that [of "inner c"] lru_state [OF L] L(2) by (auto simp: mlc_grow_def Let_def)
qed

lemma put_run:
  assumes L: "lru_cache L valid entries" "valid (inner c)"
    and size: "used h (entries (inner c)) \<le> cur_size c" "cur_size c + h v \<le> usize_MAX"
  obtains l n where "mlc_put L h k v c = (Ok (), c\<lparr>inner := l, cur_size := n\<rparr>)" "valid l" "lc_capacity L l = lc_capacity L (inner c)"
    "entries l = drop (length (touched k v (entries (inner c))) - lc_capacity L (inner c)) (touched k v (entries (inner c)))"
    "n + used h (entries (inner c)) = cur_size c + used h (touched k v (entries (inner c)))"
proof -
  let ?es = "entries (inner c)"
  let ?old = "case map_of ?es k of None \<Rightarrow> 0 | Some x \<Rightarrow> h x"
  obtain l where l: "lc_insert L k v (inner c) = (map_of ?es k, l)" "valid l" "lc_capacity L l = lc_capacity L (inner c)"
    "entries l = drop (length (touched k v ?es) - lc_capacity L (inner c)) (touched k v ?es)"
    using lru_insert [OF L, of k v] by blast
  have old: "used h (AList.delete k ?es) + ?old = used h ?es" by (rule used_delete [OF lru_state(1) [OF L]])
  then have "mlc_put L h k v c = (Ok (), c\<lparr>inner := l, cur_size := cur_size c + h v - ?old\<rparr>)"
    using l(1) size by (auto simp: mlc_put_def usize_add_def usize_sub_def split: option.split)
  moreover have "cur_size c + h v - ?old + used h ?es = cur_size c + used h (touched k v ?es)"
    using old size(1) by (simp add: touched_def)
  ultimately show thesis using that l by blast
qed

lemma insert_run:
  assumes L: "lru_cache L valid entries" "valid (inner c)"
    and size: "used h (entries (inner c)) \<le> cur_size c" "cur_size c + h v \<le> usize_MAX"
    and cap: "0 < lc_capacity L (inner c)" "lc_capacity L (inner c) * 2 \<le> usize_MAX"
    and d: "d = (if displaces L entries k c then 1 else 0)" and t: "t = touched k v (entries (inner c))"
  obtains c' n where "mlc_insert L h k v c = Some (Ok (), c')" "valid (inner c')" "max_size c' = max_size c"
    "lc_capacity L (inner c) \<le> lc_capacity L (inner c')" "entries (inner c') = drop (d + n) t"
    "cur_size c' + used h (entries (inner c)) + used h (take n (drop d t)) = cur_size c + used h t"
    "cur_size c' \<le> max_size c \<or> entries (inner c') = []"
    "\<And>j. j < n \<Longrightarrow> max_size c + used h (take j (drop d t)) + used h (entries (inner c)) < cur_size c + used h t"
proof -
  let ?es = "entries (inner c)" and ?cap = "lc_capacity L (inner c)"
  obtain l1 where l1: "mlc_grow L c = (Ok (), c\<lparr>inner := l1\<rparr>)" "valid l1" "entries l1 = ?es"
    "lc_capacity L l1 = (if length ?es = ?cap \<and> cur_size c < max_size c then ?cap * 2 else ?cap)"
    by (rule grow_run [OF L cap(2)])
  have v1: "valid (inner (c\<lparr>inner := l1\<rparr>))" "used h (entries (inner (c\<lparr>inner := l1\<rparr>))) \<le> cur_size (c\<lparr>inner := l1\<rparr>)"
    "cur_size (c\<lparr>inner := l1\<rparr>) + h v \<le> usize_MAX" using l1 size by simp_all
  obtain l2 m where l2: "mlc_put L h k v (c\<lparr>inner := l1\<rparr>) = (Ok (), c\<lparr>inner := l2, cur_size := m\<rparr>)" "valid l2"
    "lc_capacity L l2 = lc_capacity L l1" "entries l2 = drop (length t - lc_capacity L l1) t" "m + used h ?es = cur_size c + used h t"
    by (rule put_run [OF L(1) v1]) (auto simp: l1 t)
  have "length t = (if map_of ?es k = None then Suc (length ?es) else length ?es)"
    unfolding t by (rule length_touched [OF lru_state(1) [OF L]])
  then have drop: "length t - lc_capacity L l1 = d"
    using l1(4) cap(1) lru_state(2) [OF L] by (auto simp: d displaces_def)
  let ?c = "c\<lparr>inner := l2, cur_size := m\<rparr>"
  have "used h (drop d t) \<le> used h t" using used_take_drop [of h d t] by simp
  then have "used h (entries (inner ?c)) \<le> cur_size ?c" using l2(4,5) size(1) drop by simp
  then obtain c' n where c': "evict L h ?c = Some (Ok (), c')" "valid (inner c')" "lc_capacity L (inner c') = lc_capacity L l2"
      "max_size c' = max_size c" "entries (inner c') = drop n (drop d t)" "cur_size c' + used h (take n (drop d t)) = m"
      "cur_size c' \<le> max_size c \<or> entries (inner c') = []" "\<forall>j < n. max_size c + used h (take j (drop d t)) < m"
    using evict_run [OF L(1), of ?c h] l2(2,4) drop by auto
  have "mlc_insert L h k v c = Some (Ok (), c')" using l1(1) l2(1) c'(1) by (simp add: mlc_insert_def)
  moreover have "?cap \<le> lc_capacity L (inner c')" using c'(3) l2(3) l1(4) by simp
  moreover have "max_size c + used h (take j (drop d t)) + used h ?es < cur_size c + used h t" if "j < n" for j
    using that c'(8) l2(5) by fastforce
  moreover have "cur_size c' + used h ?es + used h (take n (drop d t)) = cur_size c + used h t" using c'(6) l2(5) by simp
  ultimately show thesis using that [of c' n] c'(2,4,5,7) by (simp add: add.commute)
qed

lemma insert_ends:
  assumes L: "lru_cache L valid entries" "valid (inner c)"
    and "used h (entries (inner c)) \<le> cur_size c" "cur_size c + h v \<le> usize_MAX"
    and "0 < lc_capacity L (inner c)" "lc_capacity L (inner c) * 2 \<le> usize_MAX"
  obtains c' where "mlc_insert L h k v c = Some (Ok (), c')" "valid (inner c')" "used h (entries (inner c')) \<le> cur_size c'"
    "0 < lc_capacity L (inner c')" "max_size c' = max_size c" "cur_size c' \<le> max_size c' \<or> entries (inner c') = []"
    "map_of (entries (inner c')) \<subseteq>\<^sub>m (map_of (entries (inner c)))(k \<mapsto> v)"
proof (rule insert_run [OF assms refl refl])
  let ?t = "touched k v (entries (inner c))" and ?d = "if displaces L entries k c then 1 else 0 :: nat"
  fix c' n
  assume c': "mlc_insert L h k v c = Some (Ok (), c')" "valid (inner c')" "max_size c' = max_size c"
    "lc_capacity L (inner c) \<le> lc_capacity L (inner c')" "entries (inner c') = drop (?d + n) ?t"
    "cur_size c' + used h (entries (inner c)) + used h (take n (drop ?d ?t)) = cur_size c + used h ?t"
    "cur_size c' \<le> max_size c \<or> entries (inner c') = []"
  have "used h (take n (drop ?d ?t)) + used h (drop (?d + n) ?t) \<le> used h ?t"
    using used_take_drop [of h ?d ?t] used_take_drop [of h n "drop ?d ?t"] by (simp add: add.commute)
  then have "used h (entries (inner c')) \<le> cur_size c'" using c'(5,6) assms(3) by simp
  moreover have "map_of (entries (inner c')) \<subseteq>\<^sub>m (map_of (entries (inner c)))(k \<mapsto> v)"
    unfolding c'(5) map_of_touched [symmetric] by (rule map_of_drop [OF distinct_touched [OF lru_state(1) [OF L]]])
  ultimately show thesis using that c' assms(5) by simp
qed

section \<open>Theorems\<close>

text \<open>C18. An insertion into the memory-bounded cache ends, without a panic, whatever the sizes of the values: the
  loop that removes entries stops with the recorded size below the limit or with an empty cache.
  The cache then holds nothing but the new entry and old ones, and the recorded size still bounds the size of
  the entries, so that the next insertion ends as well.  This relies on the documented behaviour of \<open>LruCache\<close>.\<close>

theorem cache_insert_ends:
  assumes "lru_cache L valid entries" "valid (inner c)"
    and "used h (entries (inner c)) \<le> cur_size c" "cur_size c + h v \<le> usize_MAX"
    and "0 < lc_capacity L (inner c)" "lc_capacity L (inner c) * 2 \<le> usize_MAX"
  shows "\<exists>c'. mlc_insert L h k v c = Some (Ok (), c') \<and> valid (inner c') \<and> used h (entries (inner c')) \<le> cur_size c' \<and>
    0 < lc_capacity L (inner c') \<and> max_size c' = max_size c \<and> (cur_size c' \<le> max_size c' \<or> entries (inner c') = []) \<and>
    map_of (entries (inner c')) \<subseteq>\<^sub>m (map_of (entries (inner c)))(k \<mapsto> v)"
  using insert_ends [OF assms] by blast

theorem cache_insert_ends_witness:
  "\<exists>c'. mlc_insert list_lru (\<lambda>n. n) ''c'' 5 \<lparr>inner = ([(''a'', 4), (''b'', 3)], 4), cur_size = 7, max_size = 8\<rparr> = Some (Ok (), c') \<and>
     (cur_size c' \<le> 8 \<or> fst (inner c') = [])"
  using cache_insert_ends [OF lru_cache_list, of "\<lparr>inner = ([(''a'', 4), (''b'', 3)], 4), cur_size = 7, max_size = 8\<rparr>" "\<lambda>n. n" 5 "''c''"]
  by (auto simp: usize_MAX_def capacity_list_lru)

text \<open>C19. What is inserted is found again: where the recorded size is that of the entries, the new value
  fits below the limit and the container displaces nothing, a lookup after the insertion returns the
  value, whatever had to be removed for it.\<close>

theorem cache_roundtrip:
  assumes "lru_cache L valid entries" "valid (inner c)"
    and "used h (entries (inner c)) = cur_size c" "cur_size c + h v \<le> usize_MAX" "h v \<le> max_size c"
    and "0 < lc_capacity L (inner c)" "lc_capacity L (inner c) * 2 \<le> usize_MAX" "\<not> displaces L entries k c"
  shows "\<exists>c'. mlc_insert L h k v c = Some (Ok (), c') \<and> fst (mlc_get_mut L k c') = Some v"
proof (rule insert_run [OF assms(1,2) eq_refl [OF assms(3)] assms(4,6,7) refl refl])
  let ?t = "touched k v (entries (inner c))"
  fix c' n
  assume c': "mlc_insert L h k v c = Some (Ok (), c')" "valid (inner c')"
    "entries (inner c') = drop ((if displaces L entries k c then 1 else 0) + n) ?t"
    "\<And>j. j < n \<Longrightarrow> max_size c + used h (take j (drop (if displaces L entries k c then 1 else 0) ?t)) +
       used h (entries (inner c)) < cur_size c + used h ?t"
  let ?m = "length (AList.delete k (entries (inner c)))"
  have "\<not> ?m < n" using c'(4) [of ?m] assms(3,5,8) by (auto simp: touched_def)
  then have "(k, v) \<in> set (entries (inner c'))" using c'(3) assms(8) by (simp add: touched_def)
  then have "map_of (entries (inner c')) k = Some v" using lru_state(1) [OF assms(1) c'(2)] by simp
  with c'(1) lru_get [OF assms(1) c'(2), of k] show ?thesis by (auto simp: mlc_get_mut_def)
qed

theorem cache_roundtrip_witness:
  "\<exists>c'. mlc_insert list_lru (\<lambda>n. n) ''c'' 5 \<lparr>inner = ([(''a'', 4), (''b'', 3)], 4), cur_size = 7, max_size = 8\<rparr> = Some (Ok (), c') \<and>
     fst (mlc_get_mut list_lru ''c'' c') = Some 5"
  using cache_roundtrip [OF lru_cache_list, of "\<lparr>inner = ([(''a'', 4), (''b'', 3)], 4), cur_size = 7, max_size = 8\<rparr>" "\<lambda>n. n" 5 "''c''"]
  by (auto simp: usize_MAX_def capacity_list_lru displaces_def)

text \<open>C20. The recorded size drifts: an insertion keeps the difference between the recorded size and the size of
  the entries, unless the container displaces an entry.  That entry is not returned by \<open>LruCache::insert\<close>, which
  returns the old value of the key only, so that its size is never taken off again, although the code
  means to account for any displaced element.\<close>

theorem cache_size_drift:
  assumes "lru_cache L valid entries" "valid (inner c)"
    and "used h (entries (inner c)) \<le> cur_size c" "cur_size c + h v \<le> usize_MAX"
    and "0 < lc_capacity L (inner c)" "lc_capacity L (inner c) * 2 \<le> usize_MAX"
    and "mlc_insert L h k v c = Some (Ok (), c1)"
  shows "cur_size c1 + used h (entries (inner c)) = cur_size c + used h (entries (inner c1)) +
    (if displaces L entries k c then h (snd (hd (entries (inner c)))) else 0)"
proof (rule insert_run [OF assms(1-6) refl refl])
  let ?t = "touched k v (entries (inner c))" and ?d = "if displaces L entries k c then 1 else 0 :: nat"
  fix c' n
  assume c': "mlc_insert L h k v c = Some (Ok (), c')" "entries (inner c') = drop (?d + n) ?t"
    "cur_size c' + used h (entries (inner c)) + used h (take n (drop ?d ?t)) = cur_size c + used h ?t"
  have "used h (take ?d ?t) = (if displaces L entries k c then h (snd (hd (entries (inner c)))) else 0)"
    using assms(5) by (cases "entries (inner c)") (auto simp: displaces_def touched_def)
  moreover have "used h ?t = used h (take ?d ?t) + used h (take n (drop ?d ?t)) + used h (drop (?d + n) ?t)"
    using used_take_drop [of h ?d ?t] used_take_drop [of h n "drop ?d ?t"] by (simp add: add.commute)
  ultimately show ?thesis using c' assms(7) by simp
qed

theorem cache_size_drift_witness:
  "\<exists>c'. mlc_insert list_lru (\<lambda>n. n) ''e'' 2
     \<lparr>inner = ([(''a'', 2), (''b'', 2), (''c'', 2), (''d'', 2)], 4), cur_size = 8, max_size = 8\<rparr> = Some (Ok (), c') \<and>
     cur_size c' = used (\<lambda>n. n) (fst (inner c')) + 2"
proof -
  let ?c = "\<lparr>inner = ([(''a'', 2), (''b'', 2), (''c'', 2), (''d'', 2)], 4), cur_size = 8, max_size = 8\<rparr>"
  have ok: "case inner ?c of (es, n) \<Rightarrow> distinct (map fst es) \<and> length es \<le> n" "used (\<lambda>n. n) (fst (inner ?c)) \<le> cur_size ?c"
    "cur_size ?c + 2 \<le> usize_MAX" "0 < lc_capacity list_lru (inner ?c)" "lc_capacity list_lru (inner ?c) * 2 \<le> usize_MAX"
    by (simp_all add: usize_MAX_def capacity_list_lru)
  obtain c' where c': "mlc_insert list_lru (\<lambda>n. n) ''e'' 2 ?c = Some (Ok (), c')" by (rule insert_ends [OF lru_cache_list ok])
  have "displaces list_lru fst ''e'' ?c" by (simp add: displaces_def capacity_list_lru)
  with cache_size_drift [OF lru_cache_list ok c'] c' show ?thesis by simp
qed

end
