(* ===== verification/Jump_Analysis.thy ===== *)
theory Jump_Analysis
  imports Evm_Instructions Memory_Cache
begin

text \<open>
  The analysis of jump destinations and its shared cache
  (\<open>src/cfx-evm/src/evm/interpreter/shared_cache.rs\<close>).  A \<open>BitSet\<close> is the set
  of its members.  The cache is the one of \<open>Memory_Cache\<close>; the bytes that the
  two bit sets of a code take are a parameter, since the capacity of a
  \<open>BitSet\<close> is chosen by its crate.  \<open>instr_start\<close> is the specification: the
  positions at which an instruction begins when the code is read from its start.
\<close>

section \<open>Finding the destinations\<close>

record CacheItem =
  jump_destination :: "nat set"
  sub_entrypoint :: "nat set"

text \<open>How far the loop moves past the byte at a position: over the data of a push.\<close>

definition push_skip :: "u8 \<Rightarrow> nat" where
  "push_skip opcode = (case from_u8 opcode of
     None \<Rightarrow> 0
   | Some i \<Rightarrow> (case push_bytes i of None \<Rightarrow> 0 | Some n \<Rightarrow> n))"

definition visit :: "u8 \<Rightarrow> nat \<Rightarrow> CacheItem \<Rightarrow> CacheItem" where
  "visit opcode position d = (case from_u8 opcode of
     Some (Flow JUMPDEST) \<Rightarrow> d\<lparr>jump_destination := insert position (jump_destination d)\<rparr>
   | Some (Flow BEGINSUB) \<Rightarrow> d\<lparr>sub_entrypoint := insert position (sub_entrypoint d)\<rparr>
   | _ \<Rightarrow> d)"

function find_loop :: "Bytes \<Rightarrow> nat \<Rightarrow> CacheItem \<Rightarrow> CacheItem" where
  "find_loop code position d =
     (if position < length code
      then find_loop code (Suc (position + push_skip (code ! position)))
             (visit (code ! position) position d)
      else d)"
  by pat_completeness auto
termination by (relation "measure (\<lambda>(code, position, d). length code - position)") auto

declare find_loop.simps [simp del]

definition find_jump_and_sub_destinations :: "Bytes \<Rightarrow> CacheItem" where
  "find_jump_and_sub_destinations code =
     find_loop code 0 \<lparr>jump_destination = {}, sub_entrypoint = {}\<rparr>"

section \<open>The shared cache\<close>

text \<open>A cached item stands with the bytes that its bit sets take.\<close>

type_synonym SizedItem = "CacheItem \<times> usize"

record 'l CacheEnv =
  container :: "(H256, SizedItem, 'l) LruCache"
  bits_size :: "Bytes \<Rightarrow> usize"

text \<open>The structure itself takes two pointers.\<close>

definition heap_size_of :: "SizedItem \<Rightarrow> usize" where
  "heap_size_of item = 16 + snd item"

definition DEFAULT_CACHE_SIZE :: usize where
  "DEFAULT_CACHE_SIZE = 4 * 1024 * 1024"

definition KECCAK_EMPTY :: H256 where
  "KECCAK_EMPTY = 0xc5d2460186f7233c927e7db2dcc703c0e500b653ca82273b7bfad8045d85a470"

definition jump_and_sub_destinations ::
  "'l CacheEnv \<Rightarrow> H256 option \<Rightarrow> Bytes \<Rightarrow> 'l MemoryLruCache \<Rightarrow>
     ((unit, nat set \<times> nat set) outcome \<times> 'l MemoryLruCache) option" where
  "jump_and_sub_destinations K code_hash code c =
     (let d = find_jump_and_sub_destinations code;
          found = (jump_destination d, sub_entrypoint d)
      in case code_hash of
        None \<Rightarrow> Some (Ok found, c)
      | Some h \<Rightarrow>
          if h = KECCAK_EMPTY then Some (Ok found, c)
          else (case mlc_get_mut (container K) h c of
              (Some item, c') \<Rightarrow> Some (Ok (jump_destination (fst item), sub_entrypoint (fst item)), c')
            | (None, c') \<Rightarrow>
                map_option (map_prod (\<lambda>r. bind r (\<lambda>_. Ok found)) id)
                  (mlc_insert (container K) heap_size_of h (d, bits_size K code) c')))"

section \<open>Where instructions start\<close>

inductive instr_start :: "Bytes \<Rightarrow> nat \<Rightarrow> bool" for code where
  first: "instr_start code 0"
| next_instr: "instr_start code p \<Longrightarrow> p < length code \<Longrightarrow>
     instr_start code (Suc (p + push_skip (code ! p)))"

inductive_cases instr_start_zeroE: "instr_start code 0"

text \<open>The starts at or after a position that is one, in the order the loop visits them.\<close>

inductive start_from :: "Bytes \<Rightarrow> nat \<Rightarrow> nat \<Rightarrow> bool" for code where
  here: "start_from code p p"
| later: "p < length code \<Longrightarrow> start_from code (Suc (p + push_skip (code ! p))) q \<Longrightarrow> start_from code p q"

inductive_simps start_from_simps: "start_from code p q"

lemma start_from_ge: "start_from code p q \<Longrightarrow> p \<le> q"
  by (induction rule: start_from.induct) simp_all

lemma start_from_step:
  "start_from code p q \<Longrightarrow> q < length code \<Longrightarrow> start_from code p (Suc (q + push_skip (code ! q)))"
  by (induction rule: start_from.induct) (auto intro: start_from.intros)

lemma instr_start_iff: "instr_start code q \<longleftrightarrow> start_from code 0 q"
proof
  show "start_from code 0 q" if "instr_start code q"
    using that by induction (auto intro: start_from.here start_from_step)
next
  have "instr_start code p \<Longrightarrow> instr_start code q" if "start_from code p q" for p
    using that by induction (auto intro: instr_start.next_instr)
  then show "instr_start code q" if "start_from code 0 q"
    using that instr_start.first by blast
qed

lemma from_u8_JUMPDEST: "from_u8 v = Some (Flow JUMPDEST) \<longleftrightarrow> v = 0x5b"
  by (auto simp: from_u8_Some)

lemma from_u8_BEGINSUB: "from_u8 v = Some (Flow BEGINSUB) \<longleftrightarrow> v = 0x5c"
  by (auto simp: from_u8_Some)

lemma visit_eq:
  "visit v p d =
     (if v = 0x5b then d\<lparr>jump_destination := insert p (jump_destination d)\<rparr>
      else if v = 0x5c then d\<lparr>sub_entrypoint := insert p (sub_entrypoint d)\<rparr> else d)"
  unfolding from_u8_JUMPDEST [symmetric] from_u8_BEGINSUB [symmetric] visit_def
  by (simp split: option.split Instruction.split FlowOp.split)

lemma start_from_unfold:
  "start_from code p q \<longleftrightarrow>
     q = p \<or> (p < length code \<and> start_from code (Suc (p + push_skip (code ! p))) q)"
  by (subst start_from_simps) auto

lemma find_loop_sets:
  "jump_destination (find_loop code p d) =
     jump_destination d \<union> {q. start_from code p q \<and> q < length code \<and> code ! q = 0x5b} \<and>
   sub_entrypoint (find_loop code p d) =
     sub_entrypoint d \<union> {q. start_from code p q \<and> q < length code \<and> code ! q = 0x5c}"
proof (induction code p d rule: find_loop.induct)
  case (1 code p d)
  let ?next = "Suc (p + push_skip (code ! p))"
  show ?case
  proof (cases "p < length code")
    case True
    have start: "{q. start_from code p q \<and> q < length code \<and> code ! q = x} =
        (if code ! p = x then {p} else {}) \<union> {q. start_from code ?next q \<and> q < length code \<and> code ! q = x}"
      for x using True by (subst start_from_unfold) auto
    show ?thesis unfolding start
      using 1 [OF True] True by (subst (1 2) find_loop.simps) (simp add: visit_eq)
  next
    case False
    then have "{q. start_from code p q \<and> q < length code \<and> code ! q = x} = {}" for x
      using start_from_ge [of code p] by force
    then show ?thesis using False by (subst (1 2) find_loop.simps) auto
  qed
qed

lemma destinations_jump:
  "jump_destination (find_jump_and_sub_destinations code) =
     {p. instr_start code p \<and> p < length code \<and> code ! p = 0x5b}"
  by (simp add: find_jump_and_sub_destinations_def find_loop_sets instr_start_iff)

lemma destinations_sub:
  "sub_entrypoint (find_jump_and_sub_destinations code) =
     {p. instr_start code p \<and> p < length code \<and> code ! p = 0x5c}"
  by (simp add: find_jump_and_sub_destinations_def find_loop_sets instr_start_iff)

section \<open>The cache is transparent\<close>

text \<open>
  The states of the cache that the code reaches: the recorded size bounds the
  size of the entries, and every entry is the analysis of the code its hash
  stands for.
\<close>

definition cache_ok :: "'l CacheEnv \<Rightarrow> ('l \<Rightarrow> bool) \<Rightarrow> ('l \<Rightarrow> (H256 \<times> SizedItem) list) \<Rightarrow> 'l MemoryLruCache \<Rightarrow> bool" where
  "cache_ok K valid entries c \<longleftrightarrow> valid (inner c) \<and> 0 < lc_capacity (container K) (inner c) \<and>
     used heap_size_of (entries (inner c)) \<le> cur_size c"

definition cache_sound :: "('l \<Rightarrow> (H256 \<times> SizedItem) list) \<Rightarrow> (H256 \<Rightarrow> Bytes) \<Rightarrow> 'l MemoryLruCache \<Rightarrow> bool" where
  "cache_sound entries code_of c \<longleftrightarrow>
     (\<forall>h d n. map_of (entries (inner c)) h = Some (d, n) \<longrightarrow> d = find_jump_and_sub_destinations (code_of h))"

lemma cache_new:
  assumes "lru_cache (container K) valid entries"
  shows "cache_ok K valid entries (mlc_new (container K) limit)" "cache_sound entries code_of (mlc_new (container K) limit)"
  using assms by (simp_all add: cache_ok_def cache_sound_def mlc_new_def lru_cache_def INITIAL_CAPACITY_def)

lemma cache_sound_le:
  assumes "cache_sound entries code_of c" "map_of (entries (inner c')) \<subseteq>\<^sub>m (map_of (entries (inner c)))(h \<mapsto> (d, n))"
    and "d = find_jump_and_sub_destinations (code_of h)"
  shows "cache_sound entries code_of c'"
  unfolding cache_sound_def
proof (intro allI impI)
  fix h' d' n' assume "map_of (entries (inner c')) h' = Some (d', n')"
  with assms(2) have "((map_of (entries (inner c)))(h \<mapsto> (d, n))) h' = Some (d', n')" unfolding map_le_def by (metis domI)
  with assms(1,3) show "d' = find_jump_and_sub_destinations (code_of h')"
    by (auto simp: cache_sound_def split: if_splits)
qed

lemma cache_get:
  assumes "lru_cache (container K) valid entries" "cache_ok K valid entries c"
  obtains c' where "mlc_get_mut (container K) h c = (map_of (entries (inner c)) h, c')" "cache_ok K valid entries c'"
    "map_of (entries (inner c')) = map_of (entries (inner c))" "cur_size c' = cur_size c"
    "lc_capacity (container K) (inner c') = lc_capacity (container K) (inner c)"
proof -
  have ok: "valid (inner c)" "0 < lc_capacity (container K) (inner c)" "used heap_size_of (entries (inner c)) \<le> cur_size c"
    using assms(2) unfolding cache_ok_def by blast+
  obtain l where l: "lc_get_mut (container K) h (inner c) = (map_of (entries (inner c)) h, l)" "valid l"
    "lc_capacity (container K) l = lc_capacity (container K) (inner c)"
    "entries l = (case map_of (entries (inner c)) h of None \<Rightarrow> entries (inner c) | Some v \<Rightarrow> touched h v (entries (inner c)))"
    using lru_get [OF assms(1) ok(1), of h] by blast
  have "map_of (entries l) = map_of (entries (inner c)) \<and> used heap_size_of (entries l) = used heap_size_of (entries (inner c))"
    using l(4) used_delete [OF lru_state(1) [OF assms(1) ok(1)], of heap_size_of h]
    by (cases "map_of (entries (inner c)) h") (auto simp: map_of_touched fun_upd_idem, simp add: touched_def)
  with that [of "c\<lparr>inner := l\<rparr>"] l ok show thesis by (simp add: mlc_get_mut_def cache_ok_def)
qed

section \<open>Valid destinations\<close>


text \<open>C17.  The shared cache does not change the analysis: whatever entries the cache keeps or
  evicts, the call ends, the sets returned are those of the code, and the cache stays sound, its recorded
  size above that of its entries.  A new cache is such a one.\<close>

theorem jump_cache_transparent:
  assumes "lru_cache (container K) valid entries" "cache_ok K valid entries c" "cache_sound entries code_of c"
    and "\<And>h. code_hash = Some h \<Longrightarrow> h \<noteq> KECCAK_EMPTY \<Longrightarrow> code = code_of h"
    and "cur_size c + 16 + bits_size K code \<le> usize_MAX" "lc_capacity (container K) (inner c) * 2 \<le> usize_MAX"
    and d: "d = find_jump_and_sub_destinations code"
  shows "(\<exists>c'. jump_and_sub_destinations K code_hash code c = Some (Ok (jump_destination d, sub_entrypoint d), c') \<and>
      cache_ok K valid entries c' \<and> cache_sound entries code_of c') \<and>
    cache_ok K valid entries (mlc_new (container K) limit) \<and> cache_sound entries code_of (mlc_new (container K) limit)"
proof (cases "\<exists>h. code_hash = Some h \<and> h \<noteq> KECCAK_EMPTY")
  case False
  then show ?thesis using assms(2,3) cache_new [OF assms(1)] d
    by (auto simp: jump_and_sub_destinations_def Let_def split: option.splits)
next
  case True
  then obtain h where h: "code_hash = Some h" "h \<noteq> KECCAK_EMPTY" by blast
  obtain c1 where c1: "mlc_get_mut (container K) h c = (map_of (entries (inner c)) h, c1)" "cache_ok K valid entries c1"
    "map_of (entries (inner c1)) = map_of (entries (inner c))" "cur_size c1 = cur_size c"
    "lc_capacity (container K) (inner c1) = lc_capacity (container K) (inner c)"
    by (rule cache_get [OF assms(1,2)])
  have sound: "cache_sound entries code_of c1" using assms(3) c1(3) unfolding cache_sound_def by simp
  show ?thesis
  proof (cases "map_of (entries (inner c)) h")
    case None
    have "valid (inner c1)" "used heap_size_of (entries (inner c1)) \<le> cur_size c1" "cur_size c1 + heap_size_of (d, bits_size K code) \<le> usize_MAX"
      "0 < lc_capacity (container K) (inner c1)" "lc_capacity (container K) (inner c1) * 2 \<le> usize_MAX"
      using c1 assms(5,6) unfolding cache_ok_def heap_size_of_def by simp_all
    from insert_ends [OF assms(1) this, of h] obtain c2 where
      c2: "mlc_insert (container K) heap_size_of h (d, bits_size K code) c1 = Some (Ok (), c2)" "cache_ok K valid entries c2"
        "map_of (entries (inner c2)) \<subseteq>\<^sub>m (map_of (entries (inner c1)))(h \<mapsto> (d, bits_size K code))"
      unfolding cache_ok_def by metis
    have "cache_sound entries code_of c2" using cache_sound_le [OF sound c2(3)] d assms(4) [OF h] by simp
    with c1(1) c2 None h d cache_new [OF assms(1)] show ?thesis by (simp add: jump_and_sub_destinations_def Let_def)
  next
    case (Some item)
    then have "fst item = d" using assms(3) assms(4) [OF h] d by (cases item) (auto simp: cache_sound_def)
    with c1 Some h sound cache_new [OF assms(1)] show ?thesis by (simp add: jump_and_sub_destinations_def Let_def)
  qed
qed

definition sample_cache :: "((H256 \<times> SizedItem) list \<times> usize) CacheEnv" where
  "sample_cache = \<lparr>container = list_lru, bits_size = (\<lambda>code. 8 * length code)\<rparr>"

theorem jump_cache_transparent_witness:
  "\<exists>c'. jump_and_sub_destinations sample_cache (Some 7) [0x5b] (mlc_new list_lru DEFAULT_CACHE_SIZE) =
     Some (Ok ({p. instr_start [0x5b] p \<and> p < 1 \<and> [0x5b :: u8] ! p = 0x5b}, {}), c')"
proof -
  let ?c = "mlc_new list_lru DEFAULT_CACHE_SIZE" and ?valid = "\<lambda>(es, n). distinct (map fst es) \<and> length es \<le> n"
  have K: "lru_cache (container sample_cache) ?valid fst" by (simp add: sample_cache_def lru_cache_list)
  from cache_new [OF K] have ok: "cache_ok sample_cache ?valid fst ?c" "cache_sound fst (\<lambda>_. [0x5b]) ?c"
    by (simp_all add: sample_cache_def)
  have size: "cur_size ?c + 16 + bits_size sample_cache [0x5b] \<le> usize_MAX"
    "lc_capacity (container sample_cache) (inner ?c) * 2 \<le> usize_MAX"
    by (simp_all add: sample_cache_def mlc_new_def list_lru_def INITIAL_CAPACITY_def usize_MAX_def)
  let ?d = "find_jump_and_sub_destinations [0x5b]"
  have "\<exists>c'. jump_and_sub_destinations sample_cache (Some 7) [0x5b] ?c = Some (Ok (jump_destination ?d, sub_entrypoint ?d), c')"
    using jump_cache_transparent [OF K ok _ size refl, of "Some 7"] by blast
  moreover have "sub_entrypoint ?d = {}" by (auto simp: destinations_sub)
  moreover have "jump_destination ?d = {p. instr_start [0x5b] p \<and> p < 1 \<and> [0x5b :: u8] ! p = 0x5b}" by (simp add: destinations_jump)
  ultimately show ?thesis by simp
qed

end
