(* ===== verification/Evm_Interpreter.thy ===== *)
theory Evm_Interpreter
  imports Evm_Gasometer Evm_Memory Evm_Arith Jump_Analysis
begin

text \<open>
  The interpreter (\<open>src/cfx-evm/src/evm/interpreter/mod.rs\<close> and
  \<open>src/cfx-evm/src/evm/factory.rs\<close>): its state, one definition per group of
  arms of \<open>exec_instruction\<close>, the step, the loop, and the two ways of resuming
  after a sub-frame.  An operation runs on the pair of the interpreter and its
  context.  Hashing is the parameter \<open>keccak\<close>, the container
  of the cache of jump destinations the parameter \<open>K\<close>; a call of the cache
  always ends, as \<open>Jump_Analysis\<close> shows.

  The hooks of the \<open>Context\<close> trait that trace instructions keep their default
  bodies, which do nothing and switch tracing off at the first instruction;
  they and the debug informant are left out.
\<close>

section \<open>State\<close>

record CodeReader =
  cr_position :: usize
  cr_code :: Bytes

datatype (plugins only: code size) 'g InstructionResult =
    IR_Ok
  | UnusedGas 'g
  | JumpToPosition U256
  | JumpToSubroutine U256
  | ReturnFromSubroutine usize
  | StopExecutionNeedsReturn 'g U256 U256 bool
  | StopExecution
  | IR_Trap TrapKind

record InterpreterParams =
  ip_code_address :: Address
  ip_code_hash :: "H256 option"
  ip_address :: Address
  ip_sender :: Address
  ip_original_sender :: Address
  ip_gas :: U256
  ip_gas_price :: U256
  ip_value :: ActionValue
  ip_data :: "Bytes option"
  ip_call_type :: CallType
  ip_params_type :: ParamsType

definition params_from :: "ActionParams \<Rightarrow> InterpreterParams" where
  "params_from p = \<lparr>ip_code_address = ap_code_address p, ip_code_hash = ap_code_hash p,
     ip_address = ap_address p, ip_sender = ap_sender p,
     ip_original_sender = ap_original_sender p, ip_gas = ap_gas p, ip_gas_price = ap_gas_price p,
     ip_value = ap_value p, ip_data = ap_data p, ip_call_type = ap_call_type p,
     ip_params_type = ap_params_type p\<rparr>"

datatype (plugins only: code size) InterpreterResult =
    Stopped
  | Done "GasLeft vm_result"
  | Continue
  | Int_Trap TrapKind

record ('g, 'k) Interpreter =
  it_mem :: Bytes
  it_cache :: "'k MemoryLruCache"
  it_params :: InterpreterParams
  it_reader :: CodeReader
  it_return_data :: ReturnData
  it_done :: bool
  it_valid_jump_destinations :: "nat set option"
  it_valid_subroutine_destinations :: "nat set option"
  it_gasometer :: "'g Gasometer option"
  it_stack :: "U256 VecStack"
  it_return_stack :: "usize list"
  it_resume_output_range :: "(U256 \<times> U256) option"
  it_resume_result :: "'g InstructionResult option"
  it_last_stack_ret_len :: usize

definition MAX_SUB_STACK_SIZE :: usize where
  "MAX_SUB_STACK_SIZE = 1023"

definition interpreter_new ::
  "ActionParams \<Rightarrow> 'k MemoryLruCache \<Rightarrow> ('e, ('c::len word, 'k) Interpreter) outcome" where
  "interpreter_new params cache =
     bind (expect (ap_code params)) (\<lambda>code.
     Ok \<lparr>it_mem = [], it_cache = cache, it_params = params_from params,
         it_reader = \<lparr>cr_position = 0, cr_code = code\<rparr>,
         it_return_data = rd_empty, it_done = False,
         it_valid_jump_destinations = None, it_valid_subroutine_destinations = None,
         it_gasometer = (case from_u256 (ap_gas params) of
             Ok gas \<Rightarrow> Some (gasometer_new gas) | _ \<Rightarrow> None),
         it_stack = with_capacity 0, it_return_stack = [],
         it_resume_output_range = None, it_resume_result = None, it_last_stack_ret_len = 0\<rparr>)"

text \<open>The factory picks the cost type by the gas given.\<close>

definition can_fit_in_usize :: "U256 \<Rightarrow> bool" where
  "can_fit_in_usize gas \<longleftrightarrow> gas = of_nat (low_u64 gas)"

datatype 'k Exec_instance =
    Narrow "(64 word, 'k) Interpreter"
  | Wide "(256 word, 'k) Interpreter"

definition factory_create :: "ActionParams \<Rightarrow> 'k MemoryLruCache \<Rightarrow> ('e, 'k Exec_instance) outcome" where
  "factory_create params cache =
     (if can_fit_in_usize (ap_gas params)
      then bind (interpreter_new params cache) (\<lambda>i. Ok (Narrow i))
      else bind (interpreter_new params cache) (\<lambda>i. Ok (Wide i)))"

section \<open>Operations on the parts of the state\<close>

type_synonym ('c, 'k, 'ctx, 'a) iop = "(('c word, 'k) Interpreter \<times> 'ctx, Error, 'a) op"

definition on_stack :: "(U256 VecStack, Error, 'a) op \<Rightarrow> ('c, 'k, 'ctx, 'a) iop" where
  "on_stack = zoom (\<lambda>(i, c). it_stack i) (\<lambda>st (i, c). (i\<lparr>it_stack := st\<rparr>, c))"

definition on_ctx :: "('ctx, Error, 'a) op \<Rightarrow> ('c, 'k, 'ctx, 'a) iop" where
  "on_ctx = zoom snd (\<lambda>c (i, _). (i, c))"

definition it_get :: "(('c word, 'k) Interpreter \<Rightarrow> 'a) \<Rightarrow> ('c, 'k, 'ctx, 'a) iop" where
  "it_get f = gets (\<lambda>(i, c). f i)"

definition it_mod :: "(('c word, 'k) Interpreter \<Rightarrow> ('c word, 'k) Interpreter) \<Rightarrow> ('c, 'k, 'ctx, unit) iop" where
  "it_mod f = modify (\<lambda>(i, c). (f i, c))"

definition on_mem :: "(Bytes \<Rightarrow> Bytes vm_result) \<Rightarrow> ('c, 'k, 'ctx, unit) iop" where
  "on_mem f = andThen (it_get it_mem) (\<lambda>m. andThen (lift_outcome (f m)) (\<lambda>m'.
     it_mod (\<lambda>i. i\<lparr>it_mem := m'\<rparr>)))"

abbreviation pop :: "('c, 'k, 'ctx, U256) iop" where
  "pop \<equiv> on_stack vs_pop_back"

abbreviation push :: "U256 \<Rightarrow> ('c, 'k, 'ctx, unit) iop" where
  "push v \<equiv> on_stack (vs_push v)"

fun expect_ok :: "('e, 'a) outcome \<Rightarrow> ('e, 'a) outcome" where
  "expect_ok (Ok x) = Ok x"
| "expect_ok (Err _) = Panic"
| "expect_ok Panic = Panic"

definition binop :: "(U256 \<Rightarrow> U256 \<Rightarrow> U256) \<Rightarrow> ('c, 'k, 'ctx, unit) iop" where
  "binop f = andThen pop (\<lambda>a. andThen pop (\<lambda>b. push (f a b)))"

definition unop :: "(U256 \<Rightarrow> U256) \<Rightarrow> ('c, 'k, 'ctx, unit) iop" where
  "unop f = andThen pop (\<lambda>a. push (f a))"

definition ternop :: "(U256 \<Rightarrow> U256 \<Rightarrow> U256 \<Rightarrow> U256 vm_result) \<Rightarrow> ('c, 'k, 'ctx, unit) iop" where
  "ternop f = andThen pop (\<lambda>a. andThen pop (\<lambda>b. andThen pop (\<lambda>c.
     andThen (lift_outcome (f a b c)) push)))"

section \<open>Arithmetic, comparison, stack\<close>

primrec exec_arith :: "ArithOp \<Rightarrow> ('c, 'k, 'ctx, unit) iop" where
  "exec_arith ADD = binop evm_add"
| "exec_arith MUL = binop evm_mul"
| "exec_arith SUB = binop evm_sub"
| "exec_arith DIV = binop evm_div"
| "exec_arith SDIV = binop evm_sdiv"
| "exec_arith MOD = binop evm_mod"
| "exec_arith SMOD = binop evm_smod"
| "exec_arith ADDMOD = ternop evm_addmod"
| "exec_arith MULMOD = ternop evm_mulmod"
| "exec_arith EXP = binop evm_exp"
| "exec_arith SIGNEXTEND = andThen pop (\<lambda>pos.
     if pos < 32 then andThen pop (\<lambda>number. push (evm_signextend pos number)) else ret ())"

primrec exec_logic :: "LogicOp \<Rightarrow> ('c, 'k, 'ctx, unit) iop" where
  "exec_logic LT = binop (\<lambda>a b. bool_to_u256 (a < b))"
| "exec_logic GT = binop (\<lambda>a b. bool_to_u256 (a > b))"
| "exec_logic SLT = binop evm_slt"
| "exec_logic SGT = binop evm_sgt"
| "exec_logic EQ = binop (\<lambda>a b. bool_to_u256 (a = b))"
| "exec_logic ISZERO = unop (\<lambda>a. bool_to_u256 (a = 0))"
| "exec_logic ANDI = binop (\<lambda>a b. a AND b)"
| "exec_logic ORI = binop (\<lambda>a b. a OR b)"
| "exec_logic XORI = binop (\<lambda>a b. a XOR b)"
| "exec_logic NOTI = unop (\<lambda>a. NOT a)"
| "exec_logic BYTE = binop evm_byte"
| "exec_logic SHL = binop evm_shl"
| "exec_logic SHR = binop evm_shr"
| "exec_logic SAR = binop evm_sar"

text \<open>\<open>CodeReader::read\<close>: the bytes of a push, cut off at the end of the code.\<close>

definition reader_read :: "usize \<Rightarrow> ('c, 'k, 'ctx, U256) iop" where
  "reader_read n =
     andThen (it_get it_reader) (\<lambda>r.
     andThen (lift_outcome (usize_add (cr_position r) n)) (\<lambda>next.
     andThen (it_mod (\<lambda>i. i\<lparr>it_reader := r\<lparr>cr_position := next\<rparr>\<rparr>)) (\<lambda>_.
     andThen (lift_outcome (slice (cr_code r) (cr_position r) (min next (length (cr_code r))))) (\<lambda>bs.
     ret (from_be bs)))))"

definition exec_push :: "Instruction \<Rightarrow> ('c, 'k, 'ctx, unit) iop" where
  "exec_push i = andThen (lift_outcome (expect (push_bytes i))) (\<lambda>n. andThen (reader_read n) push)"

definition exec_dup :: "Instruction \<Rightarrow> ('c, 'k, 'ctx, unit) iop" where
  "exec_dup i = andThen (lift_outcome (expect (dup_position i))) (\<lambda>n.
     andThen (on_stack (vs_peek n)) push)"

definition exec_swap :: "Instruction \<Rightarrow> ('c, 'k, 'ctx, unit) iop" where
  "exec_swap i = andThen (lift_outcome (expect (swap_position i))) (\<lambda>n.
     on_stack (vs_swap_with_top n))"

section \<open>Copying into memory\<close>

definition zero_fill :: "U256 \<Rightarrow> U256 \<Rightarrow> Bytes \<Rightarrow> Bytes vm_result" where
  "zero_fill off len m =
     bind (mem_writeable_slice off len m) (\<lambda>(o', n). Ok (overwrite m o' (replicate n 0)))"

definition copy_data_to_memory :: "Bytes \<Rightarrow> ('c, 'k, 'ctx, unit) iop" where
  "copy_data_to_memory source =
     andThen pop (\<lambda>dest_offset. andThen pop (\<lambda>source_offset. andThen pop (\<lambda>sz.
     let source_size = of_nat (length source) in
     andThen (lift_outcome
       (if source_offset > source_size \<or> sz > source_size then Ok True
        else bind (word_add source_offset sz) (\<lambda>e. Ok (e > source_size)))) (\<lambda>past_end.
     andThen
       (if past_end then
          andThen
            (if source_offset > source_size then on_mem (zero_fill dest_offset sz)
             else andThen (lift_outcome (bind (word_add dest_offset source_size) (\<lambda>d.
                           word_sub d source_offset))) (\<lambda>off.
                  andThen (lift_outcome (bind (word_add source_offset sz) (\<lambda>e.
                           word_sub e source_size))) (\<lambda>len.
                  on_mem (zero_fill off len)))) (\<lambda>_.
          ret (length source))
        else lift_outcome (usize_add (low_u64 sz) (low_u64 source_offset))) (\<lambda>output_end.
     if source_offset < source_size then
       andThen (lift_outcome (slice source (low_u64 source_offset) output_end)) (\<lambda>bs.
       on_mem (mem_write_slice dest_offset bs))
     else ret ())))))"

section \<open>Environment\<close>

definition calldataload :: "Bytes option \<Rightarrow> U256 \<Rightarrow> U256 vm_result" where
  "calldataload data_opt big_id =
     (let id = low_u64 big_id;
          max = (id + 32) mod 2 ^ 64
      in case data_opt of
           Some data \<Rightarrow>
             (let bound = min (length data) max
              in if id < bound \<and> big_id < of_nat (length data)
                 then bind (slice data id bound) (\<lambda>bs.
                      if length bs \<le> 32 then Ok (from_be (bs @ replicate (32 - length bs) 0)) else Panic)
                 else Ok 0)
         | None \<Rightarrow> Ok 0)"

primrec exec_env :: "'ctx Context \<Rightarrow> EnvOp \<Rightarrow> ('c, 'k, 'ctx, unit) iop" where
  "exec_env C ADDRESS = andThen (it_get it_params) (\<lambda>p. push (address_to_u256 (ip_address p)))"
| "exec_env C BALANCE = andThen pop (\<lambda>a.
     andThen (on_ctx (ctx_balance C (u256_to_address a))) push)"
| "exec_env C ORIGIN = andThen (it_get it_params) (\<lambda>p. push (address_to_u256 (ip_original_sender p)))"
| "exec_env C CALLER = andThen (it_get it_params) (\<lambda>p. push (address_to_u256 (ip_sender p)))"
| "exec_env C CALLVALUE = andThen (it_get it_params) (\<lambda>p. push (action_value (ip_value p)))"
| "exec_env C CALLDATALOAD = andThen pop (\<lambda>big_id. andThen (it_get it_params) (\<lambda>p.
     andThen (lift_outcome (calldataload (ip_data p) big_id)) push))"
| "exec_env C CALLDATASIZE = andThen (it_get it_params) (\<lambda>p.
     push (of_nat (case ip_data p of None \<Rightarrow> 0 | Some l \<Rightarrow> length l)))"
| "exec_env C CALLDATACOPY = andThen (it_get it_params) (\<lambda>p.
     copy_data_to_memory (case ip_data p of None \<Rightarrow> [] | Some d \<Rightarrow> d))"
| "exec_env C CODESIZE = andThen (it_get it_reader) (\<lambda>r. push (of_nat (length (cr_code r))))"
| "exec_env C CODECOPY = andThen (it_get it_reader) (\<lambda>r. copy_data_to_memory (cr_code r))"
| "exec_env C GASPRICE = andThen (it_get it_params) (\<lambda>p. push (ip_gas_price p))"
| "exec_env C EXTCODESIZE = andThen pop (\<lambda>a.
     andThen (on_ctx (ctx_extcodesize C (u256_to_address a))) (\<lambda>len.
     push (of_nat (case len of None \<Rightarrow> 0 | Some n \<Rightarrow> n))))"
| "exec_env C EXTCODECOPY = andThen pop (\<lambda>a.
     andThen (on_ctx (ctx_extcode C (u256_to_address a))) (\<lambda>code.
     copy_data_to_memory (case code of None \<Rightarrow> [] | Some c \<Rightarrow> c)))"
| "exec_env C RETURNDATASIZE = andThen (it_get it_return_data) (\<lambda>rd.
     andThen (lift_outcome (rd_deref rd)) (\<lambda>d. push (of_nat (length d))))"
| "exec_env C RETURNDATACOPY =
     andThen (on_stack (vs_peek 1)) (\<lambda>source_offset. andThen (on_stack (vs_peek 2)) (\<lambda>sz.
     andThen (it_get it_return_data) (\<lambda>rd. andThen (lift_outcome (rd_deref rd)) (\<lambda>d.
     if saturating_add source_offset sz > of_nat (length d) then throw OutOfBounds
     else copy_data_to_memory d))))"
| "exec_env C EXTCODEHASH = andThen pop (\<lambda>a.
     andThen (on_ctx (ctx_extcodehash C (u256_to_address a))) (\<lambda>h.
     push (case h of None \<Rightarrow> 0 | Some x \<Rightarrow> x)))"

primrec exec_block :: "'ctx Context \<Rightarrow> BlockOp \<Rightarrow> ('c, 'k, 'ctx, unit) iop" where
  "exec_block C BLOCKHASH = andThen pop (\<lambda>n. andThen (on_ctx (ctx_blockhash C n)) push)"
| "exec_block C COINBASE = andThen (on_ctx (gets (ctx_env C))) (\<lambda>e. push (address_to_u256 (env_author e)))"
| "exec_block C TIMESTAMP = andThen (on_ctx (gets (ctx_env C))) (\<lambda>e. push (ucast (env_timestamp e)))"
| "exec_block C NUMBER = andThen (on_ctx (gets (ctx_env C))) (\<lambda>e. push (ucast (env_epoch_height e)))"
| "exec_block C DIFFICULTY = andThen (on_ctx (gets (ctx_env C))) (\<lambda>e. push (env_difficulty e))"
| "exec_block C GASLIMIT = andThen (on_ctx (gets (ctx_env C))) (\<lambda>e. push (env_gas_limit e))"
| "exec_block C CHAINID = andThen (on_ctx (gets (ctx_chain_id C))) (\<lambda>n. push (ucast n))"
| "exec_block C SELFBALANCE = andThen (it_get it_params) (\<lambda>p.
     andThen (on_ctx (ctx_balance C (ip_address p))) push)"

section \<open>Memory, storage, jumps\<close>

primrec exec_flow ::
  "'ctx Context \<Rightarrow> 'c::len word \<Rightarrow> FlowOp \<Rightarrow> ('c, 'k, 'ctx, 'c word InstructionResult) iop" where
  "exec_flow C gas POP = andThen pop (\<lambda>_. ret IR_Ok)"
| "exec_flow C gas MLOAD = andThen pop (\<lambda>off. andThen (it_get it_mem) (\<lambda>m.
     andThen (lift_outcome (mem_read off m)) (\<lambda>w. andThen (push w) (\<lambda>_. ret IR_Ok))))"
| "exec_flow C gas MSTORE = andThen pop (\<lambda>off. andThen pop (\<lambda>w.
     andThen (on_mem (mem_write off w)) (\<lambda>_. ret IR_Ok)))"
| "exec_flow C gas MSTORE8 = andThen pop (\<lambda>off. andThen pop (\<lambda>b.
     andThen (on_mem (mem_write_byte off b)) (\<lambda>_. ret IR_Ok)))"
| "exec_flow C gas SLOAD = andThen pop (\<lambda>k.
     andThen (on_ctx (ctx_storage_at C (to_be 32 k))) (\<lambda>w. andThen (push w) (\<lambda>_. ret IR_Ok)))"
| "exec_flow C gas SSTORE = andThen pop (\<lambda>k. andThen pop (\<lambda>val.
     andThen (on_ctx (ctx_set_storage C (to_be 32 k) val)) (\<lambda>_. ret IR_Ok)))"
| "exec_flow C gas JUMP = andThen pop (\<lambda>jump. ret (JumpToPosition jump))"
| "exec_flow C gas JUMPI = andThen pop (\<lambda>jump. andThen pop (\<lambda>condition.
     if condition \<noteq> 0 then ret (JumpToPosition jump) else ret IR_Ok))"
| "exec_flow C gas PC = andThen (it_get it_reader) (\<lambda>r.
     andThen (lift_outcome (usize_sub (cr_position r) 1)) (\<lambda>n.
     andThen (push (of_nat n)) (\<lambda>_. ret IR_Ok)))"
| "exec_flow C gas MSIZE = andThen (it_get it_mem) (\<lambda>m.
     andThen (push (of_nat (mem_size m))) (\<lambda>_. ret IR_Ok))"
| "exec_flow C gas GAS = andThen (push (as_u256 gas)) (\<lambda>_. ret IR_Ok)"
| "exec_flow C gas JUMPDEST = ret IR_Ok"
| "exec_flow C gas BEGINSUB = throw InvalidSubEntry"
| "exec_flow C gas RETURNSUB = andThen (it_get it_return_stack) (\<lambda>rs.
     if rs \<noteq> [] then
       andThen (it_mod (\<lambda>i. i\<lparr>it_return_stack := butlast rs\<rparr>)) (\<lambda>_.
       ret (ReturnFromSubroutine (last rs)))
     else throw (SubStackUnderflow 1 0))"
| "exec_flow C gas JUMPSUB = andThen (it_get it_return_stack) (\<lambda>rs.
     if MAX_SUB_STACK_SIZE \<le> length rs then throw (OutOfSubStack 1 MAX_SUB_STACK_SIZE)
     else andThen pop (\<lambda>dest. ret (JumpToSubroutine dest)))"

definition exec_sha3 :: "(Bytes \<Rightarrow> H256) \<Rightarrow> ('c, 'k, 'ctx, unit) iop" where
  "exec_sha3 keccak = andThen pop (\<lambda>off. andThen pop (\<lambda>sz.
     andThen (it_get it_mem) (\<lambda>m. andThen (lift_outcome (mem_read_slice off sz m)) (\<lambda>bs.
     push (keccak bs)))))"

definition exec_log :: "'ctx Context \<Rightarrow> Instruction \<Rightarrow> ('c, 'k, 'ctx, unit) iop" where
  "exec_log C i = andThen (lift_outcome (expect (log_topics i))) (\<lambda>n.
     andThen pop (\<lambda>off. andThen pop (\<lambda>sz. andThen (on_stack (vs_pop_n n)) (\<lambda>topics.
     andThen (it_get it_mem) (\<lambda>m. andThen (lift_outcome (mem_read_slice off sz m)) (\<lambda>bs.
     on_ctx (ctx_log C topics bs)))))))"

section \<open>Creations and calls\<close>

text \<open>Returning the gas of a finished sub-frame; a figure outside the cost type panics.\<close>

definition unused_gas :: "U256 \<Rightarrow> ('c::len, 'k, 'ctx, 'c word InstructionResult) iop" where
  "unused_gas gas_left = andThen (lift_outcome (expect_ok (from_u256 gas_left))) (\<lambda>g. ret (UnusedGas g))"

definition exec_create ::
  "'ctx Context \<Rightarrow> SysOp \<Rightarrow> 'c::len word option \<Rightarrow> ('c, 'k, 'ctx, 'c word InstructionResult) iop" where
  "exec_create C op provided =
     andThen pop (\<lambda>endowment. andThen pop (\<lambda>init_off. andThen pop (\<lambda>init_size.
     andThen (if op = CREATE then ret FromSenderNonce
              else andThen pop (\<lambda>h. ret (FromSenderSaltAndCodeHash h))) (\<lambda>address_scheme.
     andThen (lift_outcome (expect provided)) (\<lambda>create_gas.
     andThen (on_ctx (gets (ctx_is_static C))) (\<lambda>static.
     if static then throw MutableCallInStaticContext
     else andThen (it_mod (\<lambda>i. i\<lparr>it_return_data := rd_empty\<rparr>)) (\<lambda>_.
     andThen (it_get it_params) (\<lambda>p.
     andThen (on_ctx (ctx_balance C (ip_address p))) (\<lambda>bal.
     andThen (on_ctx (gets (\<lambda>c. ctx_depth C c < max_depth (ctx_spec C c)))) (\<lambda>shallow.
     if \<not> (bal \<ge> endowment \<and> shallow) then
       andThen (push 0) (\<lambda>_. ret (UnusedGas create_gas))
     else andThen (it_get it_mem) (\<lambda>m.
       andThen (lift_outcome (mem_read_slice init_off init_size m)) (\<lambda>contract_code.
       andThen (on_ctx (map_op_err StateDbError
                 (ctx_create C (as_u256 create_gas) endowment contract_code address_scheme))) (\<lambda>result.
       case result of
         Inl (Created address gas_left) \<Rightarrow> panic
       | Inl (Create_Reverted gas_left return_data) \<Rightarrow>
           andThen (push 0) (\<lambda>_.
           andThen (it_mod (\<lambda>i. i\<lparr>it_return_data := return_data\<rparr>)) (\<lambda>_. unused_gas gas_left))
       | Inl (Create_Failed _) \<Rightarrow> andThen (push 0) (\<lambda>_. ret IR_Ok)
       | Inr trap \<Rightarrow> ret (IR_Trap trap))))))))))))))"

text \<open>The copy of a sub-frame's output into the range the caller named.\<close>

definition write_output :: "U256 \<Rightarrow> U256 \<Rightarrow> ReturnData \<Rightarrow> ('c, 'k, 'ctx, unit) iop" where
  "write_output out_off out_size data =
     andThen (it_get it_mem) (\<lambda>m.
     andThen (lift_outcome (mem_writeable_slice out_off out_size m)) (\<lambda>(off, n).
     andThen (lift_outcome (rd_deref data)) (\<lambda>d.
     it_mod (\<lambda>i. i\<lparr>it_mem := overwrite m off (take (min n (length d)) d)\<rparr>))))"

definition call_parties ::
  "'ctx Context \<Rightarrow> SysOp \<Rightarrow> Address \<Rightarrow> U256 option \<Rightarrow>
     ('c, 'k, 'ctx, Address \<times> Address \<times> bool \<times> CallType) iop" where
  "call_parties C op code_address value =
     andThen (it_get it_params) (\<lambda>p.
     if op = CALL then
       andThen (on_ctx (gets (ctx_is_static C))) (\<lambda>static.
       if static \<and> (case value of None \<Rightarrow> False | Some v \<Rightarrow> v \<noteq> 0) then throw MutableCallInStaticContext
       else andThen (on_ctx (ctx_balance C (ip_address p))) (\<lambda>bal.
            andThen (lift_outcome (expect value)) (\<lambda>v.
            ret (ip_address p, code_address, bal \<ge> v, CallType_Call))))
     else if op = CALLCODE then
       andThen (on_ctx (ctx_balance C (ip_address p))) (\<lambda>bal.
       andThen (lift_outcome (expect value)) (\<lambda>v.
       ret (ip_address p, ip_address p, bal \<ge> v, CallType_CallCode)))
     else if op = DELEGATECALL then ret (ip_sender p, ip_address p, True, CallType_DelegateCall)
     else if op = STATICCALL then ret (ip_address p, code_address, True, CallType_StaticCall)
     else panic)"

definition exec_call ::
  "'ctx Context \<Rightarrow> SysOp \<Rightarrow> 'c::len word option \<Rightarrow> ('c, 'k, 'ctx, 'c word InstructionResult) iop" where
  "exec_call C op provided =
     andThen (on_ctx (gets (ctx_spec C))) (\<lambda>spec.
     if \<not> call_value_transfer_gas spec > call_stipend spec then panic
     else andThen pop (\<lambda>_. andThen (lift_outcome (expect provided)) (\<lambda>call_gas.
     andThen pop (\<lambda>a. let code_address = u256_to_address a in
     andThen (if op = DELEGATECALL then ret None
              else if op = STATICCALL then ret (Some 0)
              else andThen pop (\<lambda>v. ret (Some v))) (\<lambda>value.
     andThen pop (\<lambda>in_off. andThen pop (\<lambda>in_size. andThen pop (\<lambda>out_off. andThen pop (\<lambda>out_size.
     andThen (lift_outcome (word_add call_gas (case value of
                None \<Rightarrow> 0
              | Some v \<Rightarrow> if v = 0 then 0 else from_usize (call_stipend spec)))) (\<lambda>call_gas.
     andThen (call_parties C op code_address value)
       (\<lambda>(sender_address, receive_address, has_balance, call_type).
     andThen (it_mod (\<lambda>i. i\<lparr>it_return_data := rd_empty\<rparr>)) (\<lambda>_.
     andThen (on_ctx (gets (\<lambda>c. ctx_depth C c < max_depth (ctx_spec C c)))) (\<lambda>shallow.
     if \<not> (has_balance \<and> shallow) then
       andThen (push 0) (\<lambda>_. ret (UnusedGas call_gas))
     else andThen (it_get it_mem) (\<lambda>m.
       andThen (lift_outcome (mem_read_slice in_off in_size m)) (\<lambda>input.
       andThen (on_ctx (map_op_err StateDbError (ctx_call C (as_u256 call_gas) sender_address
                 receive_address value input code_address call_type))) (\<lambda>result.
       andThen (it_mod (\<lambda>i. i\<lparr>it_resume_output_range := Some (out_off, out_size)\<rparr>)) (\<lambda>_.
       case result of
         Inl (Call_Success gas_left data) \<Rightarrow>
           andThen (write_output out_off out_size data) (\<lambda>_.
           andThen (push 1) (\<lambda>_.
           andThen (it_mod (\<lambda>i. i\<lparr>it_return_data := data\<rparr>)) (\<lambda>_. unused_gas gas_left)))
       | Inl (Call_Reverted gas_left data) \<Rightarrow>
           andThen (write_output out_off out_size data) (\<lambda>_.
           andThen (push 0) (\<lambda>_.
           andThen (it_mod (\<lambda>i. i\<lparr>it_return_data := data\<rparr>)) (\<lambda>_. unused_gas gas_left)))
       | Inl (Call_Failed _) \<Rightarrow> andThen (push 0) (\<lambda>_. ret IR_Ok)
       | Inr trap \<Rightarrow> ret (IR_Trap trap))))))))))))))))))"

primrec exec_sys ::
  "'ctx Context \<Rightarrow> 'c::len word \<Rightarrow> 'c word option \<Rightarrow> SysOp \<Rightarrow> ('c, 'k, 'ctx, 'c word InstructionResult) iop" where
  "exec_sys C gas provided CREATE = exec_create C CREATE provided"
| "exec_sys C gas provided CREATE2 = exec_create C CREATE2 provided"
| "exec_sys C gas provided CALL = exec_call C CALL provided"
| "exec_sys C gas provided CALLCODE = exec_call C CALLCODE provided"
| "exec_sys C gas provided DELEGATECALL = exec_call C DELEGATECALL provided"
| "exec_sys C gas provided STATICCALL = exec_call C STATICCALL provided"
| "exec_sys C gas provided RETURN = andThen pop (\<lambda>off. andThen pop (\<lambda>sz.
     ret (StopExecutionNeedsReturn gas off sz True)))"
| "exec_sys C gas provided REVERT = andThen pop (\<lambda>off. andThen pop (\<lambda>sz.
     ret (StopExecutionNeedsReturn gas off sz False)))"
| "exec_sys C gas provided SUICIDE = andThen pop (\<lambda>a.
     andThen (on_ctx (gets (ctx_spec C))) (\<lambda>spec.
     andThen (on_ctx (ctx_suicide C (u256_to_address a) (account_start_nonce spec))) (\<lambda>_.
     ret StopExecution)))"

section \<open>One instruction\<close>

definition and_ok :: "('c, 'k, 'ctx, unit) iop \<Rightarrow> ('c, 'k, 'ctx, 'c word InstructionResult) iop" where
  "and_ok m = andThen m (\<lambda>_. ret IR_Ok)"

definition exec_instruction ::
  "(Bytes \<Rightarrow> H256) \<Rightarrow> 'ctx Context \<Rightarrow> 'c::len word \<Rightarrow> Instruction \<Rightarrow> 'c word option \<Rightarrow>
     ('c, 'k, 'ctx, 'c word InstructionResult) iop" where
  "exec_instruction keccak C gas i provided = (case i of
     STOP \<Rightarrow> ret StopExecution
   | Arith op \<Rightarrow> and_ok (exec_arith op)
   | Logic op \<Rightarrow> and_ok (exec_logic op)
   | SHA3 \<Rightarrow> and_ok (exec_sha3 keccak)
   | EnvI op \<Rightarrow> and_ok (exec_env C op)
   | BlockI op \<Rightarrow> and_ok (exec_block C op)
   | Flow op \<Rightarrow> exec_flow C gas op
   | PUSH _ \<Rightarrow> and_ok (exec_push i)
   | DUP _ \<Rightarrow> and_ok (exec_dup i)
   | SWAP _ \<Rightarrow> and_ok (exec_swap i)
   | LOG _ \<Rightarrow> and_ok (exec_log C i)
   | Sys op \<Rightarrow> exec_sys C gas provided op)"

definition verify_instruction ::
  "Spec \<Rightarrow> InstructionInfo \<Rightarrow> U256 VecStack \<Rightarrow> unit vm_result" where
  "verify_instruction spec nfo st =
     (if \<not> vs_has (info_args nfo) st
      then Err (StackUnderflow (info_name nfo) (info_args nfo) (vs_size st))
      else bind (usize_sub (vs_size st) (info_args nfo)) (\<lambda>d.
           bind (usize_add d (info_ret nfo)) (\<lambda>after.
           if after > stack_limit spec
           then bind (usize_sub (info_ret nfo) (info_args nfo)) (\<lambda>wanted.
                Err (OutOfStack (info_name nfo) wanted (stack_limit spec)))
           else Ok ())))"

definition verify_jump :: "U256 \<Rightarrow> nat set \<Rightarrow> usize vm_result" where
  "verify_jump jump_u valid =
     (let jump = low_u64 jump_u in
      if jump \<in> valid \<and> of_nat jump = jump_u then Ok jump else Err (BadJumpDestination jump))"

section \<open>The step\<close>

abbreviation gasometer_op :: "('c, 'k, 'ctx, 'c word Gasometer) iop" where
  "gasometer_op \<equiv> andThen (it_get it_gasometer) (\<lambda>g. lift_outcome (expect g))"

definition set_gasometer :: "'c word Gasometer \<Rightarrow> ('c, 'k, 'ctx, unit) iop" where
  "set_gasometer g = it_mod (\<lambda>i. i\<lparr>it_gasometer := Some g\<rparr>)"

text \<open>Fetching, checking, charging and executing the instruction at the program counter.\<close>

definition fetch_and_exec ::
  "(Bytes \<Rightarrow> H256) \<Rightarrow> 'ctx Context \<Rightarrow> ('c::len, 'k, 'ctx, 'c word InstructionResult) iop" where
  "fetch_and_exec keccak C =
     andThen (it_get it_reader) (\<lambda>r.
     andThen (lift_outcome (index (cr_code r) (cr_position r))) (\<lambda>opcode.
     andThen (it_mod (\<lambda>i. i\<lparr>it_reader := r\<lparr>cr_position := cr_position r + 1\<rparr>\<rparr>)) (\<lambda>_.
     case from_u8 opcode of
       None \<Rightarrow> throw (BadInstruction opcode)
     | Some instruction \<Rightarrow>
     andThen (lift_outcome (info instruction)) (\<lambda>nfo.
     andThen (it_mod (\<lambda>i. i\<lparr>it_last_stack_ret_len := info_ret nfo\<rparr>)) (\<lambda>_.
     andThen (on_ctx (gets (ctx_spec C))) (\<lambda>spec.
     andThen (it_get it_stack) (\<lambda>st.
     andThen (lift_outcome (verify_instruction spec nfo st)) (\<lambda>_.
     andThen gasometer_op (\<lambda>gm.
     andThen (it_get it_mem) (\<lambda>m.
     andThen (on_ctx (requirements C gm instruction nfo st (mem_size m))) (\<lambda>req.
     andThen (lift_outcome (verify_gas gm (req_gas_cost req))) (\<lambda>_.
     andThen (it_mod (\<lambda>i. i\<lparr>it_mem := mem_expand (req_memory_required_size req) m\<rparr>)) (\<lambda>_.
     andThen (lift_outcome (word_sub (current_gas gm) (req_gas_cost req))) (\<lambda>gas.
     andThen (set_gasometer \<lparr>current_gas = gas, current_mem_gas = req_memory_total_gas req\<rparr>) (\<lambda>_.
     exec_instruction keccak C gas instruction (req_provide_gas req))))))))))))))))"

definition destinations ::
  "'k CacheEnv \<Rightarrow> (('c word, 'k) Interpreter \<Rightarrow> nat set option) \<Rightarrow>
   (nat set option \<Rightarrow> ('c word, 'k) Interpreter \<Rightarrow> ('c word, 'k) Interpreter) \<Rightarrow>
   (nat set \<times> nat set \<Rightarrow> nat set) \<Rightarrow> ('c, 'k, 'ctx, nat set) iop" where
  "destinations K get put sel =
     andThen (it_get (\<lambda>i. i)) (\<lambda>i.
     case get i of
       Some d \<Rightarrow> ret d
     | None \<Rightarrow>
         (case jump_and_sub_destinations K (ip_code_hash (it_params i)) (cr_code (it_reader i)) (it_cache i) of
            Some (Ok ds, c) \<Rightarrow> andThen (it_mod (\<lambda>i. put (Some (sel ds)) (i\<lparr>it_cache := c\<rparr>))) (\<lambda>_. ret (sel ds))
          | Some (_, c) \<Rightarrow> andThen (it_mod (\<lambda>i. i\<lparr>it_cache := c\<rparr>)) (\<lambda>_. panic)
          | None \<Rightarrow> panic))"

definition set_position :: "usize \<Rightarrow> ('c, 'k, 'ctx, unit) iop" where
  "set_position pos = it_mod (\<lambda>i. i\<lparr>it_reader := (it_reader i)\<lparr>cr_position := pos\<rparr>\<rparr>)"

text \<open>What a step does with the result of the instruction: \<open>Some r\<close> ends the step with \<open>r\<close>.\<close>

definition advance ::
  "'k CacheEnv \<Rightarrow> 'c::len word InstructionResult \<Rightarrow> ('c, 'k, 'ctx, InterpreterResult option) iop" where
  "advance K result = (case result of
     JumpToPosition position \<Rightarrow>
       andThen (destinations K it_valid_jump_destinations
                 (\<lambda>d i. i\<lparr>it_valid_jump_destinations := d\<rparr>) fst) (\<lambda>ds.
       andThen (lift_outcome (verify_jump position ds)) (\<lambda>pos.
       andThen (set_position pos) (\<lambda>_. ret None)))
   | JumpToSubroutine position \<Rightarrow>
       andThen (destinations K it_valid_subroutine_destinations
                 (\<lambda>d i. i\<lparr>it_valid_subroutine_destinations := d\<rparr>) snd) (\<lambda>ds.
       andThen (lift_outcome (verify_jump position ds)) (\<lambda>pos.
       andThen (it_mod (\<lambda>i. i\<lparr>it_return_stack := it_return_stack i @ [cr_position (it_reader i)]\<rparr>)) (\<lambda>_.
       andThen (lift_outcome (usize_add pos 1)) (\<lambda>next.
       andThen (set_position next) (\<lambda>_. ret None)))))
   | ReturnFromSubroutine pos \<Rightarrow> andThen (set_position pos) (\<lambda>_. ret None)
   | StopExecutionNeedsReturn gas init_off init_size apply_state \<Rightarrow>
       andThen (it_get it_mem) (\<lambda>m.
       andThen (it_mod (\<lambda>i. i\<lparr>it_mem := []\<rparr>)) (\<lambda>_.
       andThen (lift_outcome (into_return_data init_off init_size m)) (\<lambda>data.
       ret (Some (Done (Ok (NeedsReturn (as_u256 gas) data apply_state)))))))
   | StopExecution \<Rightarrow>
       andThen gasometer_op (\<lambda>gm. ret (Some (Done (Ok (Known (as_u256 (current_gas gm)))))))
   | _ \<Rightarrow> ret None)"

text \<open>An early \<open>return Done(Err(e))\<close> of \<open>step_inner\<close> is the outcome \<open>Err e\<close> here.\<close>

definition step_inner ::
  "(Bytes \<Rightarrow> H256) \<Rightarrow> 'k CacheEnv \<Rightarrow> 'ctx Context \<Rightarrow> ('c::len, 'k, 'ctx, InterpreterResult) iop" where
  "step_inner keccak K C =
     andThen (it_get it_resume_result) (\<lambda>resume.
     andThen (case resume of
        Some result \<Rightarrow> andThen (it_mod (\<lambda>i. i\<lparr>it_resume_result := None\<rparr>)) (\<lambda>_. ret result)
      | None \<Rightarrow> fetch_and_exec keccak C) (\<lambda>result.
     case result of
       IR_Trap trap \<Rightarrow> ret (Int_Trap trap)
     | _ \<Rightarrow>
       andThen (case result of
          UnusedGas g \<Rightarrow> andThen gasometer_op (\<lambda>gm.
            andThen (lift_outcome (word_add (current_gas gm) g)) (\<lambda>gas.
            set_gasometer (gm\<lparr>current_gas := gas\<rparr>)))
        | _ \<Rightarrow> ret ()) (\<lambda>_.
       andThen (advance K result) (\<lambda>r.
       case r of
         Some res \<Rightarrow> ret res
       | None \<Rightarrow>
           andThen (it_get it_reader) (\<lambda>rd.
           if length (cr_code rd) \<le> cr_position rd
           then andThen gasometer_op (\<lambda>gm. ret (Done (Ok (Known (as_u256 (current_gas gm))))))
           else ret Continue)))))"

definition step ::
  "(Bytes \<Rightarrow> H256) \<Rightarrow> 'k CacheEnv \<Rightarrow> 'ctx Context \<Rightarrow> ('c::len, 'k, 'ctx, InterpreterResult) iop" where
  "step keccak K C =
     andThen (it_get it_done) (\<lambda>finished.
     if finished then ret Stopped
     else andThen (it_get (\<lambda>i. i)) (\<lambda>i.
     andThen (case it_gasometer i of
        None \<Rightarrow> ret (Done (Err OutOfGas))
      | Some gm \<Rightarrow>
          if cr_code (it_reader i) = [] then ret (Done (Ok (Known (as_u256 (current_gas gm)))))
          else (\<lambda>s. case step_inner keccak K C s of
                  (Err e, s') \<Rightarrow> (Ok (Done (Err e)), s')
                | r \<Rightarrow> r)) (\<lambda>result.
     case result of
       Done _ \<Rightarrow> andThen (it_mod (\<lambda>i. i\<lparr>it_done := True\<rparr>)) (\<lambda>_. ret result)
     | _ \<Rightarrow> ret result)))"

section \<open>The loop and resuming\<close>

datatype (plugins only: code size) ExecResult =
    Return "GasLeft vm_result"
  | SubCall ActionParams
  | SubCreate ActionParams

text \<open>The loop of \<open>exec\<close> with a bound on its steps; \<open>None\<close> is a loop that has not ended.\<close>

fun exec_loop ::
  "(Bytes \<Rightarrow> H256) \<Rightarrow> 'k CacheEnv \<Rightarrow> 'ctx Context \<Rightarrow> nat \<Rightarrow> ('c::len word, 'k) Interpreter \<times> 'ctx \<Rightarrow>
     ((Error, ExecResult) outcome \<times> ('c word, 'k) Interpreter \<times> 'ctx) option" where
  "exec_loop keccak K C 0 s = None"
| "exec_loop keccak K C (Suc n) s = (case step keccak K C s of
     (Ok Continue, s') \<Rightarrow> exec_loop keccak K C n s'
   | (Ok (Done v), s') \<Rightarrow> Some (Ok (Return v), s')
   | (Ok (Int_Trap (Trap_Call p)), s') \<Rightarrow> Some (Ok (SubCall p), s')
   | (Ok (Int_Trap (Trap_Create p)), s') \<Rightarrow> Some (Ok (SubCreate p), s')
   | (Ok Stopped, s') \<Rightarrow> Some (Panic, s')
   | (Err e, s') \<Rightarrow> Some (Err e, s')
   | (Panic, s') \<Rightarrow> Some (Panic, s'))"

definition resume_with_data ::
  "U256 \<Rightarrow> U256 \<Rightarrow> U256 \<Rightarrow> U256 \<Rightarrow> ReturnData \<Rightarrow> ('c::len, 'k, 'ctx, unit) iop" where
  "resume_with_data flag out_off out_size gas_left data =
     andThen (write_output out_off out_size data) (\<lambda>_.
     andThen (it_mod (\<lambda>i. i\<lparr>it_return_data := data\<rparr>)) (\<lambda>_.
     andThen (push flag) (\<lambda>_.
     andThen (lift_outcome (expect_ok (from_u256 gas_left))) (\<lambda>g.
     it_mod (\<lambda>i. i\<lparr>it_resume_result := Some (UnusedGas g)\<rparr>)))))"

definition resume_call :: "MessageCallResult \<Rightarrow> ('c::len, 'k, 'ctx, unit) iop" where
  "resume_call result =
     andThen (it_get it_resume_output_range) (\<lambda>range.
     andThen (it_mod (\<lambda>i. i\<lparr>it_resume_output_range := None\<rparr>)) (\<lambda>_.
     andThen (lift_outcome (expect range)) (\<lambda>(out_off, out_size).
     case result of
       Call_Success gas_left data \<Rightarrow> resume_with_data 1 out_off out_size gas_left data
     | Call_Reverted gas_left data \<Rightarrow> resume_with_data 0 out_off out_size gas_left data
     | Call_Failed _ \<Rightarrow>
         andThen (push 0) (\<lambda>_. it_mod (\<lambda>i. i\<lparr>it_resume_result := Some IR_Ok\<rparr>)))))"

definition resume_create :: "ContractCreateResult \<Rightarrow> ('c::len, 'k, 'ctx, unit) iop" where
  "resume_create result = (case result of
     Created address gas_left \<Rightarrow>
       andThen (push (address_to_u256 address)) (\<lambda>_.
       andThen (lift_outcome (expect_ok (from_u256 gas_left))) (\<lambda>g.
       it_mod (\<lambda>i. i\<lparr>it_resume_result := Some (UnusedGas g)\<rparr>)))
   | Create_Reverted gas_left return_data \<Rightarrow>
       andThen (push 0) (\<lambda>_.
       andThen (it_mod (\<lambda>i. i\<lparr>it_return_data := return_data\<rparr>)) (\<lambda>_.
       andThen (lift_outcome (expect_ok (from_u256 gas_left))) (\<lambda>g.
       it_mod (\<lambda>i. i\<lparr>it_resume_result := Some (UnusedGas g)\<rparr>))))
   | Create_Failed _ \<Rightarrow>
       andThen (push 0) (\<lambda>_. it_mod (\<lambda>i. i\<lparr>it_resume_result := Some IR_Ok\<rparr>)))"

end
