(* ===== verification/Interp_Wp.thy ===== *)
theory Interp_Wp
  imports Evm_Interpreter
begin

text \<open>
  The calculus the proofs about the interpreter use: how \<open>wp\<close> unfolds over the
  operations on the parts of the state, and the effect of the shared helpers,
  \<open>copy_data_to_memory\<close>, \<open>write_output\<close> and the reading of push data.
\<close>

named_theorems wp_simps \<open>rewriting the guarantee of an operation\<close>

lemma wp_ret_eq [wp_simps]: "wp (ret x) Q s = Q (Ok x) s"
  by (simp add: wp_def)

lemma wp_gets_eq [wp_simps]: "wp (gets f) Q s = Q (Ok (f s)) s"
  by (simp add: wp_def)

lemma wp_modify_eq [wp_simps]: "wp (modify g) Q s = Q (Ok ()) (g s)"
  by (simp add: wp_def)

lemma wp_lift_eq [wp_simps]: "wp (lift_outcome r) Q s \<longleftrightarrow> r \<noteq> Panic \<and> Q r s"
  by (simp add: wp_def)

lemma wp_andThen_eq [wp_simps]:
  "wp (andThen m f) Q s =
     wp m (\<lambda>r s'. case r of Ok x \<Rightarrow> wp (f x) Q s' | Err e \<Rightarrow> Q (Err e) s' | Panic \<Rightarrow> False) s"
  by (auto simp: wp_def andThen_def split: prod.splits outcome.splits)

lemma wp_if [wp_simps]: "wp (if b then m else n) Q s = (if b then wp m Q s else wp n Q s)"
  by simp

lemma wp_it_get [wp_simps]: "wp (it_get g) Q (i, c) = Q (Ok (g i)) (i, c)"
  by (simp add: it_get_def wp_simps)

lemma wp_it_mod [wp_simps]: "wp (it_mod h) Q (i, c) = Q (Ok ()) (h i, c)"
  by (simp add: it_mod_def wp_simps)

lemma wp_on_ctx: "wp (on_ctx m) Q (i, c) = wp m (\<lambda>r c'. Q r (i, c')) c"
  by (auto simp: on_ctx_def zoom_def wp_def split: prod.splits)

lemma wp_on_ctx_gets [wp_simps]: "wp (on_ctx (gets f)) Q (i, c) = Q (Ok (f c)) (i, c)"
  by (simp add: wp_on_ctx wp_simps)

lemma wp_on_stack: "wp (on_stack m) Q (i, c) = wp m (\<lambda>r st. Q r (i\<lparr>it_stack := st\<rparr>, c)) (it_stack i)"
  by (auto simp: on_stack_def zoom_def wp_def split: prod.splits)

text \<open>The stack after its items are replaced.\<close>

definition set_items :: "'a list \<Rightarrow> 'a VecStack \<Rightarrow> 'a VecStack" where
  "set_items xs s = s\<lparr>vs_stack := rev xs\<rparr>"

lemma set_items [simp]:
  "vs_items (set_items xs s) = xs" "vs_size (set_items xs s) = length xs"
  "vs_wf (set_items xs s) = vs_wf s" "set_items xs (set_items ys s) = set_items xs s"
  "set_items (vs_items s) s = s"
  by (simp_all add: set_items_def vs_items_def vs_size_def vs_wf_def)

lemma wp_pop [wp_simps]:
  "wp pop Q (i, c) = (case vs_items (it_stack i) of
     [] \<Rightarrow> False
   | x # xs \<Rightarrow> Q (Ok x) (i\<lparr>it_stack := set_items xs (it_stack i)\<rparr>, c))"
proof (cases "vs_items (it_stack i)")
  case Nil
  then show ?thesis unfolding wp_on_stack by (simp add: wp_def vec.pop_empty)
next
  case (Cons x xs)
  then show ?thesis unfolding wp_on_stack by (simp add: wp_def vs_pop_back_run set_items_def)
qed

lemma wp_push [wp_simps]:
  "wp (push v) Q (i, c) = Q (Ok ()) (i\<lparr>it_stack := set_items (v # vs_items (it_stack i)) (it_stack i)\<rparr>, c)"
  unfolding wp_on_stack by (simp add: wp_def vs_push_run set_items_def vs_items_def)

lemma wp_peek [wp_simps]:
  "wp (on_stack (vs_peek n)) Q (i, c) \<longleftrightarrow>
     n < vs_size (it_stack i) \<and> Q (Ok (vs_items (it_stack i) ! n)) (i, c)"
  unfolding wp_on_stack by (simp add: wp_def vs_peek_run)

lemma wp_swap [wp_simps]:
  assumes "n < vs_size (it_stack i)"
  shows "wp (on_stack (vs_swap_with_top n)) Q (i, c) =
     Q (Ok ()) (i\<lparr>it_stack := set_items ((vs_items (it_stack i))
        [0 := vs_items (it_stack i) ! n, n := vs_items (it_stack i) ! 0]) (it_stack i)\<rparr>, c)"
proof -
  from vs_swap_run [OF assms] obtain xs where
    "vs_swap_with_top n (it_stack i) = (Ok () :: unit vm_result, it_stack i\<lparr>vs_stack := xs\<rparr>)"
    "rev xs = (vs_items (it_stack i))[0 := vs_items (it_stack i) ! n, n := vs_items (it_stack i) ! 0]"
    by blast
  then show ?thesis unfolding wp_on_stack by (simp add: wp_def set_items_def rev_swap)
qed

lemma wp_on_mem [wp_simps]:
  "wp (on_mem f) Q (i, c) = (case f (it_mem i) of
     Ok m \<Rightarrow> Q (Ok ()) (i\<lparr>it_mem := m\<rparr>, c)
   | Err e \<Rightarrow> Q (Err e) (i, c)
   | Panic \<Rightarrow> False)"
  by (simp add: on_mem_def wp_simps split: outcome.split)

section \<open>Copying into memory\<close>

text \<open>\<open>n\<close> bytes of a vector from a position on, continued by zeros past its end.\<close>

definition padded :: "Bytes \<Rightarrow> nat \<Rightarrow> nat \<Rightarrow> Bytes" where
  "padded source off n = map (\<lambda>i. if off + i < length source then source ! (off + i) else 0) [0..<n]"

lemma length_padded [simp]: "length (padded source off n) = n"
  by (simp add: padded_def)

lemma padded_nth: "i < n \<Longrightarrow> padded source off n ! i = (if off + i < length source then source ! (off + i) else 0)"
  by (simp add: padded_def)

lemma overwrite_Nil [simp]: "overwrite m off [] = m"
  by (simp add: overwrite_def)

lemma zero_fill_run:
  assumes "low_u64 len = 0 \<or> low_u64 off + low_u64 len \<le> length m" "length m \<le> usize_MAX"
  shows "zero_fill off len m = Ok (overwrite m (low_u64 off) (replicate (low_u64 len) 0))"
  using assms
  by (auto simp: zero_fill_def mem_writeable_slice_def is_valid_range_def slice_def Let_def)

lemma padded_past: "length source \<le> off \<Longrightarrow> padded source off n = replicate n 0"
  by (rule nth_equalityI) (auto simp: padded_nth)

lemma padded_tail:
  "off \<le> length source \<Longrightarrow> length source \<le> off + n \<Longrightarrow>
   padded source off n = drop off source @ replicate (off + n - length source) 0"
  by (rule nth_equalityI) (auto simp: padded_nth nth_append)

lemma padded_inside: "off + n \<le> length source \<Longrightarrow> padded source off n = take n (drop off source)"
  by (rule nth_equalityI) (auto simp: padded_nth)

lemma overwrite_append:
  "d + length xs + length ys \<le> length m \<Longrightarrow>
   overwrite (overwrite m (d + length xs) ys) d xs = overwrite m d (xs @ ys)"
  by (rule nth_equalityI) (auto simp: overwrite_nth nth_append)

lemma unat_small_add:
  "unat (a :: U256) \<le> usize_MAX \<Longrightarrow> unat b \<le> usize_MAX \<Longrightarrow>
   word_add a b = (Ok (a + b) :: U256 vm_result) \<and> unat (a + b) = unat a + unat b"
  by (auto simp: word_add_def usize_MAX_def unat_add_exact)

lemma wp_copy_data_zero:
  assumes items: "vs_items (it_stack i) = dest # src # 0 # rest" and L: "length source \<le> usize_MAX"
    and mem: "length (it_mem i) \<le> usize_MAX"
    and Q: "Q (Ok ()) (i\<lparr>it_stack := set_items rest (it_stack i)\<rparr>, c)"
  shows "wp (copy_data_to_memory source) Q (i, c)"
proof -
  have u: "unat (of_nat (length source) :: U256) = length source"
    using L by (intro unat_of_nat_exact) (simp add: usize_MAX_def)
  have low: "low_u64 src = unat src" if "unat src \<le> length source"
    using that L by (intro low_u64_small) (simp add: usize_MAX_def)
  have z: "low_u64 (0 :: U256) = 0" by (simp add: low_u64_def)
  note zf = zero_fill_run [of 0 dest "it_mem i"]
  have Q': "Q (Ok ()) (i\<lparr>it_mem := it_mem i, it_stack := set_items rest (it_stack i)\<rparr>, c)" using Q by simp
  show ?thesis
    using u low L mem z zf Q Q' unat_lt_exp [of src]
    by (auto simp: copy_data_to_memory_def wp_simps items Let_def word_less_nat_alt word_add_def usize_add_def
        slice_def mem_write_slice_def)
qed

lemma wp_copy_data_pos:
  assumes items: "vs_items (it_stack i) = dest # src # sz # rest" and L: "length source \<le> usize_MAX"
    and sz: "sz \<noteq> 0" and fit: "unat dest + unat sz \<le> length (it_mem i)" and mem: "length (it_mem i) \<le> usize_MAX"
    and Q: "Q (Ok ()) (i\<lparr>it_stack := set_items rest (it_stack i),
       it_mem := overwrite (it_mem i) (unat dest) (padded source (unat src) (unat sz))\<rparr>, c)"
  shows "wp (copy_data_to_memory source) Q (i, c)"
proof -
  let ?n = "of_nat (length source) :: U256"
  have u: "unat ?n = length source"
    using L by (intro unat_of_nat_exact) (simp add: usize_MAX_def)
  have lows: "low_u64 v = unat v" if "unat v \<le> usize_MAX" for v :: U256
    using that by (intro low_u64_small) (simp add: usize_MAX_def)
  have small: "unat dest \<le> usize_MAX" "unat sz \<le> usize_MAX" using fit mem by simp_all
  consider (past) "length source < unat src"
    | (tail) "unat src \<le> length source" "length source < unat src + unat sz"
    | (inside) "unat src + unat sz \<le> length source" by linarith
  then show ?thesis
  proof cases
    case past
    have "zero_fill dest sz (it_mem i) = Ok (overwrite (it_mem i) (unat dest) (replicate (unat sz) 0))"
      using fit mem small by (subst zero_fill_run) (simp_all add: lows)
    with past Q show ?thesis
      by (simp add: copy_data_to_memory_def wp_simps items Let_def word_less_nat_alt u padded_past)
  next
    case tail
    then have s: "unat src \<le> usize_MAX" using L by simp
    note e = unat_small_add [OF s small(2)] and d = unat_small_add [OF small(1), of ?n]
    define off where "off = dest + ?n - src"
    define len where "len = src + sz - ?n"
    have ds: "word_sub (dest + ?n) src = (Ok off :: U256 vm_result)" "unat off = unat dest + (length source - unat src)"
      using tail d u L by (auto simp: off_def word_sub_def word_le_nat_alt unat_sub_exact)
    have le: "word_sub (src + sz) ?n = (Ok len :: U256 vm_result)" "unat len = unat src + unat sz - length source"
      using tail e u L by (auto simp: len_def word_sub_def word_le_nat_alt unat_sub_exact)
    have lenok: "unat off + unat len \<le> length (it_mem i)" using tail fit ds le by simp
    have "zero_fill off len (it_mem i) = Ok (overwrite (it_mem i) (unat off) (replicate (unat len) 0))"
      using lenok mem by (subst zero_fill_run) (simp_all add: lows)
    moreover have "overwrite (overwrite (it_mem i) (unat off) (replicate (unat len) 0)) (unat dest) (drop (unat src) source) =
        overwrite (it_mem i) (unat dest) (padded source (unat src) (unat sz))"
      using overwrite_append [of "unat dest" "drop (unat src) source" "replicate (unat len) 0" "it_mem i"] tail lenok ds le
      by (simp add: padded_tail)
    moreover have "mem_write_slice dest (drop (unat src) source) m = (Ok (overwrite m (unat dest) (drop (unat src) source)) :: Bytes vm_result)"
      if "length m = length (it_mem i)" for m
      using that tail fit mem small by (subst mem_write_slice_run) (simp_all add: lows)
    ultimately show ?thesis using tail Q e d ds le s u L lenok
      by (auto simp: copy_data_to_memory_def wp_simps items Let_def word_less_nat_alt lows slice_def)
  next
    case inside
    then have s: "unat src \<le> usize_MAX" using L by simp
    note e = unat_small_add [OF s small(2)]
    have "0 < unat sz" using sz by (simp add: unat_gt_0)
    then have "unat src < length source" using inside by linarith
    moreover have "usize_add (unat sz) (unat src) = (Ok (unat src + unat sz) :: usize vm_result)"
      using inside L by (simp add: usize_add_def)
    moreover have "mem_write_slice dest (padded source (unat src) (unat sz)) (it_mem i) =
        (Ok (overwrite (it_mem i) (unat dest) (padded source (unat src) (unat sz))) :: Bytes vm_result)"
      using fit mem small by (subst mem_write_slice_run) (simp_all add: lows)
    ultimately show ?thesis using inside Q e s u small
      by (auto simp: copy_data_to_memory_def wp_simps items Let_def word_less_nat_alt lows slice_def padded_inside)
  qed
qed

lemma wp_copy_data:
  assumes "vs_items (it_stack i) = dest # src # sz # rest" "length source \<le> usize_MAX"
    and "sz = 0 \<or> unat dest + unat sz \<le> length (it_mem i)" "length (it_mem i) \<le> usize_MAX"
    and "Q (Ok ()) (i\<lparr>it_stack := set_items rest (it_stack i),
       it_mem := overwrite (it_mem i) (unat dest) (padded source (unat src) (unat sz))\<rparr>, c)"
  shows "wp (copy_data_to_memory source) Q (i, c)"
proof (cases "sz = 0")
  case True
  then have "i\<lparr>it_stack := set_items rest (it_stack i),
       it_mem := overwrite (it_mem i) (unat dest) (padded source (unat src) (unat sz))\<rparr> =
     i\<lparr>it_stack := set_items rest (it_stack i)\<rparr>" by (simp add: padded_def)
  with True assms show ?thesis by (intro wp_copy_data_zero) auto
next
  case False
  with assms show ?thesis by (intro wp_copy_data_pos) auto
qed

section \<open>Output, push data, topics, call data\<close>

definition rd_ok :: "ReturnData \<Rightarrow> bool" where
  "rd_ok rd \<longleftrightarrow> rd_offset rd + rd_size rd \<le> length (rd_mem rd) \<and> length (rd_mem rd) \<le> usize_MAX"

definition rd_bytes :: "ReturnData \<Rightarrow> Bytes" where
  "rd_bytes rd = take (rd_size rd) (drop (rd_offset rd) (rd_mem rd))"

lemma rd_deref_ok: "rd_ok rd \<Longrightarrow> rd_deref rd = Ok (rd_bytes rd)"
  by (simp add: rd_deref_def rd_ok_def rd_bytes_def usize_add_def)

lemma rd_ok_empty [simp]: "rd_ok rd_empty"
  by (simp add: rd_ok_def rd_empty_def)

lemma length_rd_bytes: "rd_ok rd \<Longrightarrow> length (rd_bytes rd) \<le> usize_MAX"
  by (auto simp: rd_ok_def rd_bytes_def min_le_iff_disj)

lemma wp_write_output:
  assumes "out_size = 0 \<or> unat out_off + unat out_size \<le> length (it_mem i)" "length (it_mem i) \<le> usize_MAX"
    and "rd_ok data"
    and Q: "Q (Ok ()) (i\<lparr>it_mem := overwrite (it_mem i) (unat out_off) (take (unat out_size) (rd_bytes data))\<rparr>, c)"
  shows "wp (write_output out_off out_size data) Q (i, c)"
proof (cases "out_size = 0")
  case True
  then have "low_u64 out_size = 0" by (simp add: low_u64_def)
  with True Q show ?thesis
    by (simp add: write_output_def wp_simps mem_writeable_slice_def is_valid_range_def rd_deref_ok [OF assms(3)])
next
  case False
  then have "0 < unat out_size" by (simp add: unat_gt_0)
  moreover from False assms have fit: "unat out_off + unat out_size \<le> length (it_mem i)" by simp
  with assms(2) have "low_u64 out_off = unat out_off" "low_u64 out_size = unat out_size"
    by (auto intro!: low_u64_small simp: usize_MAX_def)
  moreover have "min (unat out_size) (length d) = unat out_size \<or> length d \<le> unat out_size" for d :: Bytes
    by auto
  then have "take (min (unat out_size) (length d)) d = take (unat out_size) d" for d :: Bytes
    by (metis min.cobounded2 min_def take_all)
  ultimately show ?thesis using fit assms(2) Q
    by (simp add: write_output_def wp_simps mem_writeable_slice_def is_valid_range_def slice_def
        rd_deref_ok [OF assms(3)])
qed

lemma wp_reader_read:
  assumes "cr_position (it_reader i) \<le> length (cr_code (it_reader i))"
    and "cr_position (it_reader i) + n \<le> usize_MAX"
    and "Q (Ok (from_be (take n (drop (cr_position (it_reader i)) (cr_code (it_reader i))))))
           (i\<lparr>it_reader := (it_reader i)\<lparr>cr_position := cr_position (it_reader i) + n\<rparr>\<rparr>, c)"
  shows "wp (reader_read n) Q (i, c)"
proof -
  have "take (min (cr_position (it_reader i) + n) (length (cr_code (it_reader i))) - cr_position (it_reader i))
          (drop (cr_position (it_reader i)) (cr_code (it_reader i))) =
        take n (drop (cr_position (it_reader i)) (cr_code (it_reader i)))"
    by (cases "cr_position (it_reader i) + n \<le> length (cr_code (it_reader i))") (simp_all add: min_def)
  with assms show ?thesis
    by (auto simp: reader_read_def wp_simps usize_add_def slice_def)
qed

lemma wp_pop_n:
  assumes "vs_wf (it_stack i)" "n \<le> MAX_NO_OF_TOPICS" "n \<le> vs_size (it_stack i)"
    and "\<And>st. vs_items st = drop n (vs_items (it_stack i)) \<Longrightarrow> vs_wf st \<Longrightarrow>
           Q (Ok (take n (vs_items (it_stack i)))) (i\<lparr>it_stack := st\<rparr>, c)"
  shows "wp (on_stack (vs_pop_n n)) Q (i, c)"
  using vs_pop_n_run [OF assms(1-3), where 'e = Error] assms(4)
  unfolding wp_on_stack by (auto simp: wp_def)

lemma be_nat_replicate_0 [simp]: "be_nat (replicate n 0) = 0"
  by (induction n) (simp_all add: be_nat_def)

lemma calldataload_eq:
  assumes "\<And>d. data = Some d \<Longrightarrow> length d + 32 \<le> usize_MAX"
  shows "calldataload data v =
    Ok (from_be (padded (case data of None \<Rightarrow> [] | Some d \<Rightarrow> d) (unat v) 32))"
proof (cases data)
  case None
  then show ?thesis by (simp add: calldataload_def Let_def padded_past from_be_def)
next
  case (Some d)
  then have len: "length d + 32 \<le> usize_MAX" using assms by simp
  then have u: "unat (of_nat (length d) :: U256) = length d"
    by (intro unat_of_nat_exact) (simp add: usize_MAX_def)
  show ?thesis
  proof (cases "unat v < length d")
    case True
    then have low: "low_u64 v = unat v" and max: "(unat v + 32) mod 2 ^ 64 = unat v + 32"
      using len by (auto intro!: low_u64_small simp: usize_MAX_def)
    have "take (min (length d) (unat v + 32) - unat v) (drop (unat v) d) @
          replicate (32 - (min (length d) (unat v + 32) - unat v)) 0 = padded d (unat v) 32"
      using True by (intro nth_equalityI) (auto simp: padded_nth nth_append)
    then show ?thesis using True Some u low max
      by (auto simp: calldataload_def Let_def word_less_nat_alt slice_def)
  next
    case False
    then show ?thesis using Some u
      by (simp add: calldataload_def Let_def word_less_nat_alt padded_past from_be_def)
  qed
qed

section \<open>Copying and loading\<close>

lemma copy_data_run:
  fixes i :: "('c::len word, 'k) Interpreter"
  assumes "vs_items (it_stack i) = dest # src # sz # rest" "length source \<le> usize_MAX"
    and "sz = 0 \<or> unat dest + unat sz \<le> length (it_mem i)" "length (it_mem i) \<le> usize_MAX"
  shows "copy_data_to_memory source (i, c) =
    (Ok (), i\<lparr>it_stack := set_items rest (it_stack i),
       it_mem := overwrite (it_mem i) (unat dest) (padded source (unat src) (unat sz))\<rparr>, c)"
proof -
  let ?s = "(i\<lparr>it_stack := set_items rest (it_stack i),
       it_mem := overwrite (it_mem i) (unat dest) (padded source (unat src) (unat sz))\<rparr>, c)"
  have "wp (copy_data_to_memory source) (\<lambda>r s. r = Ok () \<and> s = ?s) (i, c)"
    by (rule wp_copy_data [OF assms]) simp
  then show ?thesis by (auto simp: wp_def prod_eq_iff)
qed

text \<open>The memory that the gasometer asks for covers the range it was asked about.\<close>

lemma required_covers:
  fixes gm :: "'c::len word Gasometer" and needed :: "'c word"
  assumes "64 \<le> LENGTH('c)" "wf_spec spec" "mem_paid spec gm cur"
    and "mem_needed dest sz = Ok needed" "mem_gas_cost gm spec cur needed = Ok (charge, new_gas, required)"
  shows "sz = 0 \<or> unat dest + unat sz \<le> required" "required \<le> usize_MAX"
proof -
  let ?w = "words_of (unat needed)"
  have cur: "cur \<le> usize_MAX" using assms(3) unfolding mem_paid_def by blast
  from mem_gas_cost_eq [OF assms(1-3) refl, of needed] assms(5)
  have r: "required = 32 * ?w" "cur < 32 * ?w \<longrightarrow> 32 * ?w \<le> usize_MAX" by (auto split: if_splits)
  with cur show "required \<le> usize_MAX" by (cases "cur < 32 * ?w") simp_all
  show "sz = 0 \<or> unat dest + unat sz \<le> required"
  proof (cases "sz = 0")
    case False
    let ?sum = "overflowing_add dest sz"
    from assms(4) False have sum: "overflowing ?sum = Ok (fst ?sum)" "from_u256 (fst ?sum) = Ok needed"
      by (cases ?sum; simp add: mem_needed_def split: if_splits)+
    from sum(1) have "unat (fst ?sum) = unat dest + unat sz"
      by (auto simp: overflowing_add_def unat_add_exact split: if_splits)
    moreover from sum(2) have "unat needed = unat (fst ?sum)"
      by (auto simp: from_u256_def unat_ucast_mod split: if_splits)
    moreover have "unat needed \<le> 32 * ?w" by (simp add: words_of_def)
    ultimately show ?thesis using r(1) by simp
  qed simp
qed

text \<open>C25.  Once the gasometer has priced the destination of a copy instruction and the memory has grown to the
  size it requires, the instruction does not panic: it writes exactly the bytes of the
  source from its offset on, continued by zeros past its end, and nothing else, for every source
  offset and every destination and length that the gasometer accepts.\<close>

theorem copy_data:
  fixes i :: "('c::len word, 'k) Interpreter" and needed :: "'c word"
  assumes "vs_items (it_stack i) = dest # src # sz # rest" "length source \<le> usize_MAX"
    and "64 \<le> LENGTH('c)" "wf_spec spec" "mem_paid spec gm (mem_size m)"
    and "mem_needed dest sz = Ok needed" "mem_gas_cost gm spec (mem_size m) needed = Ok (charge, new_gas, required)"
    and "it_mem i = mem_expand required m"
  shows "copy_data_to_memory source (i, c) =
    (Ok (), i\<lparr>it_stack := set_items rest (it_stack i),
       it_mem := overwrite (mem_expand required m) (unat dest) (padded source (unat src) (unat sz))\<rparr>, c)"
proof -
  have m: "length m \<le> usize_MAX" using assms(5) unfolding mem_paid_def mem_size_def by blast
  note r = required_covers [OF assms(3-7)]
  have "sz = 0 \<or> unat dest + unat sz \<le> length (it_mem i)" using r(1) unfolding assms(8) length_mem_expand by linarith
  moreover have "length (it_mem i) \<le> usize_MAX" using r(2) m unfolding assms(8) length_mem_expand by simp
  ultimately show ?thesis using copy_data_run [OF assms(1,2), of c] unfolding assms(8) by blast
qed

theorem copy_data_witness:
  "\<forall>(i :: (64 word, unit) Interpreter) (c :: unit).
     it_mem (fst (snd (copy_data_to_memory [5, 6]
       (i\<lparr>it_stack := set_items [1, 1, 2] (with_capacity 0), it_mem := replicate 32 0\<rparr>, c)))) = 0 # 6 # replicate 30 0"
proof (intro allI)
  fix i :: "(64 word, unit) Interpreter" and c :: unit
  let ?i = "i\<lparr>it_stack := set_items [1, 1, 2] (with_capacity 0), it_mem := replicate 32 0\<rparr>"
  let ?gm = "\<lparr>current_gas = 100, current_mem_gas = 0\<rparr> :: 64 word Gasometer"
  have paid: "mem_paid genesis_spec ?gm (mem_size [])" by (simp add: mem_paid_def mem_cost_def mem_size_def)
  have needed: "mem_needed 1 2 = (Ok 3 :: 64 word vm_result)"
    by (simp add: mem_needed_def overflowing_add_def from_u256_def)
  have charge: "mem_gas_cost ?gm genesis_spec (mem_size []) 3 = Ok (3, 3, 32)"
    using mem_gas_cost_eq [where 'c = 64, OF _ wf_genesis_spec paid refl, of 3]
    by (simp add: words_of_def mem_cost_def genesis_spec_def mem_size_def usize_MAX_def)
  have "it_mem ?i = mem_expand 32 []" by (simp add: mem_expand_def mem_resize_def)
  from copy_data [OF _ _ _ wf_genesis_spec paid needed charge this, of 1 "[]" "[5, 6]" c]
  have "it_mem (fst (snd (copy_data_to_memory [5, 6] (?i, c)))) =
    overwrite (mem_expand 32 []) (unat (1 :: U256)) (padded [5, 6] (unat (1 :: U256)) (unat (2 :: U256)))"
    by (simp add: usize_MAX_def)
  also have "\<dots> = 0 # 6 # replicate 30 0" by code_simp
  finally show "it_mem (fst (snd (copy_data_to_memory [5, 6] (?i, c)))) = 0 # 6 # replicate 30 0" .
qed

end
