(* ===== verification/Delta_Op.thy ===== *)
theory Delta_Op
  imports Prelude
begin

text \<open>
  Deltas of aggregators (\<open>src/aptos-move/aptos-aggregator/src/delta_change_set.rs\<close>):
  an update together with the largest and the smallest intermediate value seen
  while it was computed.  The application of a delta to a base value, the
  merging of two deltas, and the materialisation of a set of deltas against a
  state view.

  The lemmas show that a delta acts as a partial function on values and that
  merging composes these functions.  The locale \<open>delta_action\<close> states this as a
  contract, from which its clients get the law for any sequence of merges.

  An error keeps its status and its abort code; the text of the message is
  left out.  The BCS codec is a parameter.
\<close>

section \<open>Errors\<close>

datatype StatusCode = ABORTED | STORAGE_ERROR | VM_EXTENSION_ERROR

datatype PartialVMError = PartialVMError StatusCode "u64 option"

text \<open>A partial error that is finished at a location becomes a status.\<close>

datatype VMStatus = VMStatus_Error StatusCode | Finished PartialVMError

type_synonym 'a vm_partial = "(PartialVMError, 'a) outcome"

definition EADD_OVERFLOW :: u64 where
  "EADD_OVERFLOW = 0x020001"

definition ESUB_UNDERFLOW :: u64 where
  "ESUB_UNDERFLOW = 0x020002"

definition abort_error :: "u64 \<Rightarrow> PartialVMError" where
  "abort_error code = PartialVMError ABORTED (Some code)"

section \<open>Arithmetic with a limit\<close>

definition addition :: "u128 \<Rightarrow> u128 \<Rightarrow> u128 \<Rightarrow> u128 vm_partial" where
  "addition base val limit =
     bind (if limit < base then Ok True
           else bind (word_sub limit base) (\<lambda>room. Ok (val > room))) (\<lambda>overflow.
     if overflow then Err (abort_error EADD_OVERFLOW) else word_add base val)"

definition subtraction :: "u128 \<Rightarrow> u128 \<Rightarrow> u128 vm_partial" where
  "subtraction base val =
     (if val > base then Err (abort_error ESUB_UNDERFLOW) else word_sub base val)"

section \<open>Deltas\<close>

datatype DeltaUpdate = Plus u128 | Minus u128

record DeltaOp =
  dop_max_positive :: u128
  dop_min_negative :: u128
  dop_limit :: u128
  dop_update :: DeltaUpdate

definition delta_new :: "DeltaUpdate \<Rightarrow> u128 \<Rightarrow> u128 \<Rightarrow> u128 \<Rightarrow> DeltaOp" where
  "delta_new upd limit max_positive min_negative =
     \<lparr>dop_max_positive = max_positive, dop_min_negative = min_negative,
      dop_limit = limit, dop_update = upd\<rparr>"

definition delta_add :: "u128 \<Rightarrow> u128 \<Rightarrow> DeltaOp" where
  "delta_add v limit = delta_new (Plus v) limit v 0"

definition delta_sub :: "u128 \<Rightarrow> u128 \<Rightarrow> DeltaOp" where
  "delta_sub v limit = delta_new (Minus v) limit 0 v"

definition apply_to :: "DeltaOp \<Rightarrow> u128 \<Rightarrow> u128 vm_partial" where
  "apply_to d base =
     bind (addition base (dop_max_positive d) (dop_limit d)) (\<lambda>_.
     bind (subtraction base (dop_min_negative d)) (\<lambda>_.
     case dop_update d of
       Plus v \<Rightarrow> addition base v (dop_limit d)
     | Minus v \<Rightarrow> subtraction base v))"

text \<open>\<open>unwrap_or(0)\<close> on a result; a panic stays one.\<close>

fun unwrap_or_0 :: "('e, u128) outcome \<Rightarrow> ('f, u128) outcome" where
  "unwrap_or_0 (Ok v) = Ok v"
| "unwrap_or_0 (Err e) = Ok 0"
| "unwrap_or_0 Panic = Panic"

definition shifted_max_positive_by :: "DeltaOp \<Rightarrow> DeltaOp \<Rightarrow> u128 vm_partial" where
  "shifted_max_positive_by self delta = (case dop_update delta of
     Plus v \<Rightarrow> addition v (dop_max_positive self) (dop_limit self)
   | Minus v \<Rightarrow> unwrap_or_0 (subtraction (dop_max_positive self) v))"

definition shifted_min_negative_by :: "DeltaOp \<Rightarrow> DeltaOp \<Rightarrow> u128 vm_partial" where
  "shifted_min_negative_by self delta = (case dop_update delta of
     Plus v \<Rightarrow> unwrap_or_0 (subtraction (dop_min_negative self) v)
   | Minus v \<Rightarrow> addition v (dop_min_negative self) (dop_limit self))"

definition update_different_sign :: "u128 \<Rightarrow> u128 \<Rightarrow> DeltaUpdate vm_partial" where
  "update_different_sign a b =
     (if b \<le> a then bind (subtraction a b) (\<lambda>v. Ok (Plus v))
      else bind (subtraction b a) (\<lambda>v. Ok (Minus v)))"

definition merged_update :: "DeltaOp \<Rightarrow> DeltaOp \<Rightarrow> DeltaUpdate vm_partial" where
  "merged_update self previous = (case dop_update previous of
     Plus prev_value \<Rightarrow> (case dop_update self of
         Plus self_value \<Rightarrow> bind (addition prev_value self_value (dop_limit self)) (\<lambda>v. Ok (Plus v))
       | Minus self_value \<Rightarrow> update_different_sign prev_value self_value)
   | Minus prev_value \<Rightarrow> (case dop_update self of
         Plus self_value \<Rightarrow> update_different_sign self_value prev_value
       | Minus self_value \<Rightarrow> bind (addition prev_value self_value (dop_limit self)) (\<lambda>v. Ok (Minus v))))"

text \<open>\<open>merge_onto self previous\<close>: \<open>self\<close> on top of a delta that came before it.\<close>

definition merge_onto :: "DeltaOp \<Rightarrow> DeltaOp \<Rightarrow> DeltaOp vm_partial" where
  "merge_onto self previous =
     bind (shifted_max_positive_by self previous) (\<lambda>shifted_max_positive.
     bind (shifted_min_negative_by self previous) (\<lambda>shifted_min_negative.
     bind (merged_update self previous) (\<lambda>upd.
     Ok (self\<lparr>dop_update := upd,
              dop_max_positive := max (dop_max_positive previous) shifted_max_positive,
              dop_min_negative := max (dop_min_negative previous) shifted_min_negative\<rparr>))))"

section \<open>Materialisation\<close>

datatype WriteOp = Creation Bytes | Modification Bytes | Deletion

text \<open>The BCS codec for \<open>u128\<close>: decoding fails on bytes that are not an encoding.\<close>

record Codec =
  to_bytes :: "u128 \<Rightarrow> Bytes"
  from_bytes :: "Bytes \<Rightarrow> u128 option"

definition codec_ok :: "Codec \<Rightarrow> bool" where
  "codec_ok B \<longleftrightarrow> (\<forall>v. from_bytes B (to_bytes B v) = Some v)"

text \<open>A fixed-width encoding with these properties, for concrete runs.\<close>

definition be_codec :: Codec where
  "be_codec = \<lparr>to_bytes = to_be 16, from_bytes = (\<lambda>bs. Some (from_be bs))\<rparr>"

lemma codec_ok_be: "codec_ok be_codec"
  by (simp add: codec_ok_def be_codec_def from_be_to_be)

definition deserialize :: "Codec \<Rightarrow> Bytes \<Rightarrow> ('e, u128) outcome" where
  "deserialize B bytes = expect (from_bytes B bytes)"

text \<open>The state view is a function of the key: an error, or the bytes stored, if any.\<close>

definition try_into_write_op ::
  "Codec \<Rightarrow> ('k \<Rightarrow> (unit, Bytes option) outcome) \<Rightarrow> DeltaOp \<Rightarrow> 'k \<Rightarrow> (VMStatus, WriteOp) outcome" where
  "try_into_write_op B view d key =
     bind (map_err (\<lambda>_. VMStatus_Error STORAGE_ERROR) (view key)) (\<lambda>maybe_bytes.
     case maybe_bytes of
       Some bytes \<Rightarrow>
         bind (deserialize B bytes) (\<lambda>base.
         bind (map_err Finished (apply_to d base)) (\<lambda>result.
         Ok (Modification (to_bytes B result))))
     | None \<Rightarrow> Err (VMStatus_Error STORAGE_ERROR))"

fun try_into_write_set_mut ::
  "Codec \<Rightarrow> ('k \<Rightarrow> (unit, Bytes option) outcome) \<Rightarrow> ('k \<times> DeltaOp) list \<Rightarrow>
     (VMStatus, ('k \<times> WriteOp) list) outcome" where
  "try_into_write_set_mut B view [] = Ok []"
| "try_into_write_set_mut B view ((key, d) # ds) =
     bind (try_into_write_op B view d key) (\<lambda>w.
     bind (try_into_write_set_mut B view ds) (\<lambda>ws. Ok ((key, w) # ws)))"

section \<open>The interface of a delta\<close>

text \<open>
  What the users of deltas rely on: an action on values that may fail, and a
  merge that composes actions.  A merge fails only where the composed action
  has no value at all.  \<open>fits\<close> says that two deltas belong to the same counter.
\<close>

locale delta_action =
  fixes wf :: "'d \<Rightarrow> bool"
    and fits :: "'d \<Rightarrow> 'd \<Rightarrow> bool"
    and act :: "'d \<Rightarrow> 'v \<Rightarrow> 'v option"
    and merge :: "'d \<Rightarrow> 'd \<Rightarrow> 'd option"
  assumes merge_act: "wf p \<Longrightarrow> wf d \<Longrightarrow> fits d p \<Longrightarrow> merge d p = Some m \<Longrightarrow>
      act m v = Option.bind (act p v) (act d)"
    and merge_wf: "wf p \<Longrightarrow> wf d \<Longrightarrow> fits d p \<Longrightarrow> merge d p = Some m \<Longrightarrow> wf m"
    and merge_fits: "wf p \<Longrightarrow> wf d \<Longrightarrow> fits d p \<Longrightarrow> merge d p = Some m \<Longrightarrow> fits d q \<Longrightarrow> fits m q"
    and merge_fail: "wf p \<Longrightarrow> wf d \<Longrightarrow> fits d p \<Longrightarrow> merge d p = None \<Longrightarrow>
      Option.bind (act p v) (act d) = None"
begin

text \<open>Merging a delta onto older and older ones, and applying them from the oldest to the newest.\<close>

primrec merge_all :: "'d \<Rightarrow> 'd list \<Rightarrow> 'd option" where
  "merge_all d [] = Some d"
| "merge_all d (p # ps) = Option.bind (merge d p) (\<lambda>m. merge_all m ps)"

primrec act_all :: "'d list \<Rightarrow> 'v \<Rightarrow> 'v option" where
  "act_all [] v = Some v"
| "act_all (d # ds) v = Option.bind (act_all ds v) (act d)"

lemma merge_all_Some:
  assumes "merge_all d ps = Some m" "wf d" "\<forall>p \<in> set ps. wf p \<and> fits d p"
  shows "wf m \<and> act m v = act_all (d # ps) v"
  using assms
proof (induction ps arbitrary: d)
  case (Cons p ps)
  then obtain k where k: "merge d p = Some k" "merge_all k ps = Some m"
    by (auto simp: bind_eq_Some_conv)
  from Cons.prems have p: "wf p" "fits d p" by auto
  have "wf k" "\<forall>q \<in> set ps. wf q \<and> fits k q"
    using merge_wf [OF p(1) Cons.prems(2) p(2) k(1)] merge_fits [OF p(1) Cons.prems(2) p(2) k(1)] Cons.prems(3)
    by auto
  from Cons.IH [OF k(2) this] show ?case
    using merge_act [OF p(1) Cons.prems(2) p(2) k(1)] by (auto split: Option.bind_splits)
qed simp

lemma merge_all_None:
  assumes "merge_all d ps = None" "wf d" "\<forall>p \<in> set ps. wf p \<and> fits d p"
  shows "act_all (d # ps) v = None"
  using assms
proof (induction ps arbitrary: d)
  case (Cons p ps)
  from Cons.prems have p: "wf p" "fits d p" by auto
  show ?case
  proof (cases "merge d p")
    case None
    then show ?thesis using merge_fail [OF p(1) Cons.prems(2) p(2) None]
      by (auto split: Option.bind_splits)
  next
    case (Some k)
    then have "merge_all k ps = None" using Cons.prems by simp
    moreover have "wf k" "\<forall>q \<in> set ps. wf q \<and> fits k q"
      using merge_wf [OF p(1) Cons.prems(2) p(2) Some] merge_fits [OF p(1) Cons.prems(2) p(2) Some] Cons.prems(3)
      by auto
    ultimately show ?thesis using Cons.IH [of k] merge_act [OF p(1) Cons.prems(2) p(2) Some]
      by (auto split: Option.bind_splits)
  qed
qed simp

lemma merge_all_cases:
  assumes "wf d" "\<forall>p \<in> set ps. wf p \<and> fits d p"
  shows "Option.bind (merge_all d ps) (\<lambda>m. act m v) = act_all (d # ps) v"
  using merge_all_None [OF _ assms, of v] merge_all_Some [OF _ assms, where v = v]
  by (cases "merge_all d ps") auto

end

section \<open>Deltas implement the interface\<close>

lemma uint_add_exact:
  "uint (a::'a::len word) + uint b < 2 ^ LENGTH('a) \<Longrightarrow> uint (a + b) = uint a + uint b"
  by (simp add: uint_add_lem)

lemma uint_sub_exact: "(b::'a::len word) \<le> a \<Longrightarrow> uint (a - b) = uint a - uint b"
  by (simp add: uint_sub_lem word_le_def)

lemma uint_u128: "uint (l :: u128) < 2 ^ 128"
  using uint_bounded [of l] by simp

lemma addition_eq:
  "addition b v l =
     (if uint b + uint v \<le> uint l then Ok (b + v) else Err (abort_error EADD_OVERFLOW))"
proof (cases "b \<le> l")
  case True
  then have "uint (l - b) = uint l - uint b" by (rule uint_sub_exact)
  moreover have "unat b + unat v < 2 ^ 128" if "uint b + uint v \<le> uint l"
  proof -
    have "int (unat b + unat v) < int (2 ^ 128)" using that uint_u128 [of l] by simp
    then show ?thesis by (simp only: of_nat_less_iff)
  qed
  ultimately show ?thesis using True
    by (auto simp: addition_def arith_defs word_less_def word_le_def)
next
  case False
  then have "uint l < uint b" by (simp add: word_le_def)
  then have "\<not> uint b + uint v \<le> uint l" using uint_ge_0 [of v] by linarith
  with False show ?thesis by (simp add: addition_def word_less_def word_le_def)
qed

lemma subtraction_eq:
  "subtraction b v = (if uint v \<le> uint b then Ok (b - v) else Err (abort_error ESUB_UNDERFLOW))"
  by (auto simp: subtraction_def word_sub_def word_less_def word_le_def)

lemma uint_addition: "uint (b :: u128) + uint v \<le> uint (l :: u128) \<Longrightarrow> uint (b + v) = uint b + uint v"
  using uint_u128 [of l] by (intro uint_add_exact) simp

lemma uint_subtraction: "uint v \<le> uint (b :: u128) \<Longrightarrow> uint (b - v) = uint b - uint v"
  by (rule uint_sub_exact) (simp add: word_le_def)

text \<open>The signed value of an update, and a delta as a partial function on numbers.\<close>

primrec upd_value :: "DeltaUpdate \<Rightarrow> int" where
  "upd_value (Plus v) = uint v"
| "upd_value (Minus v) = - uint v"

abbreviation dv :: "DeltaOp \<Rightarrow> int" where "dv d \<equiv> upd_value (dop_update d)"

definition delta_fun :: "DeltaOp \<Rightarrow> int \<Rightarrow> int option" where
  "delta_fun d b =
     (if b + uint (dop_max_positive d) \<le> uint (dop_limit d) \<and>
         uint (dop_min_negative d) \<le> b \<and>
         0 \<le> b + dv d \<and> b + dv d \<le> uint (dop_limit d)
      then Some (b + dv d) else None)"

definition delta_wf :: "DeltaOp \<Rightarrow> bool" where
  "delta_wf d \<longleftrightarrow> dv d \<le> uint (dop_max_positive d) \<and> - dv d \<le> uint (dop_min_negative d)"

lemma apply_to_fun: "map_option uint (ok (apply_to d b)) = delta_fun d (uint b)"
proof (cases "dop_update d")
  case (Plus v)
  then show ?thesis
    by (auto simp: apply_to_def delta_fun_def addition_eq subtraction_eq uint_addition)
next
  case (Minus v)
  moreover have "uint b - uint v \<le> uint (dop_limit d)" if "uint b + uint (dop_max_positive d) \<le> uint (dop_limit d)"
    using that uint_ge_0 [of v] uint_ge_0 [of "dop_max_positive d"] by linarith
  ultimately show ?thesis
    by (auto simp: apply_to_def delta_fun_def addition_eq subtraction_eq uint_subtraction)
qed

lemma apply_to_neq_Panic: "apply_to d b \<noteq> Panic"
  by (auto simp: apply_to_def addition_eq subtraction_eq outcome_simps split: DeltaUpdate.splits if_splits)

text \<open>The pieces of a merge on signed numbers.\<close>

lemma shifted_max:
  "(\<exists>s. shifted_max_positive_by d p = Ok s \<and> uint s = max 0 (dv p + uint (dop_max_positive d))) \<or>
   (\<exists>e. shifted_max_positive_by d p = Err e) \<and> uint (dop_limit d) < dv p + uint (dop_max_positive d)"
proof (cases "dop_update p")
  case (Plus v)
  then show ?thesis
    by (auto simp: shifted_max_positive_by_def addition_eq uint_addition)
next
  case (Minus v)
  then show ?thesis
    by (auto simp: shifted_max_positive_by_def subtraction_eq uint_subtraction word_le_def)
qed

lemma shifted_min:
  "(\<exists>s. shifted_min_negative_by d p = Ok s \<and> uint s = max 0 (uint (dop_min_negative d) - dv p)) \<or>
   (\<exists>e. shifted_min_negative_by d p = Err e) \<and> uint (dop_limit d) < uint (dop_min_negative d) - dv p"
proof (cases "dop_update p")
  case (Minus v)
  then show ?thesis
    by (auto simp: shifted_min_negative_by_def addition_eq uint_addition)
next
  case (Plus v)
  then show ?thesis
    by (auto simp: shifted_min_negative_by_def subtraction_eq uint_subtraction word_le_def)
qed

lemma update_different:
  "\<exists>u. update_different_sign a b = Ok u \<and> upd_value u = uint a - uint b"
  by (auto simp: update_different_sign_def subtraction_eq uint_subtraction word_le_def)

lemma merged_update_cases:
  "(\<exists>x. merged_update d p = Ok x \<and> upd_value x = dv p + dv d) \<or>
   (\<exists>e. merged_update d p = Err e) \<and> (uint (dop_limit d) < dv p + dv d \<or> uint (dop_limit d) < - dv p - dv d)"
  using update_different
  by (auto simp: merged_update_def addition_eq uint_addition split: DeltaUpdate.split)

text \<open>A merge in one statement: it succeeds with these figures, or no value passes both deltas.\<close>

lemma merge_onto_cases:
  obtains (merged) m where "merge_onto d p = Ok m" "dop_limit m = dop_limit d" "dv m = dv p + dv d"
      "uint (dop_max_positive m) = max (uint (dop_max_positive p)) (max 0 (dv p + uint (dop_max_positive d)))"
      "uint (dop_min_negative m) = max (uint (dop_min_negative p)) (max 0 (uint (dop_min_negative d) - dv p))"
  | (failed) e where "merge_onto d p = Err e"
      "uint (dop_limit d) < dv p + uint (dop_max_positive d) \<or>
       uint (dop_limit d) < uint (dop_min_negative d) - dv p \<or>
       uint (dop_limit d) < dv p + dv d \<or> uint (dop_limit d) < - dv p - dv d"
proof -
  have mx: "uint (max a b) = max (uint a) (uint b)" for a b :: u128
    by (simp add: max_def word_le_def)
  consider (max) e where "shifted_max_positive_by d p = Err e"
      "uint (dop_limit d) < dv p + uint (dop_max_positive d)"
    | (min) s e where "shifted_max_positive_by d p = Ok s" "shifted_min_negative_by d p = Err e"
      "uint (dop_limit d) < uint (dop_min_negative d) - dv p"
    | (both) s t where "shifted_max_positive_by d p = Ok s" "shifted_min_negative_by d p = Ok t"
      "uint s = max 0 (dv p + uint (dop_max_positive d))" "uint t = max 0 (uint (dop_min_negative d) - dv p)"
    using shifted_max [of d p] shifted_min [of d p] by blast
  then show thesis
  proof cases
    case max
    then show thesis by (intro failed) (auto simp: merge_onto_def)
  next
    case min
    then show thesis by (intro failed) (auto simp: merge_onto_def)
  next
    case both
    show thesis
    proof (cases "merged_update d p")
      case (Ok x)
      with merged_update_cases [of d p] have x: "upd_value x = dv p + dv d" by auto
      let ?m = "d\<lparr>dop_update := x, dop_max_positive := max (dop_max_positive p) s,
                  dop_min_negative := max (dop_min_negative p) t\<rparr>"
      have "merge_onto d p = Ok ?m" using both Ok by (simp add: merge_onto_def)
      then show thesis by (rule merged) (simp_all add: x mx both)
    next
      case (Err e)
      then have "merge_onto d p = Err e" using both by (simp add: merge_onto_def)
      then show thesis using Err merged_update_cases [of d p] by (intro failed) auto
    qed (use merged_update_cases [of d p] in simp)
  qed
qed

lemma uint_option_eq: "map_option uint x = map_option uint (y :: ('a::len word) option) \<Longrightarrow> x = y"
  by (cases x; cases y) (simp_all add: word_uint_eq_iff)

lemma apply_to_bind:
  "map_option uint (Option.bind (ok (apply_to p v)) (\<lambda>x. ok (apply_to d x))) =
     Option.bind (delta_fun p (uint v)) (delta_fun d)"
  by (cases "ok (apply_to p v)") (simp_all add: apply_to_fun flip: apply_to_fun [of p v])

text \<open>The composition on plain numbers.\<close>

definition bounded_shift :: "int \<Rightarrow> int \<Rightarrow> int \<Rightarrow> int \<Rightarrow> int \<Rightarrow> int option" where
  "bounded_shift M m L v b = (if b + M \<le> L \<and> m \<le> b \<and> 0 \<le> b + v \<and> b + v \<le> L then Some (b + v) else None)"

lemma delta_fun_shift:
  "delta_fun d = bounded_shift (uint (dop_max_positive d)) (uint (dop_min_negative d)) (uint (dop_limit d)) (dv d)"
  by (rule ext) (simp add: delta_fun_def bounded_shift_def)

lemma bounded_shift_compose:
  assumes "0 \<le> M" "0 \<le> m" "v \<le> M" "- v \<le> m"
  shows "bounded_shift (max M (max 0 (v + M'))) (max m (max 0 (m' - v))) L (v + v') b =
    Option.bind (bounded_shift M m L v b) (bounded_shift M' m' L v')"
  using assms by (auto simp: bounded_shift_def)

lemma bounded_shift_fail:
  assumes "0 \<le> M" "0 \<le> m" "v \<le> M" "- v \<le> m" "0 \<le> M'" "0 \<le> m'"
    and "L < v + M' \<or> L < m' - v \<or> L < v + v' \<or> L < - v - v'"
  shows "Option.bind (bounded_shift M m L v b) (bounded_shift M' m' L v') = None"
  using assms by (auto simp: bounded_shift_def)

lemma merge_composes:
  assumes "delta_wf p" "dop_limit d = dop_limit p" "merge_onto d p = Ok m"
  shows "ok (apply_to m v) = Option.bind (ok (apply_to p v)) (\<lambda>x. ok (apply_to d x))"
proof (rule uint_option_eq)
  from merge_onto_cases [of d p] assms(3)
  have m: "dop_limit m = dop_limit d" "dv m = dv p + dv d"
      "uint (dop_max_positive m) = max (uint (dop_max_positive p)) (max 0 (dv p + uint (dop_max_positive d)))"
      "uint (dop_min_negative m) = max (uint (dop_min_negative p)) (max 0 (uint (dop_min_negative d) - dv p))"
    by (metis outcome.distinct(1) outcome.inject(1))+
  have "delta_fun m b = Option.bind (delta_fun p b) (delta_fun d)" for b
    unfolding delta_fun_shift m assms(2)
    using assms(1) by (intro bounded_shift_compose) (simp_all add: delta_wf_def)
  then show "map_option uint (ok (apply_to m v)) =
      map_option uint (Option.bind (ok (apply_to p v)) (\<lambda>x. ok (apply_to d x)))"
    by (simp only: apply_to_fun apply_to_bind)
qed

lemma merge_fails:
  assumes "delta_wf p" "dop_limit d = dop_limit p" "merge_onto d p = Err e"
  shows "Option.bind (ok (apply_to p v)) (\<lambda>x. ok (apply_to d x)) = None"
proof (rule uint_option_eq)
  from merge_onto_cases [of d p] assms(3)
  have "uint (dop_limit d) < dv p + uint (dop_max_positive d) \<or>
       uint (dop_limit d) < uint (dop_min_negative d) - dv p \<or>
       uint (dop_limit d) < dv p + dv d \<or> uint (dop_limit d) < - dv p - dv d"
    by (metis outcome.distinct(1))
  then have "Option.bind (delta_fun p b) (delta_fun d) = None" for b
    unfolding delta_fun_shift assms(2)
    using assms(1) by (intro bounded_shift_fail) (simp_all add: delta_wf_def)
  then show "map_option uint (Option.bind (ok (apply_to p v)) (\<lambda>x. ok (apply_to d x))) = map_option uint None"
    by (simp only: apply_to_bind) simp
qed

lemma merge_neq_Panic: "merge_onto d p \<noteq> Panic"
  by (cases rule: merge_onto_cases [of d p]) simp_all

lemma merge_delta_wf:
  assumes "delta_wf p" "delta_wf d" "merge_onto d p = Ok m"
  shows "delta_wf m \<and> dop_limit m = dop_limit d"
  using assms by (cases rule: merge_onto_cases [of d p]) (auto simp: delta_wf_def)

interpretation delta: delta_action delta_wf "\<lambda>d p. dop_limit d = dop_limit p"
  "\<lambda>d v. ok (apply_to d v)" "\<lambda>d p. ok (merge_onto d p)"
proof
  fix p d :: DeltaOp and v
  assume a: "delta_wf p" "delta_wf d" "dop_limit d = dop_limit p"
  show "ok (apply_to m v) = Option.bind (ok (apply_to p v)) (\<lambda>v. ok (apply_to d v))"
    if "ok (merge_onto d p) = Some m" for m
    using that by (intro merge_composes [OF a(1,3)]) simp
  show "delta_wf m" if "ok (merge_onto d p) = Some m" for m
    using that merge_delta_wf [OF a(1,2)] by simp
  show "dop_limit m = dop_limit q" if "ok (merge_onto d p) = Some m" "dop_limit d = dop_limit q" for m q
    using that merge_delta_wf [OF a(1,2)] by simp
  show "Option.bind (ok (apply_to p v)) (\<lambda>v. ok (apply_to d v)) = None" if "ok (merge_onto d p) = None"
    using that merge_fails [OF a(1,3)] merge_neq_Panic [of d p] by (cases "merge_onto d p") auto
qed

section \<open>Merging is composition\<close>

text \<open>C26.  Merging a delta onto an earlier one of the same limit never panics.  If it succeeds, the
  merged delta is well-formed and applies to a value exactly if the two apply one after the
  other, with the same result, intermediate overflows included; if it fails, there is no value
  to which the two apply in sequence.\<close>

theorem delta_merge_composes:
  assumes "delta_wf p" "delta_wf d" "dop_limit d = dop_limit p"
  shows "case merge_onto d p of
      Ok m \<Rightarrow> delta_wf m \<and>
        (\<forall>v. ok (apply_to m v) = Option.bind (ok (apply_to p v)) (\<lambda>x. ok (apply_to d x)))
    | Err e \<Rightarrow> \<forall>v. Option.bind (ok (apply_to p v)) (\<lambda>x. ok (apply_to d x)) = None
    | Panic \<Rightarrow> False"
  using merge_composes [OF assms(1,3)] merge_fails [OF assms(1,3)] merge_delta_wf [OF assms(1,2)]
    merge_neq_Panic [of d p] by (cases "merge_onto d p") auto

theorem delta_merge_composes_witness:
  "case merge_onto (delta_sub 5 100) (delta_add 2 100) of
      Ok m \<Rightarrow> dop_update m = Minus 3 \<and> ok (apply_to m 2) = None \<and> ok (apply_to m 3) = Some 0
    | _ \<Rightarrow> False"
proof -
  have "delta_wf (delta_add 2 100)" "delta_wf (delta_sub 5 100)" "dop_limit (delta_sub 5 100) = dop_limit (delta_add 2 100)"
    by (simp_all add: delta_wf_def delta_add_def delta_sub_def delta_new_def)
  from delta_merge_composes [OF this]
  show ?thesis
    by (auto simp: merge_onto_def shifted_max_positive_by_def shifted_min_negative_by_def merged_update_def
        update_different_sign_def addition_eq subtraction_eq apply_to_def delta_add_def delta_sub_def delta_new_def)
qed

end
