(* ===== verification/Aggregator.thy ===== *)
theory Aggregator
  imports Delta_Op "HOL-Library.AList"
begin

text \<open>
  Aggregators during one transaction
  (\<open>src/aptos-move/aptos-aggregator/src/aggregator_extension.rs\<close>), the native
  functions on them (\<open>src/aptos-move/framework/src/natives/aggregator_natives\<close>)
  and the change set they leave.  An aggregator either knows its value or
  holds a delta with the extreme values it has seen.

  The main lemma shows that executing on a delta is executing on the value:
  the delta that leaves the transaction fails or succeeds on a base value as
  the same additions and subtractions do on that value directly.

  A \<open>BTreeMap\<close> is an association list and a \<open>BTreeSet\<close> a list without
  repetitions; the gas of the native functions is left out.
\<close>

section \<open>One aggregator\<close>

datatype AggregatorState = Data | PositiveDelta | NegativeDelta

record AggregatorID =
  aid_handle :: H256
  aid_key :: H256

record History =
  hist_max_positive :: u128
  hist_min_negative :: u128

definition history_new :: History where
  "history_new = \<lparr>hist_max_positive = 0, hist_min_negative = 0\<rparr>"

definition record_positive :: "u128 \<Rightarrow> History \<Rightarrow> History" where
  "record_positive v h = h\<lparr>hist_max_positive := max (hist_max_positive h) v\<rparr>"

definition record_negative :: "u128 \<Rightarrow> History \<Rightarrow> History" where
  "record_negative v h = h\<lparr>hist_min_negative := max (hist_min_negative h) v\<rparr>"

record Aggregator =
  agg_value :: u128
  agg_state :: AggregatorState
  agg_limit :: u128
  agg_history :: "History option"

definition agg_record :: "Aggregator \<Rightarrow> ('e, Aggregator) outcome" where
  "agg_record a = (case agg_history a of
     Some h \<Rightarrow> (case agg_state a of
         PositiveDelta \<Rightarrow> Ok (a\<lparr>agg_history := Some (record_positive (agg_value a) h)\<rparr>)
       | NegativeDelta \<Rightarrow> Ok (a\<lparr>agg_history := Some (record_negative (agg_value a) h)\<rparr>)
       | Data \<Rightarrow> Panic)
   | None \<Rightarrow> Ok a)"

definition agg_add :: "u128 \<Rightarrow> Aggregator \<Rightarrow> Aggregator vm_partial" where
  "agg_add v a = (case agg_state a of
     Data \<Rightarrow> bind (addition (agg_value a) v (agg_limit a)) (\<lambda>x. Ok (a\<lparr>agg_value := x\<rparr>))
   | PositiveDelta \<Rightarrow>
       bind (addition (agg_value a) v (agg_limit a)) (\<lambda>x. agg_record (a\<lparr>agg_value := x\<rparr>))
   | NegativeDelta \<Rightarrow>
       if agg_value a \<le> v
       then bind (subtraction v (agg_value a)) (\<lambda>x.
            agg_record (a\<lparr>agg_value := x, agg_state := PositiveDelta\<rparr>))
       else bind (subtraction (agg_value a) v) (\<lambda>x. agg_record (a\<lparr>agg_value := x\<rparr>)))"

definition agg_sub :: "u128 \<Rightarrow> Aggregator \<Rightarrow> Aggregator vm_partial" where
  "agg_sub v a = (case agg_state a of
     Data \<Rightarrow> bind (subtraction (agg_value a) v) (\<lambda>x. Ok (a\<lparr>agg_value := x\<rparr>))
   | PositiveDelta \<Rightarrow>
       if agg_value a \<ge> v
       then bind (subtraction (agg_value a) v) (\<lambda>x. agg_record (a\<lparr>agg_value := x\<rparr>))
       else bind (subtraction (agg_limit a) v) (\<lambda>_.
            bind (subtraction v (agg_value a)) (\<lambda>x.
            agg_record (a\<lparr>agg_value := x, agg_state := NegativeDelta\<rparr>)))
   | NegativeDelta \<Rightarrow>
       bind (addition (agg_value a) v (agg_limit a)) (\<lambda>x. agg_record (a\<lparr>agg_value := x\<rparr>)))"

definition extension_error :: PartialVMError where
  "extension_error = PartialVMError VM_EXTENSION_ERROR None"

text \<open>Reading goes to storage, through the table resolver, unless the value is known.\<close>

definition read_and_materialize ::
  "Codec \<Rightarrow> (AggregatorID \<Rightarrow> (unit, Bytes option) outcome) \<Rightarrow> AggregatorID \<Rightarrow> Aggregator \<Rightarrow>
     (u128 \<times> Aggregator) vm_partial" where
  "read_and_materialize B resolver aid a =
     (if agg_state a = Data then Ok (agg_value a, a)
      else bind (map_err (\<lambda>_. extension_error) (resolver aid)) (\<lambda>entry.
      case entry of
        None \<Rightarrow> Err extension_error
      | Some bytes \<Rightarrow>
          bind (deserialize B bytes) (\<lambda>base.
          bind (expect (agg_history a)) (\<lambda>h.
          bind (addition base (hist_max_positive h) (agg_limit a)) (\<lambda>_.
          bind (subtraction base (hist_min_negative h)) (\<lambda>_.
          bind (case agg_state a of
                  PositiveDelta \<Rightarrow> addition base (agg_value a) (agg_limit a)
                | NegativeDelta \<Rightarrow> subtraction base (agg_value a)
                | Data \<Rightarrow> Panic) (\<lambda>v.
          Ok (v, a\<lparr>agg_value := v, agg_state := Data, agg_history := None\<rparr>))))))))"

section \<open>The aggregators of a transaction\<close>

record AggregatorData =
  new_aggregators :: "AggregatorID list"
  destroyed_aggregators :: "AggregatorID list"
  aggregators :: "(AggregatorID \<times> Aggregator) list"

definition aggregator_data_default :: AggregatorData where
  "aggregator_data_default = \<lparr>new_aggregators = [], destroyed_aggregators = [], aggregators = []\<rparr>"

definition delta_aggregator :: "u128 \<Rightarrow> Aggregator" where
  "delta_aggregator limit =
     \<lparr>agg_value = 0, agg_state = PositiveDelta, agg_limit = limit, agg_history = Some history_new\<rparr>"

text \<open>\<open>get_aggregator\<close> returns the aggregator, created in a delta state if it is not there.\<close>

definition get_aggregator :: "AggregatorID \<Rightarrow> u128 \<Rightarrow> AggregatorData \<Rightarrow> Aggregator \<times> AggregatorData" where
  "get_aggregator aid limit dat = (case map_of (aggregators dat) aid of
     Some a \<Rightarrow> (a, dat)
   | None \<Rightarrow> (delta_aggregator limit,
       dat\<lparr>aggregators := AList.update aid (delta_aggregator limit) (aggregators dat)\<rparr>))"

definition create_new_aggregator :: "AggregatorID \<Rightarrow> u128 \<Rightarrow> AggregatorData \<Rightarrow> AggregatorData" where
  "create_new_aggregator aid limit dat =
     dat\<lparr>aggregators := AList.update aid
           \<lparr>agg_value = 0, agg_state = Data, agg_limit = limit, agg_history = None\<rparr> (aggregators dat),
         new_aggregators := List.insert aid (new_aggregators dat)\<rparr>"

definition remove_aggregator :: "AggregatorID \<Rightarrow> AggregatorData \<Rightarrow> AggregatorData" where
  "remove_aggregator aid dat =
     (let dat = dat\<lparr>aggregators := AList.delete aid (aggregators dat)\<rparr> in
      if aid \<in> set (new_aggregators dat)
      then dat\<lparr>new_aggregators := removeAll aid (new_aggregators dat)\<rparr>
      else dat\<lparr>destroyed_aggregators := List.insert aid (destroyed_aggregators dat)\<rparr>)"

section \<open>The native functions\<close>

definition put_aggregator :: "AggregatorID \<Rightarrow> Aggregator \<Rightarrow> AggregatorData \<Rightarrow> AggregatorData" where
  "put_aggregator aid a dat = dat\<lparr>aggregators := AList.update aid a (aggregators dat)\<rparr>"

definition native_add :: "AggregatorID \<Rightarrow> u128 \<Rightarrow> u128 \<Rightarrow> (AggregatorData, PartialVMError, unit) op" where
  "native_add aid limit v = (\<lambda>dat. case get_aggregator aid limit dat of (a, dat) \<Rightarrow>
     (case agg_add v a of
        Ok a' \<Rightarrow> (Ok (), put_aggregator aid a' dat)
      | Err e \<Rightarrow> (Err e, dat)
      | Panic \<Rightarrow> (Panic, dat)))"

definition native_sub :: "AggregatorID \<Rightarrow> u128 \<Rightarrow> u128 \<Rightarrow> (AggregatorData, PartialVMError, unit) op" where
  "native_sub aid limit v = (\<lambda>dat. case get_aggregator aid limit dat of (a, dat) \<Rightarrow>
     (case agg_sub v a of
        Ok a' \<Rightarrow> (Ok (), put_aggregator aid a' dat)
      | Err e \<Rightarrow> (Err e, dat)
      | Panic \<Rightarrow> (Panic, dat)))"

definition native_read ::
  "Codec \<Rightarrow> (AggregatorID \<Rightarrow> (unit, Bytes option) outcome) \<Rightarrow> AggregatorID \<Rightarrow> u128 \<Rightarrow>
     (AggregatorData, PartialVMError, u128) op" where
  "native_read B resolver aid limit = (\<lambda>dat. case get_aggregator aid limit dat of (a, dat) \<Rightarrow>
     (case read_and_materialize B resolver aid a of
        Ok (v, a') \<Rightarrow> (Ok v, put_aggregator aid a' dat)
      | Err e \<Rightarrow> (Err e, dat)
      | Panic \<Rightarrow> (Panic, dat)))"

definition native_destroy :: "AggregatorID \<Rightarrow> (AggregatorData, PartialVMError, unit) op" where
  "native_destroy aid = modify (remove_aggregator aid)"

section \<open>The change set\<close>

datatype AggregatorChange = Write u128 | Merge DeltaOp | Delete

definition aggregator_change :: "Aggregator \<Rightarrow> ('e, AggregatorChange) outcome" where
  "aggregator_change a = (case agg_state a of
     Data \<Rightarrow> Ok (Write (agg_value a))
   | PositiveDelta \<Rightarrow> bind (expect (agg_history a)) (\<lambda>h.
       Ok (Merge (delta_new (Plus (agg_value a)) (agg_limit a) (hist_max_positive h) (hist_min_negative h))))
   | NegativeDelta \<Rightarrow> bind (expect (agg_history a)) (\<lambda>h.
       Ok (Merge (delta_new (Minus (agg_value a)) (agg_limit a) (hist_max_positive h) (hist_min_negative h)))))"

fun collect_changes ::
  "(AggregatorID \<times> Aggregator) list \<Rightarrow> (AggregatorID \<times> AggregatorChange) list \<Rightarrow>
     ('e, (AggregatorID \<times> AggregatorChange) list) outcome" where
  "collect_changes [] cs = Ok cs"
| "collect_changes ((aid, a) # as) cs =
     bind (aggregator_change a) (\<lambda>c. collect_changes as (AList.update aid c cs))"

definition into_change_set ::
  "AggregatorData \<Rightarrow> ('e, (AggregatorID \<times> AggregatorChange) list) outcome" where
  "into_change_set dat =
     bind (collect_changes (aggregators dat) []) (\<lambda>cs.
     Ok (fold (\<lambda>aid. AList.update aid Delete) (destroyed_aggregators dat) cs))"

fun squash_entry :: "AggregatorChange \<Rightarrow> AggregatorChange \<Rightarrow> (VMStatus, AggregatorChange) outcome" where
  "squash_entry Delete _ = Panic"
| "squash_entry _ (Write v) = Ok (Write v)"
| "squash_entry _ Delete = Ok Delete"
| "squash_entry (Write v) (Merge d) = bind (map_err Finished (apply_to d v)) (\<lambda>x. Ok (Write x))"
| "squash_entry (Merge d1) (Merge d2) = bind (map_err Finished (merge_onto d2 d1)) (\<lambda>d. Ok (Merge d))"

fun squash_changes ::
  "(AggregatorID \<times> AggregatorChange) list \<Rightarrow> (AggregatorID \<times> AggregatorChange) list \<Rightarrow>
     (VMStatus, (AggregatorID \<times> AggregatorChange) list) outcome" where
  "squash_changes cs [] = Ok cs"
| "squash_changes cs ((aid, c) # others) = (case map_of cs aid of
     None \<Rightarrow> squash_changes (AList.update aid c cs) others
   | Some c0 \<Rightarrow> bind (squash_entry c0 c) (\<lambda>c'. squash_changes (AList.update aid c' cs) others))"

section \<open>Executing on a delta\<close>

text \<open>The operations of a transaction on one aggregator, run on a value or on a delta.\<close>

datatype AggOp = AddOp u128 | SubOp u128

primrec agg_step :: "AggOp \<Rightarrow> Aggregator \<Rightarrow> Aggregator vm_partial" where
  "agg_step (AddOp v) = agg_add v"
| "agg_step (SubOp v) = agg_sub v"

primrec agg_run :: "AggOp list \<Rightarrow> Aggregator \<Rightarrow> Aggregator vm_partial" where
  "agg_run [] a = Ok a"
| "agg_run (x # xs) a = bind (agg_step x a) (agg_run xs)"

definition data_aggregator :: "u128 \<Rightarrow> u128 \<Rightarrow> Aggregator" where
  "data_aggregator v limit = \<lparr>agg_value = v, agg_state = Data, agg_limit = limit, agg_history = None\<rparr>"

text \<open>A shift of a number that must stay between zero and the limit, and the shift of an operation.\<close>

definition shift :: "int \<Rightarrow> int \<Rightarrow> int \<Rightarrow> int option" where
  "shift L s x = (if 0 \<le> x + s \<and> x + s \<le> L then Some (x + s) else None)"

primrec op_shift :: "AggOp \<Rightarrow> int" where
  "op_shift (AddOp v) = uint v"
| "op_shift (SubOp v) = - uint v"

primrec shifts :: "int \<Rightarrow> AggOp list \<Rightarrow> int option \<Rightarrow> int option" where
  "shifts L [] r = r"
| "shifts L (x # xs) r = shifts L xs (Option.bind r (shift L (op_shift x)))"

lemma shifts_None [simp]: "shifts L xs None = None"
  by (induction xs) simp_all

lemma data_step:
  assumes "v \<le> limit"
  shows "ok (agg_step x (data_aggregator v limit)) = None \<and> shift (uint limit) (op_shift x) (uint v) = None \<or>
    (\<exists>w \<le> limit. agg_step x (data_aggregator v limit) = Ok (data_aggregator w limit) \<and>
       shift (uint limit) (op_shift x) (uint v) = Some (uint w))"
proof (cases x)
  case (AddOp y)
  then show ?thesis
    by (cases "uint v + uint y \<le> uint limit")
       (auto simp: agg_add_def data_aggregator_def addition_eq shift_def uint_addition word_le_def)
next
  case (SubOp y)
  have "uint v - uint y \<le> uint limit" using assms uint_ge_0 [of y] unfolding word_le_def by linarith
  with SubOp show ?thesis
    by (cases "uint y \<le> uint v")
       (auto simp: agg_sub_def data_aggregator_def subtraction_eq shift_def uint_subtraction word_le_def)
qed

lemma data_run:
  assumes "v \<le> limit"
  shows "map_option (\<lambda>a. uint (agg_value a)) (ok (agg_run xs (data_aggregator v limit))) =
    shifts (uint limit) xs (Some (uint v))"
  using assms
proof (induction xs arbitrary: v)
  case (Cons x xs)
  from data_step [OF Cons.prems, of x] show ?case
  proof (elim disjE exE conjE)
    fix w
    assume "w \<le> limit" "agg_step x (data_aggregator v limit) = Ok (data_aggregator w limit)"
      "shift (uint limit) (op_shift x) (uint v) = Some (uint w)"
    with Cons.IH [of w] show ?thesis by simp
  qed simp
qed (simp add: data_aggregator_def)

text \<open>
  What a delta \<open>D\<close> with extremes \<open>M\<close> and \<open>N\<close> says of the run from \<open>b\<close>: it has
  not failed exactly if both extremes stay in range, and then it stands at \<open>b + D\<close>.
\<close>

definition tracks :: "int \<Rightarrow> int \<Rightarrow> int \<Rightarrow> int \<Rightarrow> int \<Rightarrow> int option \<Rightarrow> bool" where
  "tracks D M N L b r \<longleftrightarrow> D \<le> M \<and> - D \<le> N \<and> 0 \<le> M \<and> 0 \<le> N \<and>
     r = (if N \<le> b \<and> b + M \<le> L then Some (b + D) else None)"

lemma tracks_shift:
  "tracks D M N L b r \<Longrightarrow> tracks (D + s) (max M (D + s)) (max N (- (D + s))) L b (Option.bind r (shift L s))"
  by (auto simp: tracks_def shift_def)

lemma tracks_fail:
  assumes "tracks D M N L b r" "0 \<le> b" "b \<le> L" "L < D + s \<or> L < - (D + s) \<or> L < - s"
  shows "Option.bind r (shift L s) = None"
  using assms by (auto simp: tracks_def shift_def)

definition agg_delta :: "Aggregator \<Rightarrow> int" where
  "agg_delta a = (if agg_state a = NegativeDelta then - uint (agg_value a) else uint (agg_value a))"

lemma agg_delta_state [simp]:
  "agg_state a = PositiveDelta \<Longrightarrow> agg_delta a = uint (agg_value a)"
  "agg_state a = NegativeDelta \<Longrightarrow> agg_delta a = - uint (agg_value a)"
  by (simp_all add: agg_delta_def)

definition agg_tracks :: "Aggregator \<Rightarrow> u128 \<Rightarrow> u128 \<Rightarrow> int option \<Rightarrow> bool" where
  "agg_tracks a limit b r \<longleftrightarrow> agg_state a \<noteq> Data \<and> agg_limit a = limit \<and>
     (\<exists>h. agg_history a = Some h \<and>
        tracks (agg_delta a) (uint (hist_max_positive h)) (uint (hist_min_negative h)) (uint limit) (uint b) r)"

lemma uint_max: "uint (max a b) = max (uint a) (uint (b :: 'a::len word))"
  by (simp add: max_def word_le_def)

text \<open>Recording keeps the extremes of a delta that has moved by \<open>s\<close>.\<close>

lemma record_tracks:
  assumes "agg_tracks a limit b r" and a': "agg_limit a' = agg_limit a" "agg_history a' = agg_history a"
    "agg_state a' \<noteq> Data" "agg_delta a' = agg_delta a + s"
  shows "\<exists>c. agg_record a' = Ok c \<and> agg_tracks c limit b (Option.bind r (shift (uint limit) s))"
proof -
  from assms(1) obtain h where h: "agg_history a = Some h" "agg_limit a = limit"
    "tracks (agg_delta a) (uint (hist_max_positive h)) (uint (hist_min_negative h)) (uint limit) (uint b) r"
    by (auto simp: agg_tracks_def)
  note t = tracks_shift [OF h(3), of s]
  have pos: "max (uint (hist_min_negative h)) (- uint v) = uint (hist_min_negative h)"
    "max (uint (hist_max_positive h)) (- uint v) = uint (hist_max_positive h)" for v :: u128
    using uint_ge_0 [of v] uint_ge_0 [of "hist_min_negative h"] uint_ge_0 [of "hist_max_positive h"] by linarith+
  show ?thesis
  proof (cases "agg_state a'")
    case PositiveDelta
    with a' have e: "agg_delta a + s = uint (agg_value a')" by simp
    from t PositiveDelta a' h show ?thesis unfolding e
      by (simp add: agg_record_def agg_tracks_def record_positive_def uint_max pos)
  next
    case NegativeDelta
    with a' have e: "agg_delta a + s = - uint (agg_value a')" by simp
    from t NegativeDelta a' h show ?thesis unfolding e
      by (simp add: agg_record_def agg_tracks_def record_negative_def uint_max pos)
  qed (use a' in simp)
qed


text \<open>One operation: the delta moves with the value, or both fail.\<close>

definition follows :: "AggOp \<Rightarrow> Aggregator \<Rightarrow> u128 \<Rightarrow> u128 \<Rightarrow> int option \<Rightarrow> bool" where
  "follows x a limit b r \<longleftrightarrow>
     (\<exists>c. agg_step x a = Ok c \<and> agg_tracks c limit b (Option.bind r (shift (uint limit) (op_shift x)))) \<or>
     (\<exists>e. agg_step x a = Err e) \<and> Option.bind r (shift (uint limit) (op_shift x)) = None"

lemma follows_record:
  assumes "agg_tracks a limit b r" "agg_step x a = agg_record a'" "agg_limit a' = agg_limit a"
    "agg_history a' = agg_history a" "agg_state a' \<noteq> Data" "agg_delta a' = agg_delta a + op_shift x"
  shows "follows x a limit b r"
  using record_tracks [OF assms(1,3-6)] assms(2) by (auto simp: follows_def)

lemma follows_fail:
  assumes "agg_tracks a limit b r" "b \<le> limit" "agg_step x a = Err e"
    "uint limit < agg_delta a + op_shift x \<or> uint limit < - (agg_delta a + op_shift x) \<or> uint limit < - op_shift x"
  shows "follows x a limit b r"
  using assms tracks_fail [OF _ _ _ assms(4)] by (auto simp: follows_def agg_tracks_def word_le_def)

lemma tracks_limit: "agg_tracks a limit b r \<Longrightarrow> agg_limit a = limit"
  by (simp add: agg_tracks_def)

lemma add_follows:
  assumes t: "agg_tracks a limit b r" and b: "b \<le> limit"
  shows "follows (AddOp v) a limit b r"
proof (cases "agg_state a")
  case PositiveDelta
  note x = this tracks_limit [OF t]
  show ?thesis
  proof (cases "uint (agg_value a) + uint v \<le> uint limit")
    case True
    then show ?thesis using x
      by (intro follows_record [OF t, of _ "a\<lparr>agg_value := agg_value a + v\<rparr>"])
         (simp_all add: agg_add_def addition_eq uint_addition)
  next
    case False
    then show ?thesis using x by (intro follows_fail [OF t b]) (simp_all add: agg_add_def addition_eq)
  qed
next
  case NegativeDelta
  show ?thesis
  proof (cases "uint (agg_value a) \<le> uint v")
    case True
    then show ?thesis using NegativeDelta
      by (intro follows_record [OF t, of _ "a\<lparr>agg_value := v - agg_value a, agg_state := PositiveDelta\<rparr>"])
         (simp_all add: agg_add_def subtraction_eq uint_subtraction word_le_def)
  next
    case False
    then show ?thesis using NegativeDelta
      by (intro follows_record [OF t, of _ "a\<lparr>agg_value := agg_value a - v\<rparr>"])
         (simp_all add: agg_add_def subtraction_eq uint_subtraction word_le_def)
  qed
qed (use t in \<open>simp add: agg_tracks_def\<close>)

lemma sub_follows:
  assumes t: "agg_tracks a limit b r" and b: "b \<le> limit"
  shows "follows (SubOp v) a limit b r"
proof (cases "agg_state a")
  case NegativeDelta
  note x = this tracks_limit [OF t]
  show ?thesis
  proof (cases "uint (agg_value a) + uint v \<le> uint limit")
    case True
    then show ?thesis using x
      by (intro follows_record [OF t, of _ "a\<lparr>agg_value := agg_value a + v\<rparr>"])
         (simp_all add: agg_sub_def addition_eq uint_addition)
  next
    case False
    then show ?thesis using x by (intro follows_fail [OF t b]) (simp_all add: agg_sub_def addition_eq)
  qed
next
  case PositiveDelta
  note x = this tracks_limit [OF t]
  consider "uint v \<le> uint (agg_value a)" | "uint limit < uint v" "uint (agg_value a) < uint v"
    | "uint (agg_value a) < uint v" "uint v \<le> uint limit" by linarith
  then show ?thesis
  proof cases
    case 1
    then show ?thesis using x
      by (intro follows_record [OF t, of _ "a\<lparr>agg_value := agg_value a - v\<rparr>"])
         (simp_all add: agg_sub_def subtraction_eq uint_subtraction word_le_def)
  next
    case 2
    then show ?thesis using x
      by (intro follows_fail [OF t b]) (simp_all add: agg_sub_def subtraction_eq word_le_def)
  next
    case 3
    then show ?thesis using x
      by (intro follows_record [OF t, of _ "a\<lparr>agg_value := v - agg_value a, agg_state := NegativeDelta\<rparr>"])
         (simp_all add: agg_sub_def subtraction_eq uint_subtraction word_le_def)
  qed
qed (use t in \<open>simp add: agg_tracks_def\<close>)

lemma step_follows: "agg_tracks a limit b r \<Longrightarrow> b \<le> limit \<Longrightarrow> follows x a limit b r"
  by (cases x) (simp_all add: add_follows sub_follows)

lemma run_tracks:
  assumes "agg_tracks a limit b r" "b \<le> limit"
  shows "(\<exists>c. agg_run xs a = Ok c \<and> agg_tracks c limit b (shifts (uint limit) xs r)) \<or>
    (\<exists>e. agg_run xs a = Err e) \<and> shifts (uint limit) xs r = None"
  using assms(1)
proof (induction xs arbitrary: a r)
  case (Cons x xs)
  from step_follows [OF Cons.prems assms(2), of x] show ?case
    unfolding follows_def
  proof (elim disjE exE conjE)
    fix c
    assume "agg_step x a = Ok c" "agg_tracks c limit b (Option.bind r (shift (uint limit) (op_shift x)))"
    with Cons.IH [of c] show ?thesis by simp
  qed simp
qed simp

lemma delta_aggregator_tracks: "b \<le> limit \<Longrightarrow> agg_tracks (delta_aggregator limit) limit b (Some (uint b))"
  by (simp add: agg_tracks_def delta_aggregator_def history_new_def tracks_def word_le_def)

text \<open>The delta that leaves the transaction, and reading it within the transaction.\<close>

lemma tracks_change:
  assumes "agg_tracks a limit b r"
  shows "\<exists>d. aggregator_change a = Ok (Merge d) \<and> delta_wf d \<and> dop_limit d = limit \<and> delta_fun d (uint b) = r"
proof -
  from assms obtain h where h: "agg_history a = Some h" "agg_limit a = limit" "agg_state a \<noteq> Data"
    "tracks (agg_delta a) (uint (hist_max_positive h)) (uint (hist_min_negative h)) (uint limit) (uint b) r"
    by (auto simp: agg_tracks_def)
  then show ?thesis
    by (cases "agg_state a")
       (auto simp: aggregator_change_def delta_new_def delta_wf_def delta_fun_def tracks_def)
qed

lemma tracks_read:
  assumes "agg_tracks a limit b r" "resolver aid = Ok (Some bytes)" "from_bytes B bytes = Some b"
  shows "map_option (\<lambda>(v, c). uint v) (ok (read_and_materialize B resolver aid a)) = r"
proof -
  from assms obtain h where h: "agg_history a = Some h" "agg_limit a = limit" "agg_state a \<noteq> Data"
    "tracks (agg_delta a) (uint (hist_max_positive h)) (uint (hist_min_negative h)) (uint limit) (uint b) r"
    by (auto simp: agg_tracks_def)
  then show ?thesis using assms(2,3)
    by (cases "agg_state a")
       (auto simp: read_and_materialize_def deserialize_def tracks_def addition_eq subtraction_eq
          uint_subtraction intro: uint_addition [of _ _ limit])
qed

section \<open>A delta stands for its run\<close>

text \<open>C27.  Let a transaction add to and subtract from an aggregator whose value it does not know.
  Its operations never panic.  If they all succeed, the aggregator leaves a well-formed delta
  that applies to a base value within the limit exactly if the same operations succeed on that
  value, with the same result; if one of them fails, the run on every such value fails.\<close>

theorem aggregator_delta_is_run:
  assumes "b \<le> limit"
  shows "case agg_run ops (delta_aggregator limit) of
      Ok a \<Rightarrow> \<exists>d. aggregator_change a = (Ok (Merge d) :: AggregatorChange vm_partial) \<and> delta_wf d \<and>
        ok (apply_to d b) = map_option agg_value (ok (agg_run ops (data_aggregator b limit)))
    | Err e \<Rightarrow> ok (agg_run ops (data_aggregator b limit)) = None
    | Panic \<Rightarrow> False"
proof -
  note data = data_run [OF assms, of ops]
  from run_tracks [OF delta_aggregator_tracks [OF assms] assms, of ops] show ?thesis
  proof (elim disjE exE conjE)
    fix a assume a: "agg_run ops (delta_aggregator limit) = Ok a"
      "agg_tracks a limit b (shifts (uint limit) ops (Some (uint b)))"
    from tracks_change [OF a(2), where 'a = PartialVMError] obtain d where
      d: "aggregator_change a = (Ok (Merge d) :: AggregatorChange vm_partial)" "delta_wf d"
        "delta_fun d (uint b) = shifts (uint limit) ops (Some (uint b))" by blast
    have "ok (apply_to d b) = map_option agg_value (ok (agg_run ops (data_aggregator b limit)))"
      using apply_to_fun [of d b] d(3) data
      by (intro uint_option_eq) (simp add: option.map_comp comp_def)
    with a d show ?thesis by auto
  qed (use data in auto)
qed

theorem aggregator_delta_is_run_witness:
  "case agg_run [AddOp 7, SubOp 9] (delta_aggregator 10) of
      Ok a \<Rightarrow> \<exists>d. aggregator_change a = (Ok (Merge d) :: AggregatorChange vm_partial) \<and>
        ok (apply_to d 4) = None
    | _ \<Rightarrow> False"
  using aggregator_delta_is_run [of 4 10 "[AddOp 7, SubOp 9]"]
  by (auto simp: agg_add_def agg_sub_def addition_eq subtraction_eq delta_aggregator_def data_aggregator_def
      agg_record_def history_new_def)

text \<open>C28.  Reading an aggregator within its transaction, at any point after a sequence of
  operations, yields what the operations yield on the value stored, or fails with them.\<close>

theorem aggregator_read_is_run:
  assumes "b \<le> limit" "resolver aid = Ok (Some bytes)" "from_bytes B bytes = Some b"
  shows "ok (bind (agg_run ops (delta_aggregator limit)) (\<lambda>a.
             bind (read_and_materialize B resolver aid a) (\<lambda>(v, _). Ok v))) =
         map_option agg_value (ok (agg_run ops (data_aggregator b limit)))"
proof (rule uint_option_eq)
  note data = data_run [OF assms(1), of ops]
  have u: "map_option uint (ok (bind (read_and_materialize B resolver aid a) (\<lambda>(v, _). Ok v))) =
      map_option (\<lambda>(v, c). uint v) (ok (read_and_materialize B resolver aid a))" for a
    by (cases "read_and_materialize B resolver aid a") auto
  from run_tracks [OF delta_aggregator_tracks [OF assms(1)] assms(1), of ops]
  show "map_option uint (ok (bind (agg_run ops (delta_aggregator limit)) (\<lambda>a.
             bind (read_and_materialize B resolver aid a) (\<lambda>(v, _). Ok v)))) =
         map_option uint (map_option agg_value (ok (agg_run ops (data_aggregator b limit))))"
    using tracks_read [of _ limit b _ resolver aid bytes B] assms(2,3) data u by (auto simp: option.map_comp comp_def simp del: ok_bind)
qed

theorem aggregator_read_is_run_witness:
  "ok (bind (agg_run [AddOp 7, SubOp 9] (delta_aggregator 100)) (\<lambda>a.
     bind (read_and_materialize be_codec (\<lambda>_. Ok (Some (to_be 16 (50 :: u128)))) \<lparr>aid_handle = 1, aid_key = 2\<rparr> a)
       (\<lambda>(v, _). Ok v))) = Some 48"
  using aggregator_read_is_run [of 50 100 "\<lambda>_. Ok (Some (to_be 16 (50 :: u128)))" "\<lparr>aid_handle = 1, aid_key = 2\<rparr>"
      "to_be 16 (50 :: u128)" be_codec "[AddOp 7, SubOp 9]"]
  by (simp add: be_codec_def from_be_to_be agg_add_def agg_sub_def addition_eq subtraction_eq data_aggregator_def)

section \<open>Squashing change sets\<close>

text \<open>A change as a partial function on what is stored under an identifier.\<close>

primrec change_act :: "AggregatorChange \<Rightarrow> u128 option \<Rightarrow> u128 option option" where
  "change_act (Write v) s = Some (Some v)"
| "change_act (Merge d) s = Option.bind s (\<lambda>b. map_option Some (ok (apply_to d b)))"
| "change_act Delete s = Some None"

definition entry_act :: "(AggregatorID \<times> AggregatorChange) list \<Rightarrow> AggregatorID \<Rightarrow> u128 option \<Rightarrow> u128 option option" where
  "entry_act cs aid s = (case map_of cs aid of None \<Rightarrow> Some s | Some c \<Rightarrow> change_act c s)"

text \<open>Nothing follows a deletion, and two deltas are well-formed and share their limit.\<close>

fun squashable :: "AggregatorChange \<Rightarrow> AggregatorChange \<Rightarrow> bool" where
  "squashable Delete _ = False"
| "squashable (Merge d1) (Merge d2) = (delta_wf d1 \<and> delta_wf d2 \<and> dop_limit d2 = dop_limit d1)"
| "squashable _ _ = True"

lemma squash_entry_act:
  assumes "squashable c1 c2" "Option.bind (change_act c1 s) (change_act c2) = Some t"
  shows "\<exists>c. squash_entry c1 c2 = Ok c \<and> change_act c s = Some t"
proof (cases c1)
  case (Write v)
  with assms(2) show ?thesis by (cases c2) (auto simp: bind_eq_Some_conv)
next
  case (Merge d1)
  show ?thesis
  proof (cases c2)
    case Merge': (Merge d2)
    with Merge assms(1) have wf: "delta_wf d1" "dop_limit d2 = dop_limit d1" by simp_all
    from assms(2) Merge Merge' obtain b x y where bxy: "s = Some b" "ok (apply_to d1 b) = Some x"
      "ok (apply_to d2 x) = Some y" "t = Some y" by (auto simp: bind_eq_Some_conv)
    then have step: "Option.bind (ok (apply_to d1 b)) (\<lambda>x. ok (apply_to d2 x)) = Some y" by simp
    show ?thesis
    proof (cases "merge_onto d2 d1")
      case (Ok m)
      with merge_composes [OF wf Ok, of b] step bxy Merge Merge' show ?thesis by simp
    next
      case (Err e)
      with merge_fails [OF wf Err, of b] step show ?thesis by simp
    qed (simp add: merge_neq_Panic)
  qed (use assms Merge in \<open>auto simp: bind_eq_Some_conv\<close>)
qed (use assms in simp)

text \<open>C29.  Squashing the change set of a second session into that of a first one gives, for every
  identifier, the change that takes a stored value where the two changes take it one after the
  other, whenever both apply.\<close>

theorem squash_changes_compose:
  assumes "distinct (map fst others)"
    and "\<And>aid c1 c2. map_of cs aid = Some c1 \<Longrightarrow> map_of others aid = Some c2 \<Longrightarrow> squashable c1 c2"
    and "\<And>aid. Option.bind (entry_act cs aid (\<sigma> aid)) (entry_act others aid) = Some (\<tau> aid)"
  shows "\<exists>rs. squash_changes cs others = Ok rs \<and> (\<forall>aid. entry_act rs aid (\<sigma> aid) = Some (\<tau> aid))"
  using assms
proof (induction others arbitrary: cs)
  case Nil
  then show ?case by (auto simp: entry_act_def bind_eq_Some_conv split: option.splits)
next
  case (Cons x others)
  obtain aid c where x: "x = (aid, c)" by fastforce
  from Cons.prems(1) x have fresh: "map_of others aid = None" by (simp add: map_of_eq_None_iff)
  define c' where "c' = (case map_of cs aid of None \<Rightarrow> Ok c | Some c0 \<Rightarrow> squash_entry c0 c)"
  have "\<exists>k. c' = Ok k \<and> change_act k (\<sigma> aid) = Some (\<tau> aid)"
    using Cons.prems(2) [of aid] Cons.prems(3) [of aid] squash_entry_act x
    by (cases "map_of cs aid") (auto simp: c'_def entry_act_def)
  then obtain k where k: "c' = Ok k" "change_act k (\<sigma> aid) = Some (\<tau> aid)" by blast
  let ?cs = "AList.update aid k cs"
  have "\<exists>rs. squash_changes ?cs others = Ok rs \<and> (\<forall>aid. entry_act rs aid (\<sigma> aid) = Some (\<tau> aid))"
  proof (rule Cons.IH)
    show "distinct (map fst others)" using Cons.prems(1) by simp
    show "squashable c1 c2" if "map_of ?cs a = Some c1" "map_of others a = Some c2" for a c1 c2
      using that Cons.prems(2) [of a c1 c2] fresh x by (auto simp: update_conv' split: if_splits)
    show "Option.bind (entry_act ?cs a (\<sigma> a)) (entry_act others a) = Some (\<tau> a)" for a
      using Cons.prems(3) [of a] fresh x k(2)
      by (cases "a = aid") (auto simp: entry_act_def [abs_def] update_conv' split: option.splits)
  qed
  moreover have "squash_changes cs (x # others) = squash_changes ?cs others"
    using k(1) x by (auto simp: c'_def split: option.splits)
  ultimately show ?case by simp
qed

theorem squash_changes_compose_witness:
  "\<exists>rs. squash_changes [(\<lparr>aid_handle = 1, aid_key = 2\<rparr>, Write 5)] [(\<lparr>aid_handle = 1, aid_key = 2\<rparr>, Merge (delta_add 2 10))] = Ok rs \<and>
     entry_act rs \<lparr>aid_handle = 1, aid_key = 2\<rparr> None = Some (Some 7)"
proof -
  let ?k = "\<lparr>aid_handle = 1, aid_key = 2\<rparr>"
  have "Option.bind (entry_act [(?k, Write 5)] a None) (entry_act [(?k, Merge (delta_add 2 10))] a) =
      Some (if a = ?k then Some 7 else None)" for a
    by (simp add: entry_act_def apply_to_def addition_eq subtraction_eq delta_add_def delta_new_def)
  moreover have "squashable c1 c2" if "map_of [(?k, Write 5)] a = Some c1"
    "map_of [(?k, Merge (delta_add 2 10))] a = Some c2" for a c1 c2
    using that by (auto split: if_splits)
  ultimately obtain rs where "squash_changes [(?k, Write 5)] [(?k, Merge (delta_add 2 10))] = Ok rs"
    "\<forall>a. entry_act rs a None = Some (if a = ?k then Some 7 else None)"
    using squash_changes_compose [of "[(?k, Merge (delta_add 2 10))]" "[(?k, Write 5)]" "\<lambda>_. None"
        "\<lambda>a. if a = ?k then Some 7 else None"] by auto
  then show ?thesis by auto
qed

end
