(* ===== verification/Interleaving.thy ===== *)
theory Interleaving
  imports Prelude
begin

text \<open>
  Concurrent programs as interleavings of atomic actions, and a logic for them.

  A program returns, panics, or performs one atomic action on the shared state
  and continues; an action that is not enabled waits.  A worker is at a point
  between two calls or inside a call.  In the logic every worker holds a token,
  a ghost value that says what it is entitled and obliged to do; the invariant
  relates the shared state to the tokens of all workers.  A worker proves its
  program against the invariant alone: it may assume the invariant and its own
  token before an action and must give the invariant back, with a new token of
  its own, after it.  What a worker knows between its actions is in its token,
  which nobody else changes.
\<close>

section \<open>Programs of atomic actions\<close>

datatype ('s, 'a) prog =
    Return 'a
  | Crash
  | Act "'s \<Rightarrow> (('s, 'a) prog \<times> 's) option"

primrec pbind :: "('s, 'a) prog \<Rightarrow> ('a \<Rightarrow> ('s, 'b) prog) \<Rightarrow> ('s, 'b) prog" where
  "pbind (Return x) k = k x"
| "pbind Crash k = Crash"
| "pbind (Act f) k = Act (map_option (map_prod (\<lambda>p. pbind p k) id) \<circ> f)"

definition atomic :: "('s \<Rightarrow> 'a \<times> 's) \<Rightarrow> ('s, 'a) prog" where
  "atomic f = Act (\<lambda>s. case f s of (x, s') \<Rightarrow> Some (Return x, s'))"

text \<open>An action that may panic (\<open>None\<close>).\<close>

definition attempt :: "('s \<Rightarrow> ('a \<times> 's) option) \<Rightarrow> ('s, 'a) prog" where
  "attempt f = Act (\<lambda>s. case f s of Some (x, s') \<Rightarrow> Some (Return x, s') | None \<Rightarrow> Some (Crash, s))"

primrec run :: "('s, 'a) prog \<Rightarrow> 's \<Rightarrow> ('e, 'a) outcome option \<times> 's" where
  "run (Return x) s = (Some (Ok x), s)"
| "run Crash s = (Some Panic, s)"
| "run (Act f) s = (case map_option (map_prod run id) (f s) of
     None \<Rightarrow> (None, s)
   | Some (r, s') \<Rightarrow> r s')"

lemma pbind_assoc: "pbind (pbind p c) d = pbind p (\<lambda>x. pbind (c x) d)"
proof (induction p)
  case (Act f)
  have "pbind (pbind p c) d = pbind p (\<lambda>x. pbind (c x) d)" if "f s = Some (p, s')" for s p s'
    by (rule Act.IH [OF rangeI [of f s], of "(p, s')"]) (simp_all add: that)
  then have "map_option (map_prod (\<lambda>p. pbind p d) id) (map_option (map_prod (\<lambda>p. pbind p c) id) (f x)) =
      map_option (map_prod (\<lambda>p. pbind p (\<lambda>x. pbind (c x) d)) id) (f x)" for x
    by (cases "f x") auto
  then show ?case by (simp add: fun_eq_iff)
qed auto

lemma pbind_Return: "pbind p Return = p"
proof (induction p)
  case (Act f)
  have "pbind p Return = p" if "f s = Some (p, s')" for s p s'
    by (rule Act.IH [OF rangeI [of f s], of "(p, s')"]) (simp_all add: that)
  then have "map_option (map_prod (\<lambda>p. pbind p Return) id) (f x) = f x" for x by (cases "f x") auto
  then show ?case by (simp add: fun_eq_iff)
qed auto

text \<open>Programs that start with an action.\<close>

abbreviation acts :: "('s, 'a) prog \<Rightarrow> bool" where
  "acts p \<equiv> \<exists>f. p = Act f"

lemma acts_rules: "acts (atomic f)" "acts (attempt g)" "acts p \<Longrightarrow> acts (pbind p c)"
  by (auto simp: atomic_def attempt_def)

section \<open>Workers\<close>

text \<open>
  What a worker may do at a point is given by a relation \<open>turn\<close>: it goes on to
  another point or calls a program, and a ghost component may change.  The
  workers take turns, actions and returns in any order.
\<close>

datatype ('s, 'p) worker = At 'p | Call "('s, 'p) prog"

record ('s, 'p, 'u) system =
  shared :: 's
  workers :: "('s, 'p) worker list"
  ghost :: 'u

inductive system_step ::
  "('s \<Rightarrow> 'u \<Rightarrow> 'p \<Rightarrow> ('s, 'p) worker \<Rightarrow> 'u \<Rightarrow> bool) \<Rightarrow> ('s, 'p, 'u) system \<Rightarrow> ('s, 'p, 'u) system \<Rightarrow> bool"
  for turn where
  step_turn: "t < length (workers e) \<Longrightarrow> workers e ! t = At p \<Longrightarrow> turn (shared e) (ghost e) p w u \<Longrightarrow>
    system_step turn e (e\<lparr>workers := (workers e)[t := w], ghost := u\<rparr>)"
| step_act: "t < length (workers e) \<Longrightarrow> workers e ! t = Call (Act f) \<Longrightarrow> f (shared e) = Some (p, s) \<Longrightarrow>
    system_step turn e (e\<lparr>shared := s, workers := (workers e)[t := Call p]\<rparr>)"
| step_return: "t < length (workers e) \<Longrightarrow> workers e ! t = Call (Return p) \<Longrightarrow>
    system_step turn e (e\<lparr>workers := (workers e)[t := At p]\<rparr>)"

definition start :: "nat \<Rightarrow> 's \<Rightarrow> 'u \<Rightarrow> 'p \<Rightarrow> ('s, 'p, 'u) system" where
  "start m s u p = \<lparr>shared = s, workers = replicate m (At p), ghost = u\<rparr>"

lemma stuck_call:
  assumes "\<nexists>e'. system_step turn e e'" "t < length (workers e)" "workers e ! t = Call c" "c \<noteq> Crash"
  obtains f where "c = Act f" "f (shared e) = None"
proof (cases c)
  case (Return p)
  with step_return [OF assms(2), of p turn] assms(1,3) show ?thesis by blast
next
  case (Act f)
  have "f (shared e) \<noteq> Some (p, s)" for p s
    using step_act [OF assms(2), of f p s turn] assms(1,3) Act by blast
  with that Act show ?thesis by (cases "f (shared e)") auto
qed (use assms(4) in simp)

section \<open>A run of one worker\<close>

text \<open>A worker alone runs a call from start to end.\<close>

abbreviation solo :: "'s \<Rightarrow> 'p \<Rightarrow> 'u \<Rightarrow> ('s, 'p, 'u) system" where
  "solo s p u \<equiv> \<lparr>shared = s, workers = [At p], ghost = u\<rparr>"

lemma run_steps:
  assumes "run c s = (Some (Ok p :: (unit, 'p) outcome), s')"
  shows "(system_step turn)\<^sup>*\<^sup>* \<lparr>shared = s, workers = [Call c], ghost = u\<rparr> (solo s' p u)"
  using assms
proof (induction c arbitrary: s)
  case (Return q)
  then have "system_step turn \<lparr>shared = s, workers = [Call (Return q)], ghost = u\<rparr> (solo s' p u)"
    using step_return [of 0 "\<lparr>shared = s, workers = [Call (Return q)], ghost = u\<rparr>" q] by simp
  then show ?case by blast
next
  case (Act f)
  show ?case
  proof (cases "f s")
    case (Some r)
    obtain c' s1 where r: "r = (c', s1)" by (cases r)
    have "system_step turn \<lparr>shared = s, workers = [Call (Act f)], ghost = u\<rparr>
        \<lparr>shared = s1, workers = [Call c'], ghost = u\<rparr>"
      using step_act [of 0 "\<lparr>shared = s, workers = [Call (Act f)], ghost = u\<rparr>" f c' s1] Some r by simp
    moreover have "(system_step turn)\<^sup>*\<^sup>* \<lparr>shared = s1, workers = [Call c'], ghost = u\<rparr> (solo s' p u)"
      using Act.IH [of "f s" r c' s1] Act.prems Some r by (simp add: rangeI [of f s, unfolded Some r])
    ultimately show ?thesis by (rule converse_rtranclp_into_rtranclp)
  qed (use Act.prems in simp)
qed simp

lemma solo_turn:
  assumes "(system_step turn)\<^sup>*\<^sup>* e (solo s p u)" "turn s u p (At q) u'"
  shows "(system_step turn)\<^sup>*\<^sup>* e (solo s q u')"
  using assms(1) step_turn [of 0 "solo s p u" p turn "At q" u'] assms(2) by simp

lemma solo_call:
  assumes "(system_step turn)\<^sup>*\<^sup>* e (solo s p u)" "turn s u p (Call c) u'"
    and "run c s = (Some (Ok q :: (unit, 'p) outcome), s')"
  shows "(system_step turn)\<^sup>*\<^sup>* e (solo s' q u')"
proof -
  have "system_step turn (solo s p u) \<lparr>shared = s, workers = [Call c], ghost = u'\<rparr>"
    using step_turn [of 0 "solo s p u" p turn "Call c" u'] assms(2) by simp
  with assms(1) have "(system_step turn)\<^sup>*\<^sup>* e \<lparr>shared = s, workers = [Call c], ghost = u'\<rparr>"
    by (rule rtranclp.rtrancl_into_rtrancl)
  then show ?thesis using run_steps [OF assms(3)] by (rule rtranclp_trans)
qed

section \<open>Programs against an invariant\<close>

text \<open>\<open>W\<close> says in which states a worker with a given token may have to wait for its next action.\<close>

primrec ok_prog ::
  "('s, 'a) prog \<Rightarrow> ('s \<Rightarrow> 'u \<Rightarrow> (nat \<Rightarrow> 'k) \<Rightarrow> bool) \<Rightarrow> ('s \<Rightarrow> 'k \<Rightarrow> bool) \<Rightarrow> nat \<Rightarrow>
     ('k \<Rightarrow> 'a \<Rightarrow> bool) \<Rightarrow> 'k \<Rightarrow> bool" where
  "ok_prog (Return x) I W t Q k \<longleftrightarrow> Q k x"
| "ok_prog Crash I W t Q k \<longleftrightarrow> False"
| "ok_prog (Act f) I W t Q k \<longleftrightarrow> (\<forall>s u \<gamma>. I s u \<gamma> \<longrightarrow> \<gamma> t = k \<longrightarrow>
     (case map_option (map_prod ok_prog id) (f s) of
        None \<Rightarrow> W s k
      | Some (g, s') \<Rightarrow> \<exists>k'. I s' u (\<gamma>(t := k')) \<and> g I W t Q k'))"

lemma ok_prog_act:
  assumes "ok_prog (Act f) I W t Q k" "I s u \<gamma>" "\<gamma> t = k" "f s = Some (p, s')"
  shows "\<exists>k'. I s' u (\<gamma>(t := k')) \<and> ok_prog p I W t Q k'"
  using assms(1) [unfolded ok_prog.simps, rule_format, OF assms(2,3)] by (simp add: assms(4))

lemma ok_prog_wait:
  assumes "ok_prog (Act f) I W t Q k" "I s u \<gamma>" "\<gamma> t = k" "f s = None"
  shows "W s k"
  using assms(1) [unfolded ok_prog.simps, rule_format, OF assms(2,3)] by (simp add: assms(4))

lemma ok_prog_mono:
  assumes "ok_prog p I W t Q k" "\<And>k x. Q k x \<Longrightarrow> R k x"
  shows "ok_prog p I W t R k"
  using assms(1)
proof (induction p arbitrary: k)
  case (Act f)
  have "\<exists>k'. I s' u (\<gamma>(t := k')) \<and> ok_prog p I W t R k'"
    if "I s u \<gamma>" "\<gamma> t = k" "f s = Some (p, s')" for s u \<gamma> p s'
    using ok_prog_act [OF Act.prems that] Act.IH [of "Some (p, s')" "(p, s')" p] that(3)
    by (metis option.set_intros prod_set_simps(1) rangeI singletonI)
  then show ?case using ok_prog_wait [OF Act.prems] by (auto split: option.split)
qed (use assms(2) in auto)

lemma ok_prog_bind:
  assumes "ok_prog p I W t (\<lambda>k x. ok_prog (c x) I W t Q k) k"
  shows "ok_prog (pbind p c) I W t Q k"
  using assms
proof (induction p arbitrary: k)
  case (Act f)
  have "\<exists>k'. I s' u (\<gamma>(t := k')) \<and> ok_prog (pbind p c) I W t Q k'"
    if "I s u \<gamma>" "\<gamma> t = k" "f s = Some (p, s')" for s u \<gamma> p s'
    using ok_prog_act [OF Act.prems that] Act.IH [of "Some (p, s')" "(p, s')" p] that(3)
    by (metis option.set_intros prod_set_simps(1) rangeI singletonI)
  then show ?case using ok_prog_wait [OF Act.prems] by (auto split: option.split)
qed auto

lemma ok_prog_seq:
  assumes "ok_prog p I W t R k" "\<And>k x. R k x \<Longrightarrow> ok_prog (c x) I W t Q k"
  shows "ok_prog (pbind p c) I W t Q k"
  by (rule ok_prog_bind, rule ok_prog_mono [OF assms(1)]) (rule assms(2))

lemma ok_prog_atomic:
  assumes "\<And>s u \<gamma>. I s u \<gamma> \<Longrightarrow> \<gamma> t = k \<Longrightarrow>
    \<exists>k'. I (snd (f s)) u (\<gamma>(t := k')) \<and> Q k' (fst (f s))"
  shows "ok_prog (atomic f) I W t Q k"
  using assms by (force simp: atomic_def split: prod.split)

lemma ok_prog_attempt:
  assumes "\<And>s u \<gamma>. I s u \<gamma> \<Longrightarrow> \<gamma> t = k \<Longrightarrow>
    \<exists>x s' k'. f s = Some (x, s') \<and> I s' u (\<gamma>(t := k')) \<and> Q k' x"
  shows "ok_prog (attempt f) I W t Q k"
  using assms by (force simp: attempt_def split: option.split prod.split)

lemma ok_prog_Act:
  assumes "\<And>s u \<gamma>. I s u \<gamma> \<Longrightarrow> \<gamma> t = k \<Longrightarrow> f s = None \<Longrightarrow> W s k"
    and "\<And>s u \<gamma> p s'. I s u \<gamma> \<Longrightarrow> \<gamma> t = k \<Longrightarrow> f s = Some (p, s') \<Longrightarrow> \<exists>k'. I s' u (\<gamma>(t := k')) \<and> ok_prog p I W t Q k'"
  shows "ok_prog (Act f) I W t Q k"
  using assms by (auto split: option.split)

text \<open>A worker may change its token before an action that never waits.\<close>

lemma ok_prog_ghost:
  assumes "\<And>s u \<gamma>. I s u \<gamma> \<Longrightarrow> \<gamma> t = k \<Longrightarrow> I s u (\<gamma>(t := k'))" "ok_prog (Act f) I W t Q k'" "\<And>s. f s \<noteq> None"
  shows "ok_prog (Act f) I W t Q k"
proof (rule ok_prog_Act)
  fix s u \<gamma> p s' assume a: "I s u \<gamma>" "\<gamma> t = k" "f s = Some (p, s')"
  show "\<exists>k2. I s' u (\<gamma>(t := k2)) \<and> ok_prog p I W t Q k2"
    using ok_prog_act [OF assms(2), of s u "\<gamma>(t := k')" p s'] assms(1) [OF a(1,2)] a(3) by simp
qed (use assms(3) in blast)

section \<open>Programs whose actions obey a relation\<close>

primrec obeys :: "('s \<Rightarrow> 's \<Rightarrow> bool) \<Rightarrow> ('s, 'a) prog \<Rightarrow> bool" where
  "obeys R (Return x) \<longleftrightarrow> True"
| "obeys R Crash \<longleftrightarrow> True"
| "obeys R (Act f) \<longleftrightarrow> (\<forall>s. case map_option (map_prod (obeys R) id) (f s) of
     None \<Rightarrow> True | Some (g, s') \<Rightarrow> R s s' \<and> g)"

named_theorems obeys_rules \<open>programs built from programs that obey a relation\<close>

lemma obeys_act: "obeys R (Act f) \<Longrightarrow> f s = Some (p, s') \<Longrightarrow> R s s' \<and> obeys R p"
  by (auto dest!: spec [of _ s])

lemma obeys_Act: "(\<And>s p s'. f s = Some (p, s') \<Longrightarrow> R s s' \<and> obeys R p) \<Longrightarrow> obeys R (Act f)"
  by (auto split: option.split)

lemma obeys_mono:
  assumes "obeys R p" "\<And>s s'. R s s' \<Longrightarrow> S s s'"
  shows "obeys S p"
  using assms(1)
proof (induction p)
  case (Act f)
  show ?case
    by (rule obeys_Act) (metis Act assms(2) option.set_intros prod_set_simps(1) rangeI obeys_act singletonI)
qed simp_all

lemma obeys_Return [obeys_rules]: "obeys R (Return x)"
  by simp

lemma obeys_bind [obeys_rules]:
  assumes "obeys R p" "\<And>x. obeys R (c x)"
  shows "obeys R (pbind p c)"
  using assms(1)
proof (induction p)
  case (Act f)
  have "R s s' \<and> obeys R (pbind p c)" if "f s = Some (p, s')" for s p s'
    using obeys_act [OF Act.prems that] Act.IH [of "Some (p, s')" "(p, s')" p] that
    by (metis option.set_intros prod_set_simps(1) rangeI singletonI)
  then show ?case by (auto split: option.split)
qed (use assms(2) in auto)

lemma obeys_atomic: "(\<And>s. R s (snd (f s))) \<Longrightarrow> obeys R (atomic f)"
  by (auto simp: atomic_def split: prod.split) (metis snd_conv)

lemma obeys_attempt:
  "(\<And>s x s'. f s = Some (x, s') \<Longrightarrow> R s s') \<Longrightarrow> (\<And>s. R s s) \<Longrightarrow> obeys R (attempt f)"
  by (auto simp: attempt_def split: option.split prod.split)

lemma obeys_if [obeys_rules]: "obeys R p \<Longrightarrow> obeys R q \<Longrightarrow> obeys R (if b then p else q)"
  by simp

lemma obeys_option [obeys_rules]:
  "obeys R p \<Longrightarrow> (\<And>x. obeys R (q x)) \<Longrightarrow> obeys R (case r of None \<Rightarrow> p | Some x \<Rightarrow> q x)"
  by (cases r) auto

lemma obeys_pair [obeys_rules]: "(\<And>x y. obeys R (q x y)) \<Longrightarrow> obeys R (case r of (x, y) \<Rightarrow> q x y)"
  by (cases r) auto

section \<open>Workers against an invariant\<close>

definition ok_worker ::
  "('s \<Rightarrow> 'u \<Rightarrow> (nat \<Rightarrow> 'k) \<Rightarrow> bool) \<Rightarrow> ('s \<Rightarrow> 'k \<Rightarrow> bool) \<Rightarrow> ('p \<Rightarrow> 'k \<Rightarrow> bool) \<Rightarrow> nat \<Rightarrow> ('s, 'p) worker \<Rightarrow> 'k \<Rightarrow> bool" where
  "ok_worker I W pt t w k = (case w of At p \<Rightarrow> pt p k | Call c \<Rightarrow> ok_prog c I W t (\<lambda>k p. pt p k) k)"

text \<open>
  What a proof about the workers provides: an invariant of \<open>m\<close> workers that
  the fresh system satisfies, and for every point of a worker an assertion on
  its token under which each turn it may take is safe.
\<close>

locale worker_invariant =
  fixes turn :: "'s \<Rightarrow> 'u \<Rightarrow> 'p \<Rightarrow> ('s, 'p) worker \<Rightarrow> 'u \<Rightarrow> bool"
    and m :: nat and s0 :: 's and u0 :: 'u and p0 :: 'p
    and Inv :: "'s \<Rightarrow> 'u \<Rightarrow> (nat \<Rightarrow> 'k) \<Rightarrow> bool"
    and W :: "'s \<Rightarrow> 'k \<Rightarrow> bool"
    and pt :: "'p \<Rightarrow> 'k \<Rightarrow> bool"
    and idle :: 'k
  assumes Inv_new: "Inv s0 u0 (\<lambda>_. idle)"
    and pt_new: "pt p0 idle"
    and turn_ok: "t < m \<Longrightarrow> Inv s u \<gamma> \<Longrightarrow> pt p (\<gamma> t) \<Longrightarrow> turn s u p w u' \<Longrightarrow>
      \<exists>k. Inv s u' (\<gamma>(t := k)) \<and> ok_worker Inv W pt t w k"
begin

definition holds :: "('s, 'p, 'u) system \<Rightarrow> (nat \<Rightarrow> 'k) \<Rightarrow> bool" where
  "holds e \<gamma> \<longleftrightarrow> length (workers e) = m \<and> Inv (shared e) (ghost e) \<gamma> \<and>
     (\<forall>t < m. ok_worker Inv W pt t (workers e ! t) (\<gamma> t))"

lemma holds_new: "holds (start m s0 u0 p0) (\<lambda>_. idle)"
  using Inv_new pt_new by (simp add: holds_def start_def ok_worker_def)

lemma holds_update:
  assumes "holds e \<gamma>" "t < m" "Inv s u (\<gamma>(t := k))" "ok_worker Inv W pt t w k"
  shows "holds (e\<lparr>shared := s, workers := (workers e)[t := w], ghost := u\<rparr>) (\<gamma>(t := k))"
  using assms by (auto simp: holds_def nth_list_update)

lemma holds_step:
  assumes "system_step turn e e'" "holds e \<gamma>"
  shows "\<exists>\<gamma>'. holds e' \<gamma>'"
  using assms
proof cases
  case (step_turn t p w u)
  with assms(2) have "ok_worker Inv W pt t (At p) (\<gamma> t)"
    by (metis holds_def)
  with step_turn assms(2) turn_ok [of t "shared e" "ghost e" \<gamma> p w u]
  obtain k where "Inv (shared e) u (\<gamma>(t := k))" "ok_worker Inv W pt t w k"
    by (auto simp: holds_def ok_worker_def [of _ _ _ _ "At p"])
  from holds_update [OF assms(2) _ this] step_turn assms(2) show ?thesis
    by (auto simp: holds_def)
next
  case (step_act t f p s)
  have "ok_prog (Act f) Inv W t (\<lambda>k p. pt p k) (\<gamma> t)" "Inv (shared e) (ghost e) \<gamma>" "t < m"
    using assms(2) step_act by (auto simp: holds_def ok_worker_def)
  from ok_prog_act [OF this(1,2) refl step_act(4)] obtain k where
    "Inv s (ghost e) (\<gamma>(t := k))" "ok_worker Inv W pt t (Call p) k"
    unfolding ok_worker_def worker.case by blast
  from holds_update [OF assms(2) \<open>t < m\<close> this] show ?thesis
    using step_act by auto
next
  case (step_return t p)
  have "ok_worker Inv W pt t (At p) (\<gamma> t)" "Inv (shared e) (ghost e) (\<gamma>(t := \<gamma> t))" "t < m"
    using assms(2) step_return by (auto simp: holds_def ok_worker_def)
  from holds_update [OF assms(2) this(3,2,1)] show ?thesis
    using step_return by auto
qed

lemma holds_reachable:
  assumes "(system_step turn)\<^sup>*\<^sup>* (start m s0 u0 p0) e"
  shows "\<exists>\<gamma>. holds e \<gamma>"
  using assms by (induction rule: rtranclp_induct) (use holds_new holds_step in blast)+

lemma no_crash:
  assumes "(system_step turn)\<^sup>*\<^sup>* (start m s0 u0 p0) e" "t < length (workers e)"
  shows "workers e ! t \<noteq> Call Crash"
  using holds_reachable [OF assms(1)] assms(2) by (auto simp: holds_def ok_worker_def)

end

end
