(* ===== verification/Scheduler.thy ===== *)
theory Scheduler
  imports Interleaving
begin

text \<open>
  The scheduler of the parallel block executor
  (\<open>src/aptos-move/block-executor/src/scheduler.rs\<close>), at the granularity of its
  atomic accesses.

  A method of the scheduler is a program of atomic actions.  An action is one
  access to an atomic integer or one critical section of the mutex of a status;
  taking the mutex of a dependency list is an action that waits while the mutex
  is held.  The workers of the executor interleave between any two actions.

  Atomic integers are natural numbers; the counters of the source wrap around
  only after \<open>2 ^ 64\<close> increments.  \<open>debug_assert\<close> panics when it fails.
\<close>

section \<open>The shared state\<close>

type_synonym TxnIndex = nat
type_synonym Incarnation = nat
type_synonym Version = "TxnIndex \<times> Incarnation"

text \<open>
  A \<open>DependencyCondvar\<close> is a shared pair of a flag and a condition variable: here
  its position among those allocated so far.
\<close>

type_synonym DependencyCondvar = nat

datatype TaskGuard = TaskGuard

datatype SchedulerTask =
    ExecutionTask Version "DependencyCondvar option" TaskGuard
  | ValidationTask Version TaskGuard
  | NoTask
  | Done

datatype TransactionStatus =
    ReadyToExecute Incarnation "DependencyCondvar option"
  | Executing Incarnation
  | Suspended Incarnation DependencyCondvar
  | Executed Incarnation
  | Aborting Incarnation

record 'a Mutex =
  mx_locked :: bool
  mx_data :: 'a

record Scheduler =
  num_txns :: nat
  execution_idx :: nat
  validation_idx :: nat
  decrease_cnt :: nat
  num_active_tasks :: nat
  done_marker :: bool
  txn_dependency :: "TxnIndex list Mutex list"
  txn_status :: "TransactionStatus list"
  condvars :: "bool list"

type_synonym 'a sprog = "(Scheduler, 'a) prog"

definition scheduler_new :: "nat \<Rightarrow> Scheduler" where
  "scheduler_new n =
     \<lparr>num_txns = n, execution_idx = 0, validation_idx = 0, decrease_cnt = 0, num_active_tasks = 0,
      done_marker = False,
      txn_dependency = replicate n \<lparr>mx_locked = False, mx_data = []\<rparr>,
      txn_status = replicate n (ReadyToExecute 0 None),
      condvars = []\<rparr>"

definition num_txn_to_execute :: "Scheduler \<Rightarrow> nat" where
  "num_txn_to_execute = num_txns"

section \<open>Atomic integers, guards and locks\<close>

definition load :: "(Scheduler \<Rightarrow> 'a) \<Rightarrow> 'a sprog" where
  "load g = atomic (\<lambda>s. (g s, s))"

definition guard_new :: "TaskGuard sprog" where
  "guard_new = atomic (\<lambda>s. (TaskGuard, s\<lparr>num_active_tasks := num_active_tasks s + 1\<rparr>))"

definition drop_guard :: "TaskGuard \<Rightarrow> unit sprog" where
  "drop_guard guard = attempt (\<lambda>s. if num_active_tasks s > 0
     then Some ((), s\<lparr>num_active_tasks := num_active_tasks s - 1\<rparr>) else None)"

definition new_condvar :: "DependencyCondvar sprog" where
  "new_condvar = atomic (\<lambda>s. (length (condvars s), s\<lparr>condvars := condvars s @ [False]\<rparr>))"

text \<open>The critical section of a status mutex: a result and the new status, or a panic.\<close>

definition with_status :: "TxnIndex \<Rightarrow> (TransactionStatus \<Rightarrow> ('a \<times> TransactionStatus) option) \<Rightarrow> 'a sprog" where
  "with_status i f = attempt (\<lambda>s. if i < length (txn_status s)
     then map_option (map_prod id (\<lambda>st. s\<lparr>txn_status := (txn_status s)[i := st]\<rparr>)) (f (txn_status s ! i))
     else None)"

definition set_dependency :: "TxnIndex \<Rightarrow> TxnIndex list Mutex \<Rightarrow> Scheduler \<Rightarrow> Scheduler" where
  "set_dependency i d s = s\<lparr>txn_dependency := (txn_dependency s)[i := d]\<rparr>"

definition lock_dependency :: "TxnIndex \<Rightarrow> unit sprog" where
  "lock_dependency i = Act (\<lambda>s. if i < length (txn_dependency s)
     then (let d = txn_dependency s ! i in
           if mx_locked d then None
           else Some (Return (), set_dependency i (d\<lparr>mx_locked := True\<rparr>) s))
     else Some (Crash, s))"

definition unlock_dependency :: "TxnIndex \<Rightarrow> unit sprog" where
  "unlock_dependency i = atomic (\<lambda>s. ((), set_dependency i ((txn_dependency s ! i)\<lparr>mx_locked := False\<rparr>) s))"

definition push_dependency :: "TxnIndex \<Rightarrow> TxnIndex \<Rightarrow> unit sprog" where
  "push_dependency i txn_idx = atomic (\<lambda>s. let d = txn_dependency s ! i in
     ((), set_dependency i (d\<lparr>mx_data := mx_data d @ [txn_idx]\<rparr>) s))"

definition take_dependencies :: "TxnIndex \<Rightarrow> TxnIndex list sprog" where
  "take_dependencies i = Act (\<lambda>s. if i < length (txn_dependency s)
     then (let d = txn_dependency s ! i in
           if mx_locked d then None
           else Some (Return (mx_data d), set_dependency i (d\<lparr>mx_data := []\<rparr>) s))
     else Some (Crash, s))"

section \<open>Private methods\<close>

definition decrease_validation_idx :: "TxnIndex \<Rightarrow> unit sprog" where
  "decrease_validation_idx target_idx =
     pbind (atomic (\<lambda>s. (validation_idx s, s\<lparr>validation_idx := min (validation_idx s) target_idx\<rparr>))) (\<lambda>old.
     if old > target_idx then atomic (\<lambda>s. ((), s\<lparr>decrease_cnt := decrease_cnt s + 1\<rparr>)) else Return ())"

definition decrease_execution_idx :: "TxnIndex \<Rightarrow> unit sprog" where
  "decrease_execution_idx target_idx =
     pbind (atomic (\<lambda>s. (execution_idx s, s\<lparr>execution_idx := min (execution_idx s) target_idx\<rparr>))) (\<lambda>old.
     if old > target_idx then atomic (\<lambda>s. ((), s\<lparr>decrease_cnt := decrease_cnt s + 1\<rparr>)) else Return ())"

definition try_incarnate :: "TxnIndex \<Rightarrow> (Incarnation \<times> DependencyCondvar option) option sprog" where
  "try_incarnate txn_idx = atomic (\<lambda>s.
     if txn_idx \<ge> length (txn_status s) then (None, s)
     else (case txn_status s ! txn_idx of
       ReadyToExecute incarnation maybe_condvar \<Rightarrow>
         (Some (incarnation, maybe_condvar), s\<lparr>txn_status := (txn_status s)[txn_idx := Executing incarnation]\<rparr>)
     | _ \<Rightarrow> (None, s)))"

definition is_executed :: "TxnIndex \<Rightarrow> Incarnation option sprog" where
  "is_executed txn_idx = atomic (\<lambda>s.
     (if txn_idx \<ge> length (txn_status s) then None
      else (case txn_status s ! txn_idx of Executed incarnation \<Rightarrow> Some incarnation | _ \<Rightarrow> None), s))"

definition suspend :: "TxnIndex \<Rightarrow> DependencyCondvar \<Rightarrow> unit sprog" where
  "suspend txn_idx dep_condvar = with_status txn_idx (\<lambda>status.
     case status of Executing incarnation \<Rightarrow> Some ((), Suspended incarnation dep_condvar) | _ \<Rightarrow> None)"

definition resume :: "TxnIndex \<Rightarrow> unit sprog" where
  "resume txn_idx = with_status txn_idx (\<lambda>status.
     case status of
       Suspended incarnation dep_condvar \<Rightarrow> Some ((), ReadyToExecute incarnation (Some dep_condvar))
     | _ \<Rightarrow> None)"

definition set_executed_status :: "TxnIndex \<Rightarrow> Incarnation \<Rightarrow> unit sprog" where
  "set_executed_status txn_idx incarnation = with_status txn_idx (\<lambda>status.
     if status = Executing incarnation then Some ((), Executed incarnation) else None)"

definition set_aborted_status :: "TxnIndex \<Rightarrow> Incarnation \<Rightarrow> unit sprog" where
  "set_aborted_status txn_idx incarnation = with_status txn_idx (\<lambda>status.
     if status = Aborting incarnation then Some ((), ReadyToExecute (incarnation + 1) None) else None)"

definition check_done :: "bool sprog" where
  "check_done =
     pbind (load decrease_cnt) (\<lambda>observed_cnt.
     pbind (load validation_idx) (\<lambda>val_idx.
     pbind (load execution_idx) (\<lambda>exec_idx.
     pbind (load num_active_tasks) (\<lambda>num_tasks.
     pbind (load num_txns) (\<lambda>num.
     if min exec_idx val_idx < num \<or> num_tasks > 0 then Return False
     else pbind (load decrease_cnt) (\<lambda>cnt.
          if observed_cnt = cnt
          then atomic (\<lambda>s. (True, s\<lparr>done_marker := True\<rparr>))
          else Return False))))))"

definition done_loaded :: "bool sprog" where
  "done_loaded = load done_marker"

definition try_validate_next_version :: "(Version \<times> TaskGuard) option sprog" where
  "try_validate_next_version =
     pbind (load validation_idx) (\<lambda>idx_to_validate.
     pbind (load num_txns) (\<lambda>num.
     if idx_to_validate \<ge> num then pbind check_done (\<lambda>_. Return None)
     else
       pbind guard_new (\<lambda>guard.
       pbind (atomic (\<lambda>s. (validation_idx s, s\<lparr>validation_idx := validation_idx s + 1\<rparr>))) (\<lambda>idx_to_validate.
       pbind (is_executed idx_to_validate) (\<lambda>e.
       case e of
         Some incarnation \<Rightarrow> Return (Some ((idx_to_validate, incarnation), guard))
       | None \<Rightarrow> pbind (drop_guard guard) (\<lambda>_. Return None))))))"

definition try_execute_next_version :: "(Version \<times> DependencyCondvar option \<times> TaskGuard) option sprog" where
  "try_execute_next_version =
     pbind (load execution_idx) (\<lambda>idx_to_execute.
     pbind (load num_txns) (\<lambda>num.
     if idx_to_execute \<ge> num then pbind check_done (\<lambda>_. Return None)
     else
       pbind guard_new (\<lambda>guard.
       pbind (atomic (\<lambda>s. (execution_idx s, s\<lparr>execution_idx := execution_idx s + 1\<rparr>))) (\<lambda>idx_to_execute.
       pbind (try_incarnate idx_to_execute) (\<lambda>e.
       case e of
         Some (incarnation, maybe_condvar) \<Rightarrow>
           Return (Some ((idx_to_execute, incarnation), maybe_condvar, guard))
       | None \<Rightarrow> pbind (drop_guard guard) (\<lambda>_. Return None))))))"

section \<open>Public methods\<close>

definition try_abort :: "TxnIndex \<Rightarrow> Incarnation \<Rightarrow> bool sprog" where
  "try_abort txn_idx incarnation = with_status txn_idx (\<lambda>status.
     if status = Executed incarnation then Some (True, Aborting incarnation) else Some (False, status))"

text \<open>One iteration of the loop of \<open>next_task\<close>; \<open>None\<close> takes another one.\<close>

definition next_task_round :: "SchedulerTask option sprog" where
  "next_task_round =
     pbind done_loaded (\<lambda>d.
     if d then Return (Some Done)
     else
       pbind (load validation_idx) (\<lambda>idx_to_validate.
       pbind (load execution_idx) (\<lambda>idx_to_execute.
       if idx_to_validate < idx_to_execute
       then pbind try_validate_next_version (\<lambda>r. case r of
              Some (version_to_validate, guard) \<Rightarrow> Return (Some (ValidationTask version_to_validate guard))
            | None \<Rightarrow> Return None)
       else pbind try_execute_next_version (\<lambda>r. case r of
              Some (version_to_execute, maybe_condvar, guard) \<Rightarrow>
                Return (Some (ExecutionTask version_to_execute maybe_condvar guard))
            | None \<Rightarrow> Return None))))"

definition wait_for_dependency :: "TxnIndex \<Rightarrow> TxnIndex \<Rightarrow> DependencyCondvar option sprog" where
  "wait_for_dependency txn_idx dep_txn_idx =
     pbind new_condvar (\<lambda>dep_condvar.
     pbind (lock_dependency dep_txn_idx) (\<lambda>_.
     pbind (is_executed dep_txn_idx) (\<lambda>e.
     if e \<noteq> None then pbind (unlock_dependency dep_txn_idx) (\<lambda>_. Return None)
     else
       pbind (suspend txn_idx dep_condvar) (\<lambda>_.
       pbind (push_dependency dep_txn_idx txn_idx) (\<lambda>_.
       pbind (unlock_dependency dep_txn_idx) (\<lambda>_.
       Return (Some dep_condvar)))))))"

fun resume_all :: "TxnIndex list \<Rightarrow> unit sprog" where
  "resume_all [] = Return ()"
| "resume_all (dep # deps) = pbind (resume dep) (\<lambda>_. resume_all deps)"

definition finish_execution :: "TxnIndex \<Rightarrow> Incarnation \<Rightarrow> bool \<Rightarrow> TaskGuard \<Rightarrow> SchedulerTask sprog" where
  "finish_execution txn_idx incarnation revalidate_suffix guard =
     pbind (set_executed_status txn_idx incarnation) (\<lambda>_.
     pbind (take_dependencies txn_idx) (\<lambda>txn_deps.
     pbind (resume_all txn_deps) (\<lambda>_.
     pbind (if txn_deps = [] then Return () else decrease_execution_idx (Min (set txn_deps))) (\<lambda>_.
     pbind (load validation_idx) (\<lambda>v.
     if v > txn_idx
     then (if revalidate_suffix
           then pbind (decrease_validation_idx txn_idx) (\<lambda>_.
                pbind (drop_guard guard) (\<lambda>_. Return NoTask))
           else Return (ValidationTask (txn_idx, incarnation) guard))
     else pbind (drop_guard guard) (\<lambda>_. Return NoTask))))))"

definition finish_abort :: "TxnIndex \<Rightarrow> Incarnation \<Rightarrow> TaskGuard \<Rightarrow> SchedulerTask sprog" where
  "finish_abort txn_idx incarnation guard =
     pbind (set_aborted_status txn_idx incarnation) (\<lambda>_.
     pbind (decrease_validation_idx (txn_idx + 1)) (\<lambda>_.
     pbind (load execution_idx) (\<lambda>e.
     if e > txn_idx
     then pbind (try_incarnate txn_idx) (\<lambda>r. case r of
            Some (new_incarnation, maybe_condvar) \<Rightarrow>
              Return (ExecutionTask (txn_idx, new_incarnation) maybe_condvar guard)
          | None \<Rightarrow> pbind (drop_guard guard) (\<lambda>_. Return NoTask))
     else pbind (drop_guard guard) (\<lambda>_. Return NoTask))))"

section \<open>The workers\<close>

text \<open>
  A worker between two calls of the scheduler (\<open>work_task_with_scope\<close>, \<open>execute\<close>
  and \<open>validate\<close> of \<open>src/aptos-move/block-executor/src/executor.rs\<close>): it holds a
  task, runs a transaction, waits for a dependency of that transaction, checks
  the reads of a transaction, marks the writes of an aborted one, or has left
  its loop.  A call is a program that returns the next such point.
\<close>

datatype point =
    Holding SchedulerTask
  | Running Version
  | Waiting Version DependencyCondvar
  | Validating Version
  | Aborted Version
  | Stopped

text \<open>Marking a dependency resolved and waking its waiter.\<close>

definition notify_resolved :: "DependencyCondvar \<Rightarrow> unit sprog" where
  "notify_resolved c = atomic (\<lambda>s. ((), s\<lparr>condvars := (condvars s)[c := True]\<rparr>))"

definition give_up :: "TaskGuard \<Rightarrow> point sprog" where
  "give_up guard = pbind (drop_guard guard) (\<lambda>_. Return (Holding NoTask))"

definition take_next :: "point sprog" where
  "take_next = pbind next_task_round (\<lambda>r. Return (case r of
     None \<Rightarrow> Holding NoTask | Some task \<Rightarrow> Holding task))"

definition resolve :: "DependencyCondvar \<Rightarrow> TaskGuard \<Rightarrow> point sprog" where
  "resolve c guard = pbind (notify_resolved c) (\<lambda>_. give_up guard)"

definition depend :: "Version \<Rightarrow> TxnIndex \<Rightarrow> point sprog" where
  "depend v dep_idx = pbind (wait_for_dependency (fst v) dep_idx) (\<lambda>r. Return (case r of
     None \<Rightarrow> Running v | Some c \<Rightarrow> Waiting v c))"

definition conclude :: "Version \<Rightarrow> bool \<Rightarrow> point sprog" where
  "conclude v updates_outside =
     pbind (finish_execution (fst v) (snd v) updates_outside TaskGuard) (\<lambda>task. Return (Holding task))"

definition reject :: "Version \<Rightarrow> point sprog" where
  "reject v = pbind (try_abort (fst v) (snd v)) (\<lambda>aborted.
     if aborted then Return (Aborted v) else give_up TaskGuard)"

definition abort :: "Version \<Rightarrow> point sprog" where
  "abort v = pbind (finish_abort (fst v) (snd v) TaskGuard) (\<lambda>task. Return (Holding task))"

text \<open>
  The executor: the shared state, its workers, and as a ghost component the
  transactions that need a validation, which no step reads.  A transaction
  enters it when an execution of it ends, when an execution of a lower one that
  wrote to a new location ends, and when a lower one is aborted; it leaves when
  the check of its latest incarnation starts.
\<close>

type_synonym executor = "(Scheduler, point, TxnIndex set) system"

abbreviation unvalidated :: "executor \<Rightarrow> TxnIndex set" where
  "unvalidated \<equiv> ghost"

definition executor_new :: "nat \<Rightarrow> nat \<Rightarrow> executor" where
  "executor_new n concurrency_level = start concurrency_level (scheduler_new n) {} (Holding NoTask)"

definition checked :: "Scheduler \<Rightarrow> Version \<Rightarrow> TxnIndex set \<Rightarrow> TxnIndex set" where
  "checked s v u = (if txn_status s ! fst v = Executed (snd v) then u - {fst v} else u)"

definition disturbed :: "TxnIndex \<Rightarrow> bool \<Rightarrow> nat \<Rightarrow> TxnIndex set \<Rightarrow> TxnIndex set" where
  "disturbed i suffix n u = insert i u \<union> (if suffix then {i..<n} else {})"

text \<open>What a worker may do at a point, with the state and the unvalidated transactions after it.\<close>

inductive turn :: "Scheduler \<Rightarrow> TxnIndex set \<Rightarrow> point \<Rightarrow> (Scheduler, point) worker \<Rightarrow> TxnIndex set \<Rightarrow> bool" where
  turn_next: "turn s u (Holding NoTask) (Call take_next) u"
| turn_stop: "turn s u (Holding Done) (At Stopped) u"
| turn_execute: "turn s u (Holding (ExecutionTask v None guard)) (At (Running v)) u"
| turn_resolve: "turn s u (Holding (ExecutionTask v (Some c) guard)) (Call (resolve c guard)) u"
| turn_validate: "turn s u (Holding (ValidationTask v guard)) (At (Validating v)) (checked s v u)"
| turn_depend: "dep < fst v \<Longrightarrow> turn s u (Running v) (Call (depend v dep)) u"
| turn_wake: "condvars s ! c \<Longrightarrow> turn s u (Waiting v c) (At (Running v)) u"
| turn_conclude: "turn s u (Running v) (Call (conclude v suffix)) (disturbed (fst v) suffix (num_txns s) u)"
| turn_accept: "turn s u (Validating v) (Call (give_up TaskGuard)) u"
| turn_reject: "turn s u (Validating v) (Call (reject v)) u"
| turn_abort: "turn s u (Aborted v) (Call (abort v)) (u \<union> {fst v<..<num_txns s})"

abbreviation worker_step :: "executor \<Rightarrow> executor \<Rightarrow> bool" where
  "worker_step \<equiv> system_step turn"

definition reachable :: "nat \<Rightarrow> nat \<Rightarrow> executor \<Rightarrow> bool" where
  "reachable n m e \<longleftrightarrow> worker_step\<^sup>*\<^sup>* (executor_new n m) e"

end
