(* ===== verification/Scheduler_Inv.thy ===== *)
theory Scheduler_Inv
  imports Scheduler
begin

text \<open>
  The invariant of the workers of the scheduler: who owns a transaction, which
  indices somebody still has to reconsider, where a suspended transaction is
  enlisted, and what a worker that checks for the end has observed.
\<close>

section \<open>Tokens\<close>

text \<open>
  How a worker owns a transaction: executing it; executing it with a fresh
  condition variable; suspended but not enlisted yet; waiting; aborting it.
\<close>

datatype phase =
    PExec Incarnation
  | PPre Incarnation DependencyCondvar
  | PSus Incarnation DependencyCondvar
  | PWait Incarnation DependencyCondvar
  | PAbort Incarnation

text \<open>What a worker inside \<open>check_done\<close> has observed so far, with the first value of the counter.\<close>

datatype obs = ONone | OCnt nat | OVal nat | OExec nat | OTasks nat | OFinal

record token =
  tk_guard :: bool
  tk_own :: "(TxnIndex \<times> phase) option"
  tk_exec :: "TxnIndex set"
  tk_val :: "Version set"
  tk_task :: bool
  tk_late :: bool
  tk_deps :: "TxnIndex list"
  tk_notify :: "DependencyCondvar option"
  tk_taking :: "TxnIndex option"
  tk_lock :: "TxnIndex option"
  tk_checked :: bool
  tk_grab :: "TxnIndex option"
  tk_obs :: obs

definition idle :: token where
  "idle = \<lparr>tk_guard = False, tk_own = None, tk_exec = {}, tk_val = {}, tk_task = False, tk_late = False,
     tk_deps = [], tk_notify = None, tk_taking = None, tk_lock = None, tk_checked = False, tk_grab = None, tk_obs = ONone\<rparr>"

definition token_ok :: "token \<Rightarrow> bool" where
  "token_ok k \<longleftrightarrow> \<not> tk_guard k \<longrightarrow>
     tk_own k = None \<and> tk_exec k = {} \<and> tk_val k = {} \<and> \<not> tk_task k \<and> \<not> tk_late k \<and> tk_deps k = [] \<and>
     tk_notify k = None \<and> tk_taking k = None \<and> tk_lock k = None \<and> tk_grab k = None"

definition tokens_ok :: "nat \<Rightarrow> (nat \<Rightarrow> token) \<Rightarrow> bool" where
  "tokens_ok m \<gamma> \<longleftrightarrow> (\<forall>t. token_ok (\<gamma> t) \<and> (m \<le> t \<longrightarrow> \<gamma> t = idle))"

section \<open>The parts of the invariant\<close>

definition guards_ok :: "nat \<Rightarrow> (nat \<Rightarrow> bool) \<Rightarrow> bool" where
  "guards_ok a g \<longleftrightarrow> finite {t. g t} \<and> a = card {t. g t}"

primrec phase_ok :: "TransactionStatus list \<Rightarrow> bool list \<Rightarrow> TxnIndex \<Rightarrow> phase \<Rightarrow> bool" where
  "phase_ok st cv i (PExec inc) \<longleftrightarrow> st ! i = Executing inc"
| "phase_ok st cv i (PPre inc c) \<longleftrightarrow> st ! i = Executing inc \<and> c < length cv \<and> \<not> cv ! c"
| "phase_ok st cv i (PSus inc c) \<longleftrightarrow> st ! i = Suspended inc c \<and> c < length cv \<and> \<not> cv ! c"
| "phase_ok st cv i (PWait inc c) \<longleftrightarrow> c < length cv \<and>
     (\<not> cv ! c \<and> (st ! i = Suspended inc c \<or> st ! i = ReadyToExecute inc (Some c)) \<or> st ! i = Executing inc)"
| "phase_ok st cv i (PAbort inc) \<longleftrightarrow> st ! i = Aborting inc"

primrec cvar :: "phase \<Rightarrow> DependencyCondvar option" where
  "cvar (PExec inc) = None"
| "cvar (PPre inc c) = Some c"
| "cvar (PSus inc c) = Some c"
| "cvar (PWait inc c) = Some c"
| "cvar (PAbort inc) = None"

fun held :: "TransactionStatus \<Rightarrow> bool" where
  "held (ReadyToExecute inc None) = False"
| "held (Executed inc) = False"
| "held _ = True"

text \<open>Every transaction in progress has one owner whose phase fits its status.\<close>

definition owners_ok ::
  "nat \<Rightarrow> TransactionStatus list \<Rightarrow> bool list \<Rightarrow> (nat \<Rightarrow> (TxnIndex \<times> phase) option) \<Rightarrow> bool" where
  "owners_ok n st cv own \<longleftrightarrow>
     (\<forall>t i ph. own t = Some (i, ph) \<longrightarrow> i < n \<and> phase_ok st cv i ph) \<and>
     (\<forall>t t' i ph ph'. own t = Some (i, ph) \<longrightarrow> own t' = Some (i, ph') \<longrightarrow> t = t') \<and>
     (\<forall>i < n. held (st ! i) \<longrightarrow> (\<exists>t ph. own t = Some (i, ph))) \<and>
     (\<forall>t t' i i' ph ph' c. own t = Some (i, ph) \<longrightarrow> own t' = Some (i', ph') \<longrightarrow>
        cvar ph = Some c \<longrightarrow> cvar ph' = Some c \<longrightarrow> t = t')"

text \<open>Somebody notifies the waiter of a resolved dependency, and nobody the waiter of an open one.\<close>

definition notify_ok ::
  "TransactionStatus list \<Rightarrow> bool list \<Rightarrow> (nat \<Rightarrow> (TxnIndex \<times> phase) option) \<Rightarrow>
     (nat \<Rightarrow> DependencyCondvar option) \<Rightarrow> bool" where
  "notify_ok st cv own nt \<longleftrightarrow>
     (\<forall>t c. nt t = Some c \<longrightarrow> c < length cv) \<and>
     (\<forall>t t' c i ph. nt t = Some c \<longrightarrow> own t' = Some (i, ph) \<longrightarrow> cvar ph = Some c \<longrightarrow>
        (\<exists>inc. ph = PWait inc c \<and> st ! i = Executing inc)) \<and>
     (\<forall>t i inc c. own t = Some (i, PWait inc c) \<longrightarrow> st ! i = Executing inc \<longrightarrow> cv ! c \<or> (\<exists>t'. nt t' = Some c))"

text \<open>A suspended transaction is in exactly one list: of the transaction it depends on, or of a worker that resumes it.\<close>

datatype place = Dep TxnIndex | Taken nat

primrec queue :: "TxnIndex list list \<Rightarrow> (nat \<Rightarrow> TxnIndex list) \<Rightarrow> place \<Rightarrow> TxnIndex list" where
  "queue dl tk (Dep j) = (if j < length dl then dl ! j else [])"
| "queue dl tk (Taken t) = tk t"

definition waits :: "TransactionStatus list \<Rightarrow> (nat \<Rightarrow> (TxnIndex \<times> phase) option) \<Rightarrow> TxnIndex \<Rightarrow> bool" where
  "waits st own i \<longleftrightarrow> (\<exists>t inc c. own t = Some (i, PWait inc c) \<and> st ! i = Suspended inc c)"

definition queues_ok ::
  "TransactionStatus list \<Rightarrow> (nat \<Rightarrow> (TxnIndex \<times> phase) option) \<Rightarrow> TxnIndex list list \<Rightarrow> (nat \<Rightarrow> TxnIndex list) \<Rightarrow> bool" where
  "queues_ok st own dl tk \<longleftrightarrow>
     (\<forall>p. distinct (queue dl tk p)) \<and>
     (\<forall>p p' i. i \<in> set (queue dl tk p) \<longrightarrow> i \<in> set (queue dl tk p') \<longrightarrow> p = p') \<and>
     (\<forall>i. (\<exists>p. i \<in> set (queue dl tk p)) \<longleftrightarrow> waits st own i) \<and>
     (\<forall>j < length dl. \<forall>i \<in> set (dl ! j). j < i)"

text \<open>Ready transactions are at or above the execution index, or some worker answers for them.\<close>

definition exec_ok :: "nat \<Rightarrow> TransactionStatus list \<Rightarrow> nat \<Rightarrow> (nat \<Rightarrow> TxnIndex set) \<Rightarrow> bool" where
  "exec_ok n st ei ex \<longleftrightarrow> (\<forall>i < n. \<forall>inc oc. st ! i = ReadyToExecute inc oc \<longrightarrow> ei \<le> i \<or> (\<exists>t. i \<in> ex t))"

text \<open>The same for executed transactions that need a validation.\<close>

definition val_ok ::
  "nat \<Rightarrow> TransactionStatus list \<Rightarrow> nat \<Rightarrow> TxnIndex set \<Rightarrow> (nat \<Rightarrow> Version set) \<Rightarrow> bool" where
  "val_ok n st vi u va \<longleftrightarrow> (\<forall>i < n. \<forall>inc. i \<in> u \<longrightarrow> st ! i = Executed inc \<longrightarrow> vi \<le> i \<or> (\<exists>t. (i, inc) \<in> va t))"

definition locks_ok :: "bool list \<Rightarrow> (nat \<Rightarrow> TxnIndex option) \<Rightarrow> bool" where
  "locks_ok lo lk \<longleftrightarrow>
     (\<forall>t j. lk t = Some j \<longrightarrow> j < length lo \<and> lo ! j) \<and>
     (\<forall>t t' j. lk t = Some j \<longrightarrow> lk t' = Some j \<longrightarrow> t = t') \<and>
     (\<forall>j < length lo. lo ! j \<longrightarrow> (\<exists>t. lk t = Some j))"

definition unfinished :: "TransactionStatus list \<Rightarrow> (nat \<Rightarrow> TxnIndex option) \<Rightarrow> TxnIndex \<Rightarrow> bool" where
  "unfinished st tg j \<longleftrightarrow> (\<forall>inc. st ! j \<noteq> Executed inc) \<or> (\<exists>t. tg t = Some j)"

text \<open>Dependencies are recorded only with transactions whose execution is still to finish.\<close>

definition pending_ok ::
  "TransactionStatus list \<Rightarrow> TxnIndex list list \<Rightarrow> (nat \<Rightarrow> TxnIndex option) \<Rightarrow> (nat \<Rightarrow> bool) \<Rightarrow>
     (nat \<Rightarrow> TxnIndex option) \<Rightarrow> bool" where
  "pending_ok st dl lk ck tg \<longleftrightarrow>
     (\<forall>j < length dl. dl ! j \<noteq> [] \<longrightarrow> unfinished st tg j) \<and>
     (\<forall>t j. lk t = Some j \<longrightarrow> ck t \<longrightarrow> unfinished st tg j)"

text \<open>Some worker has nothing in hand at or above the execution index.\<close>

fun executing :: "(TxnIndex \<times> phase) option \<Rightarrow> TxnIndex option" where
  "executing None = None"
| "executing (Some (i, PAbort inc)) = None"
| "executing (Some (i, ph)) = Some i"

definition low :: "nat \<Rightarrow> (TxnIndex \<times> phase) option \<Rightarrow> TxnIndex option \<Rightarrow> bool" where
  "low ei ow gr \<longleftrightarrow> (\<forall>i. executing ow = Some i \<or> gr = Some i \<longrightarrow> i < ei)"

definition low_ok ::
  "nat \<Rightarrow> nat \<Rightarrow> (nat \<Rightarrow> (TxnIndex \<times> phase) option) \<Rightarrow> (nat \<Rightarrow> TxnIndex option) \<Rightarrow> bool" where
  "low_ok m ei own gr \<longleftrightarrow> (0 < m \<longrightarrow> (\<exists>t < m. low ei (own t) (gr t)))"

text \<open>The end: every transaction executed and validated, no index below the end, no task in hand.\<close>

definition harmless :: "nat \<Rightarrow> token \<Rightarrow> bool" where
  "harmless n k \<longleftrightarrow> tk_own k = None \<and> \<not> tk_task k \<and> \<not> tk_late k \<and>
     (\<forall>i \<in> tk_exec k. n \<le> i) \<and> (\<forall>v \<in> tk_val k. n \<le> fst v)"

definition final :: "nat \<Rightarrow> Scheduler \<Rightarrow> TxnIndex set \<Rightarrow> (nat \<Rightarrow> token) \<Rightarrow> bool" where
  "final n s u \<gamma> \<longleftrightarrow> n \<le> execution_idx s \<and> n \<le> validation_idx s \<and>
     (\<forall>i < n. \<exists>inc. txn_status s ! i = Executed inc) \<and> (\<forall>i < n. i \<notin> u) \<and> (\<forall>t. harmless n (\<gamma> t))"

primrec seen :: "nat \<Rightarrow> nat \<Rightarrow> nat \<Rightarrow> nat \<Rightarrow> bool \<Rightarrow> bool \<Rightarrow> obs \<Rightarrow> bool" where
  "seen n cnt vi ei late fin ONone \<longleftrightarrow> True"
| "seen n cnt vi ei late fin (OCnt c) \<longleftrightarrow> c \<le> cnt"
| "seen n cnt vi ei late fin (OVal c) \<longleftrightarrow> c \<le> cnt \<and> (c < cnt \<or> late \<or> n \<le> vi)"
| "seen n cnt vi ei late fin (OExec c) \<longleftrightarrow> c \<le> cnt \<and> (c < cnt \<or> late \<or> n \<le> vi \<and> n \<le> ei)"
| "seen n cnt vi ei late fin (OTasks c) \<longleftrightarrow> c \<le> cnt \<and> (c < cnt \<or> fin)"
| "seen n cnt vi ei late fin OFinal \<longleftrightarrow> fin"

definition ended_ok :: "nat \<Rightarrow> Scheduler \<Rightarrow> TxnIndex set \<Rightarrow> (nat \<Rightarrow> token) \<Rightarrow> bool" where
  "ended_ok n s u \<gamma> \<longleftrightarrow> (done_marker s \<longrightarrow> final n s u \<gamma>) \<and>
     (\<forall>t. seen n (decrease_cnt s) (validation_idx s) (execution_idx s) (\<exists>t'. tk_late (\<gamma> t')) (final n s u \<gamma>) (tk_obs (\<gamma> t)))"

definition Inv :: "nat \<Rightarrow> nat \<Rightarrow> Scheduler \<Rightarrow> TxnIndex set \<Rightarrow> (nat \<Rightarrow> token) \<Rightarrow> bool" where
  "Inv n m s u \<gamma> \<longleftrightarrow>
     num_txns s = n \<and> length (txn_status s) = n \<and> length (txn_dependency s) = n \<and>
     tokens_ok m \<gamma> \<and>
     guards_ok (num_active_tasks s) (tk_guard \<circ> \<gamma>) \<and>
     owners_ok n (txn_status s) (condvars s) (tk_own \<circ> \<gamma>) \<and>
     notify_ok (txn_status s) (condvars s) (tk_own \<circ> \<gamma>) (tk_notify \<circ> \<gamma>) \<and>
     queues_ok (txn_status s) (tk_own \<circ> \<gamma>) (map mx_data (txn_dependency s)) (tk_deps \<circ> \<gamma>) \<and>
     exec_ok n (txn_status s) (execution_idx s) (tk_exec \<circ> \<gamma>) \<and>
     val_ok n (txn_status s) (validation_idx s) u (tk_val \<circ> \<gamma>) \<and>
     locks_ok (map mx_locked (txn_dependency s)) (tk_lock \<circ> \<gamma>) \<and>
     pending_ok (txn_status s) (map mx_data (txn_dependency s)) (tk_lock \<circ> \<gamma>) (tk_checked \<circ> \<gamma>) (tk_taking \<circ> \<gamma>) \<and>
     low_ok m (execution_idx s) (tk_own \<circ> \<gamma>) (tk_grab \<circ> \<gamma>) \<and>
     ended_ok n s u \<gamma>"

section \<open>Ownership\<close>

lemma phase_held: "phase_ok st cv i ph \<Longrightarrow> held (st ! i)"
  by (cases ph) auto

lemma owners_unheld: "owners_ok n st cv own \<Longrightarrow> \<not> held (st ! i) \<Longrightarrow> own t \<noteq> Some (i, ph)"
  unfolding owners_ok_def using phase_held by blast

lemma owners_phase: "owners_ok n st cv own \<Longrightarrow> own t = Some (i, ph) \<Longrightarrow> i < n \<and> phase_ok st cv i ph"
  unfolding owners_ok_def by blast

lemma owners_unique: "owners_ok n st cv own \<Longrightarrow> own t = Some (i, ph) \<Longrightarrow> own t' = Some (i, ph') \<Longrightarrow> t' = t"
  unfolding owners_ok_def by blast

lemma owners_held: "owners_ok n st cv own \<Longrightarrow> i < n \<Longrightarrow> held (st ! i) \<Longrightarrow> \<exists>t ph. own t = Some (i, ph)"
  unfolding owners_ok_def by blast

lemma owners_cvar:
  "owners_ok n st cv own \<Longrightarrow> own t = Some (i, ph) \<Longrightarrow> own t' = Some (i', ph') \<Longrightarrow>
     cvar ph = Some c \<Longrightarrow> cvar ph' = Some c \<Longrightarrow> t = t'"
  unfolding owners_ok_def by blast

lemma phase_ok_other: "i \<noteq> j \<Longrightarrow> phase_ok (st[i := x]) cv j ph = phase_ok st cv j ph"
  by (cases ph) auto

text \<open>The owner of a transaction changes its status and its own phase.\<close>

lemma owners_change:
  assumes "owners_ok n st cv own" "i < n" "length st = n"
    and only: "\<And>t' ph. own t' = Some (i, ph) \<Longrightarrow> t' = t"
    and mine: "\<And>j ph. own t = Some (j, ph) \<Longrightarrow> j = i"
    and new: "\<And>j ph. ow = Some (j, ph) \<Longrightarrow> j = i \<and> phase_ok (st[i := x]) cv i ph"
    and held: "held x \<Longrightarrow> ow \<noteq> None"
    and fresh: "\<And>j ph c t' j' ph'. ow = Some (j, ph) \<Longrightarrow> cvar ph = Some c \<Longrightarrow> t' \<noteq> t \<Longrightarrow>
      own t' = Some (j', ph') \<Longrightarrow> cvar ph' \<noteq> Some c"
  shows "owners_ok n (st[i := x]) cv (own(t := ow))"
  unfolding owners_ok_def
proof (intro conjI allI impI)
  fix t' j ph assume a: "(own(t := ow)) t' = Some (j, ph)"
  then show "j < n"
    using new assms(2) owners_phase [OF assms(1)] by (cases "t' = t") auto
  from a show "phase_ok (st[i := x]) cv j ph"
    using new owners_phase [OF assms(1)] only [of t' ph]
    by (cases "t' = t") (auto simp: phase_ok_other, metis phase_ok_other)
next
  fix t1 t2 j ph ph'
  assume "(own(t := ow)) t1 = Some (j, ph)" "(own(t := ow)) t2 = Some (j, ph')"
  then show "t1 = t2"
    using new [of j] only owners_unique [OF assms(1)]
    by (metis fun_upd_apply)
next
  fix j assume "j < n" "held (st[i := x] ! j)"
  then show "\<exists>t' ph. (own(t := ow)) t' = Some (j, ph)"
    using held new mine owners_held [OF assms(1), of j] assms(2,3)
    by (cases "j = i") (force, metis fun_upd_apply nth_list_update_neq option.inject prod.inject)
next
  fix t1 t2 j1 j2 ph1 ph2 c
  assume "(own(t := ow)) t1 = Some (j1, ph1)" "(own(t := ow)) t2 = Some (j2, ph2)"
    "cvar ph1 = Some c" "cvar ph2 = Some c"
  then show "t1 = t2"
    using fresh owners_cvar [OF assms(1)] by (metis fun_upd_apply)
qed

text \<open>Somebody else changes the status under an owner that allows it.\<close>

lemma owners_status:
  assumes "owners_ok n st cv own" "length st = n"
    and "\<And>t ph. own t = Some (i, ph) \<Longrightarrow> phase_ok (st[i := x]) cv i ph"
    and "held x \<Longrightarrow> held (st ! i)"
  shows "owners_ok n (st[i := x]) cv own"
proof -
  have p: "phase_ok (st[i := x]) cv j ph" if "own t = Some (j, ph)" for t j ph
    using that assms(3) owners_phase [OF assms(1) that] by (cases "i = j") (auto simp: phase_ok_other)
  have h: "held (st ! j)" if "j < n" "held (st[i := x] ! j)" for j
    using that assms(2,4) by (cases "i = j") auto
  show ?thesis
    unfolding owners_ok_def
  proof (intro conjI allI impI)
    show "j < n" if "own t = Some (j, ph)" for t j ph
      using owners_phase [OF assms(1) that] ..
    show "t' = t" if "own t' = Some (j, ph)" "own t = Some (j, ph')" for t t' j ph ph'
      by (rule owners_unique [OF assms(1) that(2,1)])
    show "\<exists>t ph. own t = Some (j, ph)" if "j < n" "held (st[i := x] ! j)" for j
      by (rule owners_held [OF assms(1) that(1) h [OF that]])
    show "t = t'" if "own t = Some (j, ph)" "own t' = Some (j', ph')" "cvar ph = Some c" "cvar ph' = Some c"
      for t t' j j' ph ph' c
      by (rule owners_cvar [OF assms(1) that])
  qed (rule p)
qed

lemma owners_condvars:
  assumes "owners_ok n st cv own"
    and "\<And>t i ph. own t = Some (i, ph) \<Longrightarrow> phase_ok st cv i ph \<Longrightarrow> phase_ok st cv' i ph"
  shows "owners_ok n st cv' own"
  using assms unfolding owners_ok_def by blast

lemma phase_ok_append: "phase_ok st cv i ph \<Longrightarrow> phase_ok st (cv @ [b]) i ph"
  by (cases ph) (auto simp: nth_append)

lemma cvar_bound: "phase_ok st cv i ph \<Longrightarrow> cvar ph = Some c \<Longrightarrow> c < length cv"
  by (cases ph) auto

section \<open>Notification\<close>

lemma notify_len: "notify_ok st cv own nt \<Longrightarrow> nt t = Some c \<Longrightarrow> c < length cv"
  unfolding notify_ok_def by blast

lemma notify_own:
  "notify_ok st cv own nt \<Longrightarrow> nt t = Some c \<Longrightarrow> own t' = Some (i, ph) \<Longrightarrow> cvar ph = Some c \<Longrightarrow>
     \<exists>inc. ph = PWait inc c \<and> st ! i = Executing inc"
  unfolding notify_ok_def by blast

lemma notify_wakes:
  "notify_ok st cv own nt \<Longrightarrow> own t = Some (i, PWait inc c) \<Longrightarrow> st ! i = Executing inc \<Longrightarrow>
     cv ! c \<or> (\<exists>t'. nt t' = Some c)"
  unfolding notify_ok_def by blast

lemma notify_change:
  assumes "notify_ok st cv own nt"
    and only: "\<And>t' ph. own t' = Some (i, ph) \<Longrightarrow> t' = t"
    and new: "\<And>j ph. ow = Some (j, ph) \<Longrightarrow> j = i"
    and quiet: "\<And>j ph c t'. ow = Some (j, ph) \<Longrightarrow> cvar ph = Some c \<Longrightarrow> nt t' \<noteq> Some c"
    and calm: "\<And>j inc c. ow = Some (j, PWait inc c) \<Longrightarrow> st[i := x] ! i \<noteq> Executing inc"
  shows "notify_ok (st[i := x]) cv (own(t := ow)) nt"
  unfolding notify_ok_def
proof (intro conjI allI impI)
  show "c < length cv" if "nt t1 = Some c" for t1 c
    by (rule notify_len [OF assms(1) that])
next
  fix t1 t2 c j ph
  assume a: "nt t1 = Some c" "(own(t := ow)) t2 = Some (j, ph)" "cvar ph = Some c"
  with quiet have "t2 \<noteq> t" by auto
  with a only have "own t2 = Some (j, ph)" "j \<noteq> i" by auto
  with notify_own [OF assms(1) a(1) this(1) a(3)] show "\<exists>inc. ph = PWait inc c \<and> st[i := x] ! j = Executing inc"
    by auto
next
  fix t1 j inc c
  assume a: "(own(t := ow)) t1 = Some (j, PWait inc c)" "st[i := x] ! j = Executing inc"
  with calm new have "t1 \<noteq> t" by (metis fun_upd_same)
  with a only have "own t1 = Some (j, PWait inc c)" "j \<noteq> i" by auto
  with notify_wakes [OF assms(1) this(1)] a(2) show "cv ! c \<or> (\<exists>t'. nt t' = Some c)"
    by auto
qed

lemma notify_status:
  assumes "notify_ok st cv own nt" "\<And>inc. x \<noteq> Executing inc" "\<And>inc. st ! i \<noteq> Executing inc"
  shows "notify_ok (st[i := x]) cv own nt"
proof -
  have "st[i := x] ! j = Executing inc \<longleftrightarrow> st ! j = Executing inc" for j inc
    using assms(2,3) by (metis nth_list_update_eq nth_list_update_neq list_update_beyond not_le)
  then show ?thesis using assms(1) unfolding notify_ok_def by simp
qed

section \<open>Dependency lists\<close>

lemma queues_cong:
  assumes "queues_ok st own dl tk" "\<And>i. waits st' own' i \<longleftrightarrow> waits st own i"
  shows "queues_ok st' own' dl tk"
  using assms by (simp add: queues_ok_def)

lemma queue_waits: "queues_ok st own dl tk \<Longrightarrow> i \<in> set (queue dl tk p) \<Longrightarrow> waits st own i"
  unfolding queues_ok_def by blast

lemma queue_unique:
  "queues_ok st own dl tk \<Longrightarrow> i \<in> set (queue dl tk p) \<Longrightarrow> i \<in> set (queue dl tk p') \<Longrightarrow> p = p'"
  unfolding queues_ok_def by blast

lemma waits_queue: "queues_ok st own dl tk \<Longrightarrow> waits st own i \<Longrightarrow> \<exists>p. i \<in> set (queue dl tk p)"
  unfolding queues_ok_def by blast

lemma queue_push:
  "j < length dl \<Longrightarrow> queue (dl[j := dl ! j @ [i]]) tk p = queue dl tk p @ (if p = Dep j then [i] else [])"
  by (cases p) (auto simp: nth_list_update)

lemma queues_push:
  assumes "queues_ok st own dl tk" "j < length dl" "j < i" "\<not> waits st own i"
    and "\<And>x. waits st own' x \<longleftrightarrow> x = i \<or> waits st own x"
  shows "queues_ok st own' (dl[j := dl ! j @ [i]]) tk"
proof -
  have i: "i \<notin> set (queue dl tk p)" for p
    using queue_waits [OF assms(1)] assms(4) by blast
  show ?thesis
    unfolding queues_ok_def queue_push [OF assms(2)] assms(5)
  proof (intro conjI allI impI)
    show "distinct (queue dl tk p @ (if p = Dep j then [i] else []))" for p
      using assms(1) i [of p] unfolding queues_ok_def by auto
    show "p = p'" if "x \<in> set (queue dl tk p @ (if p = Dep j then [i] else []))"
      "x \<in> set (queue dl tk p' @ (if p' = Dep j then [i] else []))" for p p' x
      using that i queue_unique [OF assms(1), of x p p'] by (auto split: if_splits)
    show "(\<exists>p. x \<in> set (queue dl tk p @ (if p = Dep j then [i] else []))) \<longleftrightarrow> x = i \<or> waits st own x" for x
      using queue_waits [OF assms(1)] waits_queue [OF assms(1)] by (auto split: if_splits; blast)
    show "\<forall>y \<in> set (dl[j := dl ! j @ [i]] ! j'). j' < y" if "j' < length (dl[j := dl ! j @ [i]])" for j'
      using assms(1,2,3) that by (cases "j' = j") (auto simp: queues_ok_def)
  qed
qed

lemma queues_permute:
  assumes "queues_ok st own dl tk" "\<And>p. queue dl' tk' p = queue dl tk (f p) \<or> queue dl' tk' p = []"
    and "\<And>p p'. queue dl' tk' p \<noteq> [] \<Longrightarrow> queue dl' tk' p' \<noteq> [] \<Longrightarrow> f p = f p' \<Longrightarrow> p = p'"
    and "\<And>p. queue dl tk p \<noteq> [] \<Longrightarrow> \<exists>p'. queue dl' tk' p' = queue dl tk p"
    and "\<forall>j < length dl'. \<forall>i \<in> set (dl' ! j). j < i"
  shows "queues_ok st own dl' tk'"
  unfolding queues_ok_def
proof (intro conjI allI impI)
  show "distinct (queue dl' tk' p)" for p
    using assms(1) assms(2) [of p] by (auto simp: queues_ok_def)
  have sub: "i \<in> set (queue dl tk (f p))" "queue dl' tk' p \<noteq> []" if "i \<in> set (queue dl' tk' p)" for p i
    using that assms(2) [of p] by auto
  show "p = p'" if "i \<in> set (queue dl' tk' p)" "i \<in> set (queue dl' tk' p')" for p p' i
    by (rule assms(3) [OF sub(2) [OF that(1)] sub(2) [OF that(2)] queue_unique [OF assms(1) sub(1) [OF that(1)] sub(1) [OF that(2)]]])
  show "(\<exists>p. i \<in> set (queue dl' tk' p)) \<longleftrightarrow> waits st own i" for i
  proof
    assume "waits st own i"
    then obtain p where p: "i \<in> set (queue dl tk p)" using waits_queue [OF assms(1)] by blast
    then have "queue dl tk p \<noteq> []" by auto
    with assms(4) p show "\<exists>p. i \<in> set (queue dl' tk' p)" by metis
  qed (use sub queue_waits [OF assms(1)] in blast)
qed (use assms(5) in blast)

lemma queues_take:
  assumes "queues_ok st own dl tk" "j < length dl" "tk t = []"
  shows "queues_ok st own (dl[j := []]) (tk(t := dl ! j))"
proof (rule queues_permute [OF assms(1)])
  let ?f = "\<lambda>p. if p = Taken t then Dep j else p"
  show "queue (dl[j := []]) (tk(t := dl ! j)) p = queue dl tk (?f p) \<or> queue (dl[j := []]) (tk(t := dl ! j)) p = []" for p
    using assms(2) by (cases p) (auto simp: nth_list_update)
  show "p = p'" if "queue (dl[j := []]) (tk(t := dl ! j)) p \<noteq> []" "queue (dl[j := []]) (tk(t := dl ! j)) p' \<noteq> []"
    "?f p = ?f p'" for p p'
    using that assms(2) by (auto split: if_splits)
  show "\<exists>p'. queue (dl[j := []]) (tk(t := dl ! j)) p' = queue dl tk p" if "queue dl tk p \<noteq> []" for p
    using that assms(2,3)
    by (intro exI [of _ "if p = Dep j then Taken t else p"]) (cases p; auto simp: nth_list_update)
  show "\<forall>j' < length (dl[j := []]). \<forall>i \<in> set (dl[j := []] ! j'). j' < i"
  proof (intro allI impI)
    show "\<forall>i \<in> set (dl[j := []] ! j'). j' < i" if "j' < length (dl[j := []])" for j'
      using that assms(1,2) by (cases "j' = j") (simp_all add: queues_ok_def)
  qed
qed

lemma queues_resume:
  assumes "queues_ok st own dl tk" "tk t = i # is"
    and "\<And>x. waits st' own x \<longleftrightarrow> x \<noteq> i \<and> waits st own x"
  shows "queues_ok st' own dl (tk(t := is))"
proof -
  have q: "queue dl (tk(t := is)) p = (if p = Taken t then is else queue dl tk p)" for p
    by (cases p) auto
  have t: "queue dl tk (Taken t) = i # is" using assms(2) by simp
  have i: "i \<notin> set (queue dl tk p)" if "p \<noteq> Taken t" for p
    using that queue_unique [OF assms(1), of i p "Taken t"] t by auto
  have d: "distinct (i # is)" using assms(1,2) unfolding queues_ok_def by (metis queue.simps(2))
  have u: "p = Taken t" if "x \<in> set is" "x \<in> set (queue dl tk p)" for x p
    using that queue_unique [OF assms(1), of x p "Taken t"] t by auto
  show ?thesis
    unfolding queues_ok_def q assms(3)
  proof (intro conjI allI impI)
    show "distinct (if p = Taken t then is else queue dl tk p)" for p
      using assms(1) d by (simp add: queues_ok_def)
    show "p = p'" if "x \<in> set (if p = Taken t then is else queue dl tk p)"
      "x \<in> set (if p' = Taken t then is else queue dl tk p')" for p p' x
      using that u [of x] queue_unique [OF assms(1), of x p p'] by (auto split: if_splits)
    show "(\<exists>p. x \<in> set (if p = Taken t then is else queue dl tk p)) \<longleftrightarrow> x \<noteq> i \<and> waits st own x" for x
    proof (cases "x = i")
      case True
      then show ?thesis using i d by auto
    next
      case False
      have "(\<exists>p. x \<in> set (if p = Taken t then is else queue dl tk p)) \<longleftrightarrow> (\<exists>p. x \<in> set (queue dl tk p))"
      proof
        assume "\<exists>p. x \<in> set (queue dl tk p)"
        then obtain p where p: "x \<in> set (queue dl tk p)" ..
        show "\<exists>p. x \<in> set (if p = Taken t then is else queue dl tk p)"
          using p t False by (intro exI [of _ p]) auto
      next
        assume "\<exists>p. x \<in> set (if p = Taken t then is else queue dl tk p)"
        then show "\<exists>p. x \<in> set (queue dl tk p)"
          using t by (metis list.set_intros(2))
      qed
      then show ?thesis
        using False queue_waits [OF assms(1)] waits_queue [OF assms(1)] by blast
    qed
  qed (use assms(1) in \<open>auto simp: queues_ok_def\<close>)
qed

section \<open>Indices\<close>

text \<open>A token covers what it covered before, or what it gives up is covered by the index or irrelevant.\<close>

lemma exec_change:
  assumes "exec_ok n st ei ex"
    and "\<And>i inc oc. i < n \<Longrightarrow> st' ! i = ReadyToExecute inc oc \<Longrightarrow> i \<notin> ex' \<Longrightarrow> \<not> ei' \<le> i \<Longrightarrow>
      (\<exists>inc oc. st ! i = ReadyToExecute inc oc) \<and> \<not> ei \<le> i \<and> i \<notin> ex t"
  shows "exec_ok n st' ei' (ex(t := ex'))"
  unfolding exec_ok_def
proof (intro allI impI)
  fix i inc oc
  assume i: "i < n" "st' ! i = ReadyToExecute inc oc"
  show "ei' \<le> i \<or> (\<exists>t'. i \<in> (ex(t := ex')) t')"
  proof (cases "i \<in> ex' \<or> ei' \<le> i")
    case False
    with assms(2) [OF i] assms(1) i(1) obtain t' where "i \<in> ex t'" "i \<notin> ex t"
      unfolding exec_ok_def by blast
    then have "i \<in> (ex(t := ex')) t'" by auto
    then show ?thesis by blast
  qed (auto intro: exI [of _ t])
qed

lemma val_change:
  assumes "val_ok n st vi u va"
    and "\<And>i inc. i < n \<Longrightarrow> i \<in> u' \<Longrightarrow> st' ! i = Executed inc \<Longrightarrow> (i, inc) \<notin> va' \<Longrightarrow> \<not> vi' \<le> i \<Longrightarrow>
      i \<in> u \<and> st ! i = Executed inc \<and> \<not> vi \<le> i \<and> (i, inc) \<notin> va t"
  shows "val_ok n st' vi' u' (va(t := va'))"
  unfolding val_ok_def
proof (intro allI impI)
  fix i inc
  assume i: "i < n" "i \<in> u'" "st' ! i = Executed inc"
  show "vi' \<le> i \<or> (\<exists>t'. (i, inc) \<in> (va(t := va')) t')"
  proof (cases "(i, inc) \<in> va' \<or> vi' \<le> i")
    case False
    with assms(2) [OF i] assms(1) i(1) obtain t' where "(i, inc) \<in> va t'" "(i, inc) \<notin> va t"
      unfolding val_ok_def by blast
    then have "(i, inc) \<in> (va(t := va')) t'" by auto
    then show ?thesis by blast
  qed (auto intro: exI [of _ t])
qed

lemma exec_status:
  assumes "exec_ok n st ei ex" "\<And>inc oc. x \<noteq> ReadyToExecute inc oc"
  shows "exec_ok n (st[i := x]) ei ex"
  using assms unfolding exec_ok_def
  by (metis list_update_beyond not_le nth_list_update_eq nth_list_update_neq)

lemma val_status:
  assumes "val_ok n st vi u va" "\<And>inc. x \<noteq> Executed inc"
  shows "val_ok n (st[i := x]) vi u va"
  using assms unfolding val_ok_def
  by (metis list_update_beyond not_le nth_list_update_eq nth_list_update_neq)

section \<open>Guards, locks and unfinished executions\<close>

lemma guards_gain: "guards_ok a g \<Longrightarrow> \<not> g t \<Longrightarrow> guards_ok (a + 1) (g(t := True))"
proof -
  assume a: "guards_ok a g" "\<not> g t"
  have "{x. (g(t := True)) x} = insert t {x. g x}" by auto
  with a show ?thesis by (simp add: guards_ok_def)
qed

lemma guards_drop: "guards_ok a g \<Longrightarrow> g t \<Longrightarrow> 0 < a \<and> guards_ok (a - 1) (g(t := False))"
proof -
  assume a: "guards_ok a g" "g t"
  have "{x. (g(t := False)) x} = {x. g x} - {t}" by auto
  with a show ?thesis by (auto simp: guards_ok_def card_gt_0_iff)
qed

lemma locks_take:
  assumes "locks_ok lo lk" "j < length lo" "\<not> lo ! j" "lk t = None"
  shows "locks_ok (lo[j := True]) (lk(t := Some j))"
  unfolding locks_ok_def
proof (intro conjI allI impI)
  fix t' j' assume a: "(lk(t := Some j)) t' = Some j'"
  then show "j' < length (lo[j := True])"
    using assms(1,2) by (auto simp: locks_ok_def split: if_splits)
  from a show "lo[j := True] ! j'"
    using assms(1,2) by (auto simp: locks_ok_def nth_list_update split: if_splits)
next
  fix t1 t2 j'
  assume "(lk(t := Some j)) t1 = Some j'" "(lk(t := Some j)) t2 = Some j'"
  then show "t1 = t2"
    using assms(1,3) unfolding locks_ok_def by (auto split: if_splits)
next
  fix j' assume "j' < length (lo[j := True])" "lo[j := True] ! j'"
  then show "\<exists>t'. (lk(t := Some j)) t' = Some j'"
    using assms(1,4) unfolding locks_ok_def
    by (cases "j' = j") (auto, metis option.distinct(1))
qed

lemma locks_drop:
  assumes "locks_ok lo lk" "lk t = Some j"
  shows "locks_ok (lo[j := False]) (lk(t := None))"
proof -
  have j: "j < length lo" using assms by (auto simp: locks_ok_def)
  have n: "j' \<noteq> j" if "lk t' = Some j'" "t' \<noteq> t" for t' j'
    using that assms unfolding locks_ok_def by blast
  show ?thesis
    unfolding locks_ok_def
  proof (intro conjI allI impI)
    fix t' j' assume a: "(lk(t := None)) t' = Some j'"
    then have t': "lk t' = Some j'" "t' \<noteq> t" by (auto split: if_splits)
    then show "j' < length (lo[j := False])"
      using assms(1) by (auto simp: locks_ok_def)
    from n [OF t'] t'(1) show "lo[j := False] ! j'"
      using assms(1) by (auto simp: locks_ok_def)
  next
    fix t1 t2 j'
    assume "(lk(t := None)) t1 = Some j'" "(lk(t := None)) t2 = Some j'"
    then show "t1 = t2"
      using assms(1) unfolding locks_ok_def by (auto split: if_splits)
  next
    fix j' assume a: "j' < length (lo[j := False])" "lo[j := False] ! j'"
    with j have "j' \<noteq> j" by auto
    with a assms(1) obtain t' where "lk t' = Some j'"
      by (auto simp: locks_ok_def)
    with assms(2) \<open>j' \<noteq> j\<close> have "(lk(t := None)) t' = Some j'" by auto
    then show "\<exists>t'. (lk(t := None)) t' = Some j'" by blast
  qed
qed

lemma pending_change:
  assumes "pending_ok st dl lk ck tg"
    and "\<And>j. unfinished st tg j \<Longrightarrow> unfinished st' tg' j"
  shows "pending_ok st' dl lk ck tg'"
  using assms unfolding pending_ok_def by blast

lemma unfinished_status:
  "unfinished st tg j \<Longrightarrow> (\<And>inc. x \<noteq> Executed inc) \<Longrightarrow> unfinished (st[i := x]) tg j"
  unfolding unfinished_def
  by (metis list_update_beyond not_le nth_list_update_eq nth_list_update_neq)

lemma low_change:
  assumes "low_ok m ei own gr" "t < m" "ei \<le> ei'" "low ei (own t) (gr t) \<Longrightarrow> low ei' ow g"
  shows "low_ok m ei' (own(t := ow)) (gr(t := g))"
proof -
  from assms(1,2) obtain t' where t': "t' < m" "low ei (own t') (gr t')"
    by (auto simp: low_ok_def)
  have "low ei' ((own(t := ow)) t') ((gr(t := g)) t')"
    using t' assms(3,4) by (auto simp: low_def)
  with t' show ?thesis by (auto simp: low_ok_def)
qed

lemma low_mine:
  assumes "t < m" "low ei' ow g"
  shows "low_ok m ei' (own(t := ow)) (gr(t := g))"
  using assms by (auto simp: low_ok_def intro!: exI [of _ t])

section \<open>The end\<close>

lemma final_step:
  assumes "final n s u \<gamma>" "txn_status s' = txn_status s" "execution_idx s \<le> execution_idx s'"
    "validation_idx s \<le> validation_idx s'" "\<And>i. i < n \<Longrightarrow> i \<in> u' \<Longrightarrow> i \<in> u"
    "harmless n k"
  shows "final n s' u' (\<gamma>(t := k))"
  using assms unfolding final_def by (auto intro: order_trans)

lemma seen_mono:
  assumes "seen n cnt vi ei late fin ob" "fin \<Longrightarrow> fin'" "cnt \<le> cnt'"
    "cnt < cnt' \<or> late' \<or> \<not> late \<and> vi \<le> vi' \<and> ei \<le> ei'"
  shows "seen n cnt' vi' ei' late' fin' ob"
  using assms by (cases ob) auto

lemma ended_step:
  assumes "ended_ok n s u \<gamma>"
    and "final n s u \<gamma> \<Longrightarrow> final n s' u' (\<gamma>(t := k))"
    and "done_marker s' = done_marker s" "decrease_cnt s \<le> decrease_cnt s'"
    and "tk_obs k = tk_obs (\<gamma> t) \<or> tk_obs k = ONone"
    and "decrease_cnt s < decrease_cnt s' \<or> tk_late k \<or>
      tk_late k = tk_late (\<gamma> t) \<and> validation_idx s \<le> validation_idx s' \<and> execution_idx s \<le> execution_idx s'"
  shows "ended_ok n s' u' (\<gamma>(t := k))"
proof -
  have late: "decrease_cnt s < decrease_cnt s' \<or> (\<exists>x. tk_late ((\<gamma>(t := k)) x)) \<or>
      \<not> (\<exists>x. tk_late (\<gamma> x)) \<and> validation_idx s \<le> validation_idx s' \<and> execution_idx s \<le> execution_idx s'"
    using assms(6) by (metis fun_upd_apply)
  let ?seen = "seen n (decrease_cnt s') (validation_idx s') (execution_idx s')
    (\<exists>t'. tk_late ((\<gamma>(t := k)) t')) (final n s' u' (\<gamma>(t := k)))"
  have seen: "?seen (tk_obs (\<gamma> t1))" for t1
    by (rule seen_mono [OF assms(1) [unfolded ended_ok_def, THEN conjunct2, THEN spec, of t1] assms(2,4) late])
  have "?seen (tk_obs ((\<gamma>(t := k)) t1))" for t1
  proof (cases "t1 = t")
    case True
    with assms(5) seen [of t] show ?thesis by (elim disjE) (simp_all only: fun_upd_same seen.simps)
  next
    case False
    then have "(\<gamma>(t := k)) t1 = \<gamma> t1" by simp
    with seen [of t1] show ?thesis by (simp only:)
  qed
  with assms(1-3) show ?thesis
    unfolding ended_ok_def by blast
qed

lemma final_harmless: "final n s u \<gamma> \<Longrightarrow> harmless n (\<gamma> t)"
  by (simp add: final_def)

lemma ended_kept:
  assumes "ended_ok n s u \<gamma>" "txn_status s' = txn_status s"
    "execution_idx s \<le> execution_idx s'" "validation_idx s \<le> validation_idx s'"
    "decrease_cnt s' = decrease_cnt s" "done_marker s' = done_marker s"
    "\<And>i. i < n \<Longrightarrow> i \<in> u' \<Longrightarrow> i \<in> u"
    "final n s u \<gamma> \<Longrightarrow> harmless n k" "tk_late k = tk_late (\<gamma> t)"
    "tk_obs k = tk_obs (\<gamma> t) \<or> tk_obs k = ONone"
  shows "ended_ok n s' u' (\<gamma>(t := k))"
  by (rule ended_step [OF assms(1)]) (use assms final_step in auto)

lemma ended_quiet:
  assumes "ended_ok n s u \<gamma>" "txn_status s' = txn_status s"
    "execution_idx s \<le> execution_idx s'" "validation_idx s \<le> validation_idx s'"
    "decrease_cnt s' = decrease_cnt s" "done_marker s' = done_marker s"
    "harmless n (\<gamma> t) \<Longrightarrow> harmless n k" "tk_late k = tk_late (\<gamma> t)"
    "tk_obs k = tk_obs (\<gamma> t) \<or> tk_obs k = ONone"
  shows "ended_ok n s' u (\<gamma>(t := k))"
  by (rule ended_kept [OF assms(1)]) (use assms final_harmless in auto)

lemma ended_busy:
  assumes "ended_ok n s u \<gamma>" "\<not> harmless n (\<gamma> t)"
    "decrease_cnt s \<le> decrease_cnt s'" "done_marker s' = done_marker s"
    "tk_obs k = tk_obs (\<gamma> t) \<or> tk_obs k = ONone"
    "decrease_cnt s < decrease_cnt s' \<or> tk_late k \<or>
      tk_late k = tk_late (\<gamma> t) \<and> validation_idx s \<le> validation_idx s' \<and> execution_idx s \<le> execution_idx s'"
  shows "ended_ok n s' u' (\<gamma>(t := k))"
  by (rule ended_step [OF assms(1)]) (use assms final_harmless in blast)+

section \<open>Working with the invariant\<close>

lemma comp_upd_same [simp]: "(g \<circ> \<gamma>)(t := g (\<gamma> t)) = g \<circ> \<gamma>"
  by auto

lemma tokens_upd: "tokens_ok m \<gamma> \<Longrightarrow> t < m \<Longrightarrow> token_ok k \<Longrightarrow> tokens_ok m (\<gamma>(t := k))"
  by (auto simp: tokens_ok_def)

lemma Inv_token: "Inv n m s u \<gamma> \<Longrightarrow> token_ok (\<gamma> t)"
  by (simp add: Inv_def tokens_ok_def)

lemma Inv_ended: "Inv n m s u \<gamma> \<Longrightarrow> ended_ok n s u \<gamma>"
  by (simp add: Inv_def)

lemma Inv_exec: "Inv n m s u \<gamma> \<Longrightarrow> exec_ok n (txn_status s) (execution_idx s) (tk_exec \<circ> \<gamma>)"
  by (simp add: Inv_def)

lemma Inv_val: "Inv n m s u \<gamma> \<Longrightarrow> val_ok n (txn_status s) (validation_idx s) u (tk_val \<circ> \<gamma>)"
  by (simp add: Inv_def)

lemma Inv_owners: "Inv n m s u \<gamma> \<Longrightarrow> owners_ok n (txn_status s) (condvars s) (tk_own \<circ> \<gamma>)"
  by (simp add: Inv_def)

lemma Inv_notify: "Inv n m s u \<gamma> \<Longrightarrow> notify_ok (txn_status s) (condvars s) (tk_own \<circ> \<gamma>) (tk_notify \<circ> \<gamma>)"
  by (simp add: Inv_def)

lemma Inv_queues:
  "Inv n m s u \<gamma> \<Longrightarrow> queues_ok (txn_status s) (tk_own \<circ> \<gamma>) (map mx_data (txn_dependency s)) (tk_deps \<circ> \<gamma>)"
  by (simp add: Inv_def)

lemma Inv_locks: "Inv n m s u \<gamma> \<Longrightarrow> locks_ok (map mx_locked (txn_dependency s)) (tk_lock \<circ> \<gamma>)"
  by (simp add: Inv_def)

lemma Inv_pending:
  "Inv n m s u \<gamma> \<Longrightarrow> pending_ok (txn_status s) (map mx_data (txn_dependency s))
     (tk_lock \<circ> \<gamma>) (tk_checked \<circ> \<gamma>) (tk_taking \<circ> \<gamma>)"
  by (simp add: Inv_def)

lemma Inv_low: "Inv n m s u \<gamma> \<Longrightarrow> low_ok m (execution_idx s) (tk_own \<circ> \<gamma>) (tk_grab \<circ> \<gamma>)"
  by (simp add: Inv_def)

lemma Inv_size:
  "Inv n m s u \<gamma> \<Longrightarrow> num_txns s = n \<and> length (txn_status s) = n \<and> length (txn_dependency s) = n"
  by (simp add: Inv_def)

lemma Inv_idle: "Inv n m s u \<gamma> \<Longrightarrow> Inv n m s u (\<gamma>(t := \<gamma> t))"
  by simp

lemmas inv_simps = Inv_def fun_upd_comp tokens_upd

text \<open>Guards.\<close>

lemma inv_guard_new:
  assumes "Inv n m s u \<gamma>" "t < m" "\<not> tk_guard (\<gamma> t)"
  shows "Inv n m (s\<lparr>num_active_tasks := num_active_tasks s + 1\<rparr>) u (\<gamma>(t := \<gamma> t\<lparr>tk_guard := True\<rparr>))"
proof -
  have "token_ok (\<gamma> t\<lparr>tk_guard := True\<rparr>)" by (simp add: token_ok_def)
  moreover have "ended_ok n (s\<lparr>num_active_tasks := num_active_tasks s + 1\<rparr>) u (\<gamma>(t := \<gamma> t\<lparr>tk_guard := True\<rparr>))"
    by (rule ended_quiet [OF Inv_ended [OF assms(1)]]) (simp_all add: harmless_def)
  moreover have "guards_ok (num_active_tasks s + 1) ((tk_guard \<circ> \<gamma>)(t := True))"
    using assms by (intro guards_gain) (simp_all add: Inv_def)
  ultimately show ?thesis
    using assms(1,2) by (simp add: inv_simps)
qed

lemma inv_drop_guard:
  assumes "Inv n m s u \<gamma>" "t < m" "tk_guard (\<gamma> t)" "token_ok (\<gamma> t\<lparr>tk_guard := False\<rparr>)"
  shows "0 < num_active_tasks s \<and>
    Inv n m (s\<lparr>num_active_tasks := num_active_tasks s - 1\<rparr>) u (\<gamma>(t := \<gamma> t\<lparr>tk_guard := False\<rparr>))"
proof -
  have "ended_ok n (s\<lparr>num_active_tasks := num_active_tasks s - 1\<rparr>) u (\<gamma>(t := \<gamma> t\<lparr>tk_guard := False\<rparr>))"
    by (rule ended_quiet [OF Inv_ended [OF assms(1)]]) (simp_all add: harmless_def)
  moreover have "0 < num_active_tasks s \<and> guards_ok (num_active_tasks s - 1) ((tk_guard \<circ> \<gamma>)(t := False))"
    using assms by (intro guards_drop) (simp_all add: Inv_def)
  ultimately show ?thesis
    using assms(1,2,4) by (simp add: inv_simps)
qed

text \<open>Indices.\<close>

lemma inv_fetch_validation:
  assumes "Inv n m s u \<gamma>" "t < m" "tk_guard (\<gamma> t)" "tk_val (\<gamma> t) = {}"
  shows "Inv n m (s\<lparr>validation_idx := validation_idx s + 1\<rparr>) u (\<gamma>(t := \<gamma> t\<lparr>tk_val := {validation_idx s} \<times> UNIV\<rparr>))"
proof -
  let ?k = "\<gamma> t\<lparr>tk_val := {validation_idx s} \<times> UNIV\<rparr>"
  have "token_ok ?k" using assms(3) by (simp add: token_ok_def)
  moreover have "ended_ok n (s\<lparr>validation_idx := validation_idx s + 1\<rparr>) u (\<gamma>(t := ?k))"
    by (rule ended_kept [OF Inv_ended [OF assms(1)]])
       (auto simp: harmless_def final_def dest: spec [of _ t])
  moreover have "val_ok n (txn_status s) (validation_idx s + 1) u ((tk_val \<circ> \<gamma>)(t := {validation_idx s} \<times> UNIV))"
    using assms(1,4) by (intro val_change [where u = u and st = "txn_status s" and vi = "validation_idx s"]) (auto simp: Inv_def)
  ultimately show ?thesis
    using assms(1,2) by (simp add: inv_simps)
qed

lemma inv_fetch_execution:
  assumes "Inv n m s u \<gamma>" "t < m" "tk_guard (\<gamma> t)" "tk_exec (\<gamma> t) = {}" "tk_own (\<gamma> t) = None"
  shows "Inv n m (s\<lparr>execution_idx := execution_idx s + 1\<rparr>) u
    (\<gamma>(t := \<gamma> t\<lparr>tk_exec := {execution_idx s}, tk_grab := Some (execution_idx s)\<rparr>))"
proof -
  let ?k = "\<gamma> t\<lparr>tk_exec := {execution_idx s}, tk_grab := Some (execution_idx s)\<rparr>"
  have "token_ok ?k" using assms(3) by (simp add: token_ok_def)
  moreover have "ended_ok n (s\<lparr>execution_idx := execution_idx s + 1\<rparr>) u (\<gamma>(t := ?k))"
    by (rule ended_kept [OF Inv_ended [OF assms(1)]])
       (auto simp: harmless_def final_def dest: spec [of _ t])
  moreover have "exec_ok n (txn_status s) (execution_idx s + 1) ((tk_exec \<circ> \<gamma>)(t := {execution_idx s}))"
    using assms(1,4) by (intro exec_change [where st = "txn_status s" and ei = "execution_idx s"]) (auto simp: Inv_def)
  moreover have "low_ok m (execution_idx s + 1) ((tk_own \<circ> \<gamma>)(t := tk_own (\<gamma> t))) ((tk_grab \<circ> \<gamma>)(t := Some (execution_idx s)))"
    using assms by (intro low_change) (auto simp: Inv_def low_def)
  ultimately show ?thesis
    using assms(1,2) by (simp add: inv_simps)
qed

text \<open>Giving up an obligation: the index has it, or there is nothing to do.\<close>

lemma inv_release_val:
  assumes "Inv n m s u \<gamma>" "t < m"
    and "\<And>i inc. i < n \<Longrightarrow> (i, inc) \<in> tk_val (\<gamma> t) \<Longrightarrow> (i, inc) \<notin> va \<Longrightarrow> i \<in> u \<Longrightarrow>
      txn_status s ! i = Executed inc \<Longrightarrow> validation_idx s \<le> i"
    and "tk_guard (\<gamma> t)" "va \<subseteq> tk_val (\<gamma> t)"
  shows "Inv n m s u (\<gamma>(t := \<gamma> t\<lparr>tk_val := va\<rparr>))"
proof -
  have "token_ok (\<gamma> t\<lparr>tk_val := va\<rparr>)" using assms(4) by (simp add: token_ok_def)
  moreover have "ended_ok n s u (\<gamma>(t := \<gamma> t\<lparr>tk_val := va\<rparr>))"
    using assms(5) by (intro ended_quiet [OF Inv_ended [OF assms(1)]]) (auto simp: harmless_def)
  moreover have "val_ok n (txn_status s) (validation_idx s) u ((tk_val \<circ> \<gamma>)(t := va))"
    using assms(1,3) by (intro val_change [where u = u and st = "txn_status s" and vi = "validation_idx s"]) (auto simp: Inv_def)
  ultimately show ?thesis
    using assms(1,2) by (simp add: inv_simps)
qed

lemma inv_release_exec:
  assumes "Inv n m s u \<gamma>" "t < m"
    and "\<And>i inc oc. i < n \<Longrightarrow> i \<in> tk_exec (\<gamma> t) \<Longrightarrow> txn_status s ! i = ReadyToExecute inc oc \<Longrightarrow> execution_idx s \<le> i"
    and "tk_guard (\<gamma> t)"
  shows "Inv n m s u (\<gamma>(t := \<gamma> t\<lparr>tk_exec := {}, tk_grab := None\<rparr>))"
proof -
  let ?k = "\<gamma> t\<lparr>tk_exec := {}, tk_grab := None\<rparr>"
  have "token_ok ?k" using assms(4) by (simp add: token_ok_def)
  moreover have "ended_ok n s u (\<gamma>(t := ?k))"
    by (intro ended_quiet [OF Inv_ended [OF assms(1)]]) (auto simp: harmless_def)
  moreover have "exec_ok n (txn_status s) (execution_idx s) ((tk_exec \<circ> \<gamma>)(t := {}))"
    using assms(1,3) by (intro exec_change [where st = "txn_status s" and ei = "execution_idx s"]) (auto simp: Inv_def)
  moreover have "low_ok m (execution_idx s) ((tk_own \<circ> \<gamma>)(t := tk_own (\<gamma> t))) ((tk_grab \<circ> \<gamma>)(t := None))"
    using assms(1,2) by (intro low_change) (auto simp: Inv_def low_def)
  ultimately show ?thesis
    using assms(1,2) by (simp add: inv_simps)
qed

lemma inv_grab:
  assumes "Inv n m s u \<gamma>" "t < m" "tk_guard (\<gamma> t)" "i < execution_idx s" "tk_own (\<gamma> t) = None"
  shows "Inv n m s u (\<gamma>(t := \<gamma> t\<lparr>tk_grab := Some i\<rparr>))"
proof -
  have "token_ok (\<gamma> t\<lparr>tk_grab := Some i\<rparr>)" using assms(3) by (simp add: token_ok_def)
  moreover have "ended_ok n s u (\<gamma>(t := \<gamma> t\<lparr>tk_grab := Some i\<rparr>))"
    by (intro ended_quiet [OF Inv_ended [OF assms(1)]]) (auto simp: harmless_def)
  moreover have "low_ok m (execution_idx s) ((tk_own \<circ> \<gamma>)(t := tk_own (\<gamma> t))) ((tk_grab \<circ> \<gamma>)(t := Some i))"
    using assms by (intro low_mine) (auto simp: low_def)
  ultimately show ?thesis
    using assms(1,2) by (simp add: inv_simps)
qed

lemma inv_min_execution:
  assumes "Inv n m s u \<gamma>" "t < m" "tk_guard (\<gamma> t)" "\<And>i. i \<in> tk_exec (\<gamma> t) \<Longrightarrow> target \<le> i"
    and "\<exists>i \<in> tk_exec (\<gamma> t). i < n" "tk_own (\<gamma> t) = None" "tk_grab (\<gamma> t) = None" "\<not> tk_late (\<gamma> t)"
  shows "Inv n m (s\<lparr>execution_idx := min (execution_idx s) target\<rparr>) u
    (\<gamma>(t := \<gamma> t\<lparr>tk_exec := {}, tk_late := target < execution_idx s\<rparr>))"
proof -
  let ?k = "\<gamma> t\<lparr>tk_exec := {}, tk_late := target < execution_idx s\<rparr>"
  have "token_ok ?k" using assms(3) by (simp add: token_ok_def)
  moreover have "ended_ok n (s\<lparr>execution_idx := min (execution_idx s) target\<rparr>) u (\<gamma>(t := ?k))"
    using assms(8) by (intro ended_busy [OF Inv_ended [OF assms(1)]])
      (use assms(5) in \<open>force simp: harmless_def not_le\<close>, auto)
  moreover have "exec_ok n (txn_status s) (min (execution_idx s) target) ((tk_exec \<circ> \<gamma>)(t := {}))"
    using assms(1,4) by (intro exec_change [where st = "txn_status s" and ei = "execution_idx s"])
      (auto simp: Inv_exec [OF assms(1)] min_le_iff_disj)
  moreover have "low_ok m (min (execution_idx s) target) ((tk_own \<circ> \<gamma>)(t := tk_own (\<gamma> t))) ((tk_grab \<circ> \<gamma>)(t := tk_grab (\<gamma> t)))"
    using assms by (intro low_mine) (auto simp: low_def)
  ultimately show ?thesis
    using assms(1,2) by (simp add: inv_simps)
qed

lemma inv_min_validation:
  assumes "Inv n m s u \<gamma>" "t < m" "tk_guard (\<gamma> t)" "\<And>v. v \<in> tk_val (\<gamma> t) \<Longrightarrow> target \<le> fst v"
    and "\<not> harmless n (\<gamma> t)" "\<not> tk_late (\<gamma> t)"
  shows "Inv n m (s\<lparr>validation_idx := min (validation_idx s) target\<rparr>) u
    (\<gamma>(t := \<gamma> t\<lparr>tk_val := {}, tk_late := target < validation_idx s\<rparr>))"
proof -
  let ?k = "\<gamma> t\<lparr>tk_val := {}, tk_late := target < validation_idx s\<rparr>"
  have "token_ok ?k" using assms(3) by (simp add: token_ok_def)
  moreover have "ended_ok n (s\<lparr>validation_idx := min (validation_idx s) target\<rparr>) u (\<gamma>(t := ?k))"
    using assms(5,6) by (intro ended_busy [OF Inv_ended [OF assms(1)]]) auto
  moreover have "val_ok n (txn_status s) (min (validation_idx s) target) u ((tk_val \<circ> \<gamma>)(t := {}))"
    using assms(1,4) by (intro val_change [where u = u and st = "txn_status s" and vi = "validation_idx s"])
      (use assms(4) in \<open>fastforce simp: Inv_val [OF assms(1)] min_le_iff_disj\<close>)+
  ultimately show ?thesis
    using assms(1,2) by (simp add: inv_simps)
qed

lemma inv_count:
  assumes "Inv n m s u \<gamma>" "t < m" "tk_late (\<gamma> t)" "tk_guard (\<gamma> t)"
  shows "Inv n m (s\<lparr>decrease_cnt := decrease_cnt s + 1\<rparr>) u (\<gamma>(t := \<gamma> t\<lparr>tk_late := False\<rparr>))"
proof -
  have "token_ok (\<gamma> t\<lparr>tk_late := False\<rparr>)" using assms(4) by (simp add: token_ok_def)
  moreover have "ended_ok n (s\<lparr>decrease_cnt := decrease_cnt s + 1\<rparr>) u (\<gamma>(t := \<gamma> t\<lparr>tk_late := False\<rparr>))"
    using assms(3) by (intro ended_busy [OF Inv_ended [OF assms(1)]]) (auto simp: harmless_def)
  ultimately show ?thesis
    using assms(1,2) by (simp add: inv_simps)
qed

end
