(* ===== verification/Scheduler_Actions.thy ===== *)
theory Scheduler_Actions
  imports Scheduler_Inv
begin

text \<open>
  Every atomic action of the scheduler keeps the invariant of the workers: the
  worker that acts starts with a token that entitles it to the action and ends
  with the token that records what it has done.
\<close>

section \<open>Actions on a status\<close>

lemma waits_upd:
  assumes "\<And>t' ph. own t' = Some (i, ph) \<Longrightarrow> t' = t" "\<And>j ph. own t = Some (j, ph) \<Longrightarrow> j = i"
    and "\<And>j ph. ow = Some (j, ph) \<Longrightarrow> j = i"
    and "\<And>inc c. own t = Some (i, PWait inc c) \<Longrightarrow> st ! i \<noteq> Suspended inc c"
    and "\<And>inc c. ow = Some (i, PWait inc c) \<Longrightarrow> st[i := x] ! i \<noteq> Suspended inc c"
  shows "waits (st[i := x]) (own(t := ow)) j \<longleftrightarrow> waits st own j"
proof (cases "j = i")
  case True
  have "\<not> waits st own i" using assms(1,4) unfolding waits_def by blast
  moreover have "\<not> waits (st[i := x]) (own(t := ow)) i"
    using assms(1,3,5) unfolding waits_def by (metis fun_upd_apply)
  ultimately show ?thesis using True by simp
next
  case False
  have "(own(t := ow)) t' = Some (j, ph) \<longleftrightarrow> own t' = Some (j, ph)" for t' ph
    using False assms(2,3) by auto
  then show ?thesis using False unfolding waits_def by simp
qed

text \<open>The owner of \<open>i\<close> changes its status and its own phase; nobody waits before or after.\<close>

lemma own_status:
  assumes "Inv n m s u \<gamma>" "i < n"
    and only: "\<And>t' ph. tk_own (\<gamma> t') = Some (i, ph) \<Longrightarrow> t' = t"
    and mine: "\<And>j ph. tk_own (\<gamma> t) = Some (j, ph) \<Longrightarrow> j = i"
    and new: "\<And>j ph. ow = Some (j, ph) \<Longrightarrow> j = i \<and> phase_ok ((txn_status s)[i := x]) (condvars s) i ph"
    and held: "held x \<Longrightarrow> ow \<noteq> None"
    and fresh: "\<And>j ph c. ow = Some (j, ph) \<Longrightarrow> cvar ph = Some c \<Longrightarrow>
      \<exists>ph'. tk_own (\<gamma> t) = Some (i, ph') \<and> cvar ph' = Some c \<and> (\<forall>inc. ph' \<noteq> PWait inc c)"
    and calm: "\<And>j inc c. ow = Some (j, PWait inc c) \<Longrightarrow> False"
    and was: "\<And>inc c. tk_own (\<gamma> t) \<noteq> Some (i, PWait inc c)"
  shows "owners_ok n ((txn_status s)[i := x]) (condvars s) ((tk_own \<circ> \<gamma>)(t := ow))"
    and "notify_ok ((txn_status s)[i := x]) (condvars s) ((tk_own \<circ> \<gamma>)(t := ow)) (tk_notify \<circ> \<gamma>)"
    and "queues_ok ((txn_status s)[i := x]) ((tk_own \<circ> \<gamma>)(t := ow)) (map mx_data (txn_dependency s)) (tk_deps \<circ> \<gamma>)"
proof -
  note o = Inv_owners [OF assms(1)] and nt = Inv_notify [OF assms(1)]
  show "owners_ok n ((txn_status s)[i := x]) (condvars s) ((tk_own \<circ> \<gamma>)(t := ow))"
  proof (rule owners_change [OF o assms(2)])
    show "length (txn_status s) = n" using Inv_size [OF assms(1)] by simp
    show "cvar ph' \<noteq> Some c" if "ow = Some (j, ph)" "cvar ph = Some c" "t' \<noteq> t" "(tk_own \<circ> \<gamma>) t' = Some (j', ph')"
      for j ph c t' j' ph'
      using fresh [OF that(1,2)] owners_cvar [OF o, of t i _ t' j' ph' c] that(3,4) by auto
  qed (unfold comp_apply, (use only mine new held in blast)+)
  show "notify_ok ((txn_status s)[i := x]) (condvars s) ((tk_own \<circ> \<gamma>)(t := ow)) (tk_notify \<circ> \<gamma>)"
  proof (rule notify_change [OF nt])
    show "(tk_notify \<circ> \<gamma>) t' \<noteq> Some c" if "ow = Some (j, ph)" "cvar ph = Some c" for j ph c t'
    proof
      assume "(tk_notify \<circ> \<gamma>) t' = Some c"
      moreover from fresh [OF that] obtain ph' where
        "tk_own (\<gamma> t) = Some (i, ph')" "cvar ph' = Some c" "\<And>inc. ph' \<noteq> PWait inc c"
        by blast
      ultimately show False using notify_own [OF nt, of t' c t i ph'] by auto
    qed
  qed (unfold comp_apply, (use only new calm in blast)+)
  show "queues_ok ((txn_status s)[i := x]) ((tk_own \<circ> \<gamma>)(t := ow)) (map mx_data (txn_dependency s)) (tk_deps \<circ> \<gamma>)"
    by (rule queues_cong [OF Inv_queues [OF assms(1)]], rule waits_upd)
       (unfold comp_apply, (use only mine new calm was in blast)+)
qed

lemma inv_incarnate_fresh:
  assumes "Inv n m s u \<gamma>" "t < m" "i < n" "txn_status s ! i = ReadyToExecute inc None"
    and "tk_guard (\<gamma> t)" "tk_own (\<gamma> t) = None" "tk_exec (\<gamma> t) = {i}" "tk_grab (\<gamma> t) = Some i"
  shows "Inv n m (s\<lparr>txn_status := (txn_status s)[i := Executing inc]\<rparr>) u
    (\<gamma>(t := \<gamma> t\<lparr>tk_exec := {}, tk_grab := None, tk_own := Some (i, PExec inc)\<rparr>))"
proof -
  let ?k = "\<gamma> t\<lparr>tk_exec := {}, tk_grab := None, tk_own := Some (i, PExec inc)\<rparr>"
  let ?st = "(txn_status s)[i := Executing inc]"
  have sz: "length (txn_status s) = n" using Inv_size [OF assms(1)] by simp
  have "token_ok ?k" using assms(5) by (simp add: token_ok_def)
  moreover have "ended_ok n (s\<lparr>txn_status := ?st\<rparr>) u (\<gamma>(t := ?k))"
    using assms(3,7) by (intro ended_busy [OF Inv_ended [OF assms(1)]]) (auto simp: harmless_def)
  moreover have no: "tk_own (\<gamma> t') \<noteq> Some (i, ph)" for t' ph
    using owners_unheld [OF Inv_owners [OF assms(1)], of i t' ph] assms(4) by simp
  have "owners_ok n ?st (condvars s) ((tk_own \<circ> \<gamma>)(t := Some (i, PExec inc)))"
    "notify_ok ?st (condvars s) ((tk_own \<circ> \<gamma>)(t := Some (i, PExec inc))) (tk_notify \<circ> \<gamma>)"
    "queues_ok ?st ((tk_own \<circ> \<gamma>)(t := Some (i, PExec inc))) (map mx_data (txn_dependency s)) (tk_deps \<circ> \<gamma>)"
    by (rule own_status [OF assms(1,3)]; simp add: no assms(3,6) sz)+
  moreover have "exec_ok n ?st (execution_idx s) ((tk_exec \<circ> \<gamma>)(t := {}))"
    using assms(3,7) sz
    by (intro exec_change [OF Inv_exec [OF assms(1)]]) (auto simp: nth_list_update split: if_splits)
  moreover have "val_ok n ?st (validation_idx s) u (tk_val \<circ> \<gamma>)"
    by (rule val_status [OF Inv_val [OF assms(1)]]) simp
  moreover have "pending_ok ?st (map mx_data (txn_dependency s)) (tk_lock \<circ> \<gamma>) (tk_checked \<circ> \<gamma>) (tk_taking \<circ> \<gamma>)"
    by (rule pending_change [OF Inv_pending [OF assms(1)]]) (simp add: unfinished_status)
  moreover have "low_ok m (execution_idx s) ((tk_own \<circ> \<gamma>)(t := Some (i, PExec inc))) ((tk_grab \<circ> \<gamma>)(t := None))"
    using assms(8) by (intro low_change [OF Inv_low [OF assms(1)] assms(2)]) (auto simp: low_def)
  ultimately show ?thesis
    using assms(1,2) by (simp add: inv_simps)
qed

text \<open>Picking up a resumed transaction: its owner waits for the notification.\<close>

lemma notify_incarnate:
  assumes "notify_ok st cv own nt" "own t' = Some (i, PWait inc c)" "i < length st"
    and only: "\<And>t1 ph. own t1 = Some (i, ph) \<Longrightarrow> t1 = t'"
    and same: "\<And>t1 j ph. own t1 = Some (j, ph) \<Longrightarrow> cvar ph = Some c \<Longrightarrow> t1 = t'"
    and "c < length cv" "nt t = None"
  shows "notify_ok (st[i := Executing inc]) cv own (nt(t := Some c))"
  unfolding notify_ok_def
proof (intro conjI allI impI)
  show "c1 < length cv" if "(nt(t := Some c)) t1 = Some c1" for t1 c1
    using that assms(6) notify_len [OF assms(1), of t1 c1] by (auto split: if_splits)
next
  fix t1 t2 c1 j ph
  assume a: "(nt(t := Some c)) t1 = Some c1" "own t2 = Some (j, ph)" "cvar ph = Some c1"
  show "\<exists>inc'. ph = PWait inc' c1 \<and> st[i := Executing inc] ! j = Executing inc'"
  proof (cases "j = i")
    case True
    with only [of t2 ph] a(2) assms(2) have "ph = PWait inc c" by auto
    with a(3) True assms(3) show ?thesis by auto
  next
    case False
    have "t2 \<noteq> t'" using False a(2) assms(2) by auto
    with same a(2,3) have "c1 \<noteq> c" by blast
    with a(1) have "nt t1 = Some c1" by (auto split: if_splits)
    with notify_own [OF assms(1) this a(2,3)] False show ?thesis by auto
  qed
next
  fix t1 j inc1 c1
  assume a: "own t1 = Some (j, PWait inc1 c1)" "st[i := Executing inc] ! j = Executing inc1"
  show "cv ! c1 \<or> (\<exists>t2. (nt(t := Some c)) t2 = Some c1)"
  proof (cases "j = i")
    case True
    with only a(1) assms(2) have "c1 = c" by (metis option.inject prod.inject phase.inject(4))
    then show ?thesis by (auto intro: exI [of _ t])
  next
    case False
    with a(2) notify_wakes [OF assms(1) a(1)] have "cv ! c1 \<or> (\<exists>t2. nt t2 = Some c1)" by auto
    then show ?thesis using assms(7) by (metis fun_upd_apply option.distinct(1))
  qed
qed

lemma inv_incarnate_waiting:
  assumes "Inv n m s u \<gamma>" "t < m" "i < n" "txn_status s ! i = ReadyToExecute inc (Some c)"
    and "tk_guard (\<gamma> t)" "tk_own (\<gamma> t) = None" "tk_exec (\<gamma> t) = {i}" "tk_notify (\<gamma> t) = None"
  shows "Inv n m (s\<lparr>txn_status := (txn_status s)[i := Executing inc]\<rparr>) u
    (\<gamma>(t := \<gamma> t\<lparr>tk_exec := {}, tk_grab := None, tk_notify := Some c\<rparr>))"
proof -
  let ?k = "\<gamma> t\<lparr>tk_exec := {}, tk_grab := None, tk_notify := Some c\<rparr>"
  let ?st = "(txn_status s)[i := Executing inc]"
  have sz: "length (txn_status s) = n" using Inv_size [OF assms(1)] by simp
  note o = Inv_owners [OF assms(1)]
  obtain t' ph where t': "tk_own (\<gamma> t') = Some (i, ph)"
    using owners_held [OF o assms(3)] assms(4) by auto
  with owners_phase [OF o, of t' i ph] assms(4) have ph: "ph = PWait inc c" "c < length (condvars s)"
    by (cases ph; simp)+
  have only: "t1 = t'" if "tk_own (\<gamma> t1) = Some (i, ph1)" for t1 ph1
    using owners_unique [OF o, of t' i ph t1 ph1] t' that by simp
  have "token_ok ?k" using assms(5) by (simp add: token_ok_def)
  moreover have "ended_ok n (s\<lparr>txn_status := ?st\<rparr>) u (\<gamma>(t := ?k))"
    using assms(3,7) by (intro ended_busy [OF Inv_ended [OF assms(1)]]) (auto simp: harmless_def)
  moreover have "owners_ok n ?st (condvars s) (tk_own \<circ> \<gamma>)"
  proof (rule owners_status [OF o sz])
    show "phase_ok ?st (condvars s) i ph1" if "(tk_own \<circ> \<gamma>) t1 = Some (i, ph1)" for t1 ph1
      using that only [of t1 ph1] t' ph assms(3) sz by auto
  qed (use assms(4) in simp)
  moreover have "notify_ok ?st (condvars s) (tk_own \<circ> \<gamma>) ((tk_notify \<circ> \<gamma>)(t := Some c))"
  proof (rule notify_incarnate [OF Inv_notify [OF assms(1)], of t'])
    show "t1 = t'" if "(tk_own \<circ> \<gamma>) t1 = Some (j, ph1)" "cvar ph1 = Some c" for t1 j ph1
      using owners_cvar [OF o that(1), of t' i ph c] that(2) t' ph(1) by simp
    show "t1 = t'" if "(tk_own \<circ> \<gamma>) t1 = Some (i, ph1)" for t1 ph1
      using only that by simp
  qed (use t' ph assms(3,8) sz in simp_all)
  moreover have "queues_ok ?st (tk_own \<circ> \<gamma>) (map mx_data (txn_dependency s)) (tk_deps \<circ> \<gamma>)"
  proof (rule queues_cong [OF Inv_queues [OF assms(1)]])
    show "waits ?st (tk_own \<circ> \<gamma>) j \<longleftrightarrow> waits (txn_status s) (tk_own \<circ> \<gamma>) j" for j
      using assms(3,4) sz by (cases "j = i") (auto simp: waits_def)
  qed
  moreover have "exec_ok n ?st (execution_idx s) ((tk_exec \<circ> \<gamma>)(t := {}))"
    using assms(3,7) sz
    by (intro exec_change [OF Inv_exec [OF assms(1)]]) (auto simp: nth_list_update split: if_splits)
  moreover have "val_ok n ?st (validation_idx s) u (tk_val \<circ> \<gamma>)"
    by (rule val_status [OF Inv_val [OF assms(1)]]) simp
  moreover have "pending_ok ?st (map mx_data (txn_dependency s)) (tk_lock \<circ> \<gamma>) (tk_checked \<circ> \<gamma>) (tk_taking \<circ> \<gamma>)"
    by (rule pending_change [OF Inv_pending [OF assms(1)]]) (simp add: unfinished_status)
  moreover have "low_ok m (execution_idx s) ((tk_own \<circ> \<gamma>)(t := tk_own (\<gamma> t))) ((tk_grab \<circ> \<gamma>)(t := None))"
    by (intro low_change [OF Inv_low [OF assms(1)] assms(2)]) (auto simp: low_def)
  ultimately show ?thesis
    using assms(1,2) by (simp add: inv_simps)
qed

lemma own_only:
  assumes "Inv n m s u \<gamma>" "tk_own (\<gamma> t) = Some (i, ph)"
  shows "tk_own (\<gamma> t') = Some (i, ph') \<Longrightarrow> t' = t" "i < n" "phase_ok (txn_status s) (condvars s) i ph"
  using owners_unique [OF Inv_owners [OF assms(1)], of t i ph t' ph']
    owners_phase [OF Inv_owners [OF assms(1)], of t i ph] assms(2) by simp_all

lemma unfinished_taking:
  assumes "unfinished st tg j" "tg t = None"
  shows "unfinished (st[i := x]) (tg(t := Some i)) j"
proof (cases "j = i")
  case True
  then show ?thesis unfolding unfinished_def by (metis fun_upd_same)
next
  case False
  from assms(1) consider "\<forall>inc. st ! j \<noteq> Executed inc" | t' where "tg t' = Some j"
    unfolding unfinished_def by blast
  then show ?thesis
  proof cases
    case 2
    with assms(2) have "(tg(t := Some i)) t' = Some j" by auto
    then show ?thesis unfolding unfinished_def by blast
  qed (use False in \<open>simp add: unfinished_def\<close>)
qed

lemma inv_set_executed:
  assumes "Inv n m s u \<gamma>" "t < m" "tk_guard (\<gamma> t)" "tk_own (\<gamma> t) = Some (i, PExec inc)"
    and "(i, inc) \<in> tk_val (\<gamma> t)" "tk_taking (\<gamma> t) = None"
  shows "Inv n m (s\<lparr>txn_status := (txn_status s)[i := Executed inc]\<rparr>) u
    (\<gamma>(t := \<gamma> t\<lparr>tk_own := None, tk_taking := Some i\<rparr>))"
proof -
  let ?k = "\<gamma> t\<lparr>tk_own := None, tk_taking := Some i\<rparr>"
  let ?st = "(txn_status s)[i := Executed inc]"
  have sz: "length (txn_status s) = n" using Inv_size [OF assms(1)] by simp
  note own = own_only [OF assms(1,4)]
  have "token_ok ?k" using assms(3) by (simp add: token_ok_def)
  moreover have "ended_ok n (s\<lparr>txn_status := ?st\<rparr>) u (\<gamma>(t := ?k))"
    using assms(4) by (intro ended_busy [OF Inv_ended [OF assms(1)]]) (auto simp: harmless_def)
  moreover have "owners_ok n ?st (condvars s) ((tk_own \<circ> \<gamma>)(t := None))"
    "notify_ok ?st (condvars s) ((tk_own \<circ> \<gamma>)(t := None)) (tk_notify \<circ> \<gamma>)"
    "queues_ok ?st ((tk_own \<circ> \<gamma>)(t := None)) (map mx_data (txn_dependency s)) (tk_deps \<circ> \<gamma>)"
    by (rule own_status [OF assms(1) own(2,1)]; simp add: assms(4))+
  moreover have "exec_ok n ?st (execution_idx s) (tk_exec \<circ> \<gamma>)"
    by (rule exec_status [OF Inv_exec [OF assms(1)]]) simp
  moreover have "val_ok n ?st (validation_idx s) u ((tk_val \<circ> \<gamma>)(t := tk_val (\<gamma> t)))"
    using assms(5) sz own(2)
    by (intro val_change [OF Inv_val [OF assms(1)]]) (auto simp: nth_list_update split: if_splits)
  moreover have "pending_ok ?st (map mx_data (txn_dependency s)) (tk_lock \<circ> \<gamma>) (tk_checked \<circ> \<gamma>) ((tk_taking \<circ> \<gamma>)(t := Some i))"
    by (rule pending_change [OF Inv_pending [OF assms(1)]], rule unfinished_taking) (use assms(6) in simp_all)
  moreover have "low_ok m (execution_idx s) ((tk_own \<circ> \<gamma>)(t := None)) ((tk_grab \<circ> \<gamma>)(t := tk_grab (\<gamma> t)))"
    by (intro low_change [OF Inv_low [OF assms(1)] assms(2)]) (auto simp: low_def)
  ultimately show ?thesis
    using assms(1,2) by (simp add: inv_simps)
qed

lemma inv_set_aborted:
  assumes "Inv n m s u \<gamma>" "t < m" "tk_guard (\<gamma> t)" "tk_own (\<gamma> t) = Some (i, PAbort inc)" "tk_exec (\<gamma> t) = {}"
  shows "Inv n m (s\<lparr>txn_status := (txn_status s)[i := ReadyToExecute (inc + 1) None]\<rparr>) u
    (\<gamma>(t := \<gamma> t\<lparr>tk_own := None, tk_exec := {i}\<rparr>))"
proof -
  let ?k = "\<gamma> t\<lparr>tk_own := None, tk_exec := {i}\<rparr>"
  let ?st = "(txn_status s)[i := ReadyToExecute (inc + 1) None]"
  have sz: "length (txn_status s) = n" using Inv_size [OF assms(1)] by simp
  note own = own_only [OF assms(1,4)]
  have "token_ok ?k" using assms(3) by (simp add: token_ok_def)
  moreover have "ended_ok n (s\<lparr>txn_status := ?st\<rparr>) u (\<gamma>(t := ?k))"
    using assms(4) by (intro ended_busy [OF Inv_ended [OF assms(1)]]) (auto simp: harmless_def)
  moreover have "owners_ok n ?st (condvars s) ((tk_own \<circ> \<gamma>)(t := None))"
    "notify_ok ?st (condvars s) ((tk_own \<circ> \<gamma>)(t := None)) (tk_notify \<circ> \<gamma>)"
    "queues_ok ?st ((tk_own \<circ> \<gamma>)(t := None)) (map mx_data (txn_dependency s)) (tk_deps \<circ> \<gamma>)"
    by (rule own_status [OF assms(1) own(2,1)]; simp add: assms(4))+
  moreover have "exec_ok n ?st (execution_idx s) ((tk_exec \<circ> \<gamma>)(t := {i}))"
    using assms(5) sz own(2)
    by (intro exec_change [OF Inv_exec [OF assms(1)]]) (auto simp: nth_list_update split: if_splits)
  moreover have "val_ok n ?st (validation_idx s) u (tk_val \<circ> \<gamma>)"
    by (rule val_status [OF Inv_val [OF assms(1)]]) simp
  moreover have "pending_ok ?st (map mx_data (txn_dependency s)) (tk_lock \<circ> \<gamma>) (tk_checked \<circ> \<gamma>) (tk_taking \<circ> \<gamma>)"
    by (rule pending_change [OF Inv_pending [OF assms(1)]]) (simp add: unfinished_status)
  moreover have "low_ok m (execution_idx s) ((tk_own \<circ> \<gamma>)(t := None)) ((tk_grab \<circ> \<gamma>)(t := tk_grab (\<gamma> t)))"
    by (intro low_change [OF Inv_low [OF assms(1)] assms(2)]) (auto simp: low_def)
  ultimately show ?thesis
    using assms(1,2) by (simp add: inv_simps)
qed

lemma inv_try_abort:
  assumes "Inv n m s u \<gamma>" "t < m" "i < n" "tk_guard (\<gamma> t)" "tk_own (\<gamma> t) = None" "tk_task (\<gamma> t)"
    and "txn_status s ! i = Executed inc"
  shows "Inv n m (s\<lparr>txn_status := (txn_status s)[i := Aborting inc]\<rparr>) u
    (\<gamma>(t := \<gamma> t\<lparr>tk_own := Some (i, PAbort inc), tk_task := False\<rparr>))"
proof -
  let ?k = "\<gamma> t\<lparr>tk_own := Some (i, PAbort inc), tk_task := False\<rparr>"
  let ?st = "(txn_status s)[i := Aborting inc]"
  have sz: "length (txn_status s) = n" using Inv_size [OF assms(1)] by simp
  have no: "tk_own (\<gamma> t') \<noteq> Some (i, ph)" for t' ph
    using owners_unheld [OF Inv_owners [OF assms(1)], of i t' ph] assms(7) by simp
  have "token_ok ?k" using assms(4) by (simp add: token_ok_def)
  moreover have "ended_ok n (s\<lparr>txn_status := ?st\<rparr>) u (\<gamma>(t := ?k))"
    using assms(6) by (intro ended_busy [OF Inv_ended [OF assms(1)]]) (auto simp: harmless_def)
  moreover have "owners_ok n ?st (condvars s) ((tk_own \<circ> \<gamma>)(t := Some (i, PAbort inc)))"
    "notify_ok ?st (condvars s) ((tk_own \<circ> \<gamma>)(t := Some (i, PAbort inc))) (tk_notify \<circ> \<gamma>)"
    "queues_ok ?st ((tk_own \<circ> \<gamma>)(t := Some (i, PAbort inc))) (map mx_data (txn_dependency s)) (tk_deps \<circ> \<gamma>)"
    by (rule own_status [OF assms(1,3)]; simp add: no assms(3,5) sz)+
  moreover have "exec_ok n ?st (execution_idx s) (tk_exec \<circ> \<gamma>)"
    by (rule exec_status [OF Inv_exec [OF assms(1)]]) simp
  moreover have "val_ok n ?st (validation_idx s) u (tk_val \<circ> \<gamma>)"
    by (rule val_status [OF Inv_val [OF assms(1)]]) simp
  moreover have "pending_ok ?st (map mx_data (txn_dependency s)) (tk_lock \<circ> \<gamma>) (tk_checked \<circ> \<gamma>) (tk_taking \<circ> \<gamma>)"
    by (rule pending_change [OF Inv_pending [OF assms(1)]]) (simp add: unfinished_status)
  moreover have "low_ok m (execution_idx s) ((tk_own \<circ> \<gamma>)(t := Some (i, PAbort inc))) ((tk_grab \<circ> \<gamma>)(t := tk_grab (\<gamma> t)))"
    by (intro low_change [OF Inv_low [OF assms(1)] assms(2)]) (auto simp: low_def)
  ultimately show ?thesis
    using assms(1,2) by (simp add: inv_simps)
qed

lemma inv_suspend:
  assumes "Inv n m s u \<gamma>" "t < m" "tk_guard (\<gamma> t)" "tk_own (\<gamma> t) = Some (i, PPre inc c)"
  shows "Inv n m (s\<lparr>txn_status := (txn_status s)[i := Suspended inc c]\<rparr>) u
    (\<gamma>(t := \<gamma> t\<lparr>tk_own := Some (i, PSus inc c)\<rparr>))"
proof -
  let ?k = "\<gamma> t\<lparr>tk_own := Some (i, PSus inc c)\<rparr>"
  let ?st = "(txn_status s)[i := Suspended inc c]"
  have sz: "length (txn_status s) = n" using Inv_size [OF assms(1)] by simp
  note own = own_only [OF assms(1,4)]
  have "token_ok ?k" using assms(3) by (simp add: token_ok_def)
  moreover have "ended_ok n (s\<lparr>txn_status := ?st\<rparr>) u (\<gamma>(t := ?k))"
    using assms(4) by (intro ended_busy [OF Inv_ended [OF assms(1)]]) (auto simp: harmless_def)
  moreover have "owners_ok n ?st (condvars s) ((tk_own \<circ> \<gamma>)(t := Some (i, PSus inc c)))"
    "notify_ok ?st (condvars s) ((tk_own \<circ> \<gamma>)(t := Some (i, PSus inc c))) (tk_notify \<circ> \<gamma>)"
    "queues_ok ?st ((tk_own \<circ> \<gamma>)(t := Some (i, PSus inc c))) (map mx_data (txn_dependency s)) (tk_deps \<circ> \<gamma>)"
    by (rule own_status [OF assms(1) own(2,1)]; use own(2,3) sz assms(4) in simp)+
  moreover have "exec_ok n ?st (execution_idx s) (tk_exec \<circ> \<gamma>)"
    by (rule exec_status [OF Inv_exec [OF assms(1)]]) simp
  moreover have "val_ok n ?st (validation_idx s) u (tk_val \<circ> \<gamma>)"
    by (rule val_status [OF Inv_val [OF assms(1)]]) simp
  moreover have "pending_ok ?st (map mx_data (txn_dependency s)) (tk_lock \<circ> \<gamma>) (tk_checked \<circ> \<gamma>) (tk_taking \<circ> \<gamma>)"
    by (rule pending_change [OF Inv_pending [OF assms(1)]]) (simp add: unfinished_status)
  moreover have "low_ok m (execution_idx s) ((tk_own \<circ> \<gamma>)(t := Some (i, PSus inc c))) ((tk_grab \<circ> \<gamma>)(t := tk_grab (\<gamma> t)))"
    using assms(4) by (intro low_change [OF Inv_low [OF assms(1)] assms(2)]) (auto simp: low_def)
  ultimately show ?thesis
    using assms(1,2) by (simp add: inv_simps)
qed

section \<open>Dependencies\<close>

text \<open>A change of phase alone.\<close>

lemma own_phase:
  assumes "Inv n m s u \<gamma>" "tk_own (\<gamma> t) = Some (i, ph)" "phase_ok (txn_status s) (condvars s) i ph'"
    and "cvar ph' = None" "\<And>inc c. ph = PWait inc c \<Longrightarrow> txn_status s ! i \<noteq> Suspended inc c"
  shows "owners_ok n (txn_status s) (condvars s) ((tk_own \<circ> \<gamma>)(t := Some (i, ph')))"
    and "notify_ok (txn_status s) (condvars s) ((tk_own \<circ> \<gamma>)(t := Some (i, ph'))) (tk_notify \<circ> \<gamma>)"
    and "queues_ok (txn_status s) ((tk_own \<circ> \<gamma>)(t := Some (i, ph'))) (map mx_data (txn_dependency s)) (tk_deps \<circ> \<gamma>)"
proof -
  note own = own_only [OF assms(1,2)]
  have sz: "length (txn_status s) = n" using Inv_size [OF assms(1)] by simp
  have st: "(txn_status s)[i := txn_status s ! i] = txn_status s" by simp
  have pw: "ph' \<noteq> PWait inc c" for inc c using assms(4) by auto
  have "owners_ok n ((txn_status s)[i := txn_status s ! i]) (condvars s) ((tk_own \<circ> \<gamma>)(t := Some (i, ph')))"
    by (rule owners_change [OF Inv_owners [OF assms(1)] own(2) sz])
       (unfold comp_apply st, (erule own(1) | (use assms(2,3,4) in auto) [1])+)
  then show "owners_ok n (txn_status s) (condvars s) ((tk_own \<circ> \<gamma>)(t := Some (i, ph')))" by simp
  have "notify_ok ((txn_status s)[i := txn_status s ! i]) (condvars s) ((tk_own \<circ> \<gamma>)(t := Some (i, ph'))) (tk_notify \<circ> \<gamma>)"
    by (rule notify_change [OF Inv_notify [OF assms(1)]])
       (unfold comp_apply st, (erule own(1) | (use assms(2,4) pw in auto) [1])+)
  then show "notify_ok (txn_status s) (condvars s) ((tk_own \<circ> \<gamma>)(t := Some (i, ph'))) (tk_notify \<circ> \<gamma>)" by simp
  have "waits ((txn_status s)[i := txn_status s ! i]) ((tk_own \<circ> \<gamma>)(t := Some (i, ph'))) j \<longleftrightarrow> waits (txn_status s) (tk_own \<circ> \<gamma>) j" for j
    by (rule waits_upd) (unfold comp_apply st, (erule own(1) | (use assms(2,5) pw in auto) [1])+)
  then show "queues_ok (txn_status s) ((tk_own \<circ> \<gamma>)(t := Some (i, ph'))) (map mx_data (txn_dependency s)) (tk_deps \<circ> \<gamma>)"
    using queues_cong [OF Inv_queues [OF assms(1)]] by simp
qed

lemma inv_wake:
  assumes "Inv n m s u \<gamma>" "t < m" "tk_guard (\<gamma> t)" "tk_own (\<gamma> t) = Some (i, PWait inc c)" "condvars s ! c"
  shows "Inv n m s u (\<gamma>(t := \<gamma> t\<lparr>tk_own := Some (i, PExec inc)\<rparr>))"
proof -
  let ?k = "\<gamma> t\<lparr>tk_own := Some (i, PExec inc)\<rparr>"
  have "txn_status s ! i = Executing inc"
    using own_only(3) [OF assms(1,4)] assms(5) by auto
  note ph = own_phase [OF assms(1,4), of "PExec inc", unfolded phase_ok.simps, OF this]
  have "token_ok ?k" using assms(3) by (simp add: token_ok_def)
  moreover have "ended_ok n s u (\<gamma>(t := ?k))"
    using assms(4) by (intro ended_quiet [OF Inv_ended [OF assms(1)]]) (auto simp: harmless_def)
  moreover have "low_ok m (execution_idx s) ((tk_own \<circ> \<gamma>)(t := Some (i, PExec inc))) ((tk_grab \<circ> \<gamma>)(t := tk_grab (\<gamma> t)))"
    using assms(4) by (intro low_change [OF Inv_low [OF assms(1)] assms(2)]) (auto simp: low_def)
  ultimately show ?thesis
    using assms(1,2) ph \<open>txn_status s ! i = Executing inc\<close> by (simp add: inv_simps)
qed

lemma notify_append:
  assumes "notify_ok st cv own nt" "\<And>t i inc c. own t = Some (i, PWait inc c) \<Longrightarrow> c < length cv"
  shows "notify_ok st (cv @ [b]) own nt"
  unfolding notify_ok_def
proof (intro conjI allI impI)
  show "c < length (cv @ [b])" if "nt t = Some c" for t c
    using notify_len [OF assms(1) that] by simp
  show "\<exists>inc. ph = PWait inc c \<and> st ! i = Executing inc"
    if "nt t = Some c" "own t' = Some (i, ph)" "cvar ph = Some c" for t t' c i ph
    by (rule notify_own [OF assms(1) that])
  show "(cv @ [b]) ! c \<or> (\<exists>t'. nt t' = Some c)" if "own t = Some (i, PWait inc c)" "st ! i = Executing inc" for t i inc c
    using notify_wakes [OF assms(1) that] assms(2) [OF that(1)] by (simp add: nth_append)
qed

lemma inv_new_condvar:
  assumes "Inv n m s u \<gamma>" "t < m" "tk_guard (\<gamma> t)" "tk_own (\<gamma> t) = Some (i, PExec inc)"
  shows "Inv n m (s\<lparr>condvars := condvars s @ [False]\<rparr>) u (\<gamma>(t := \<gamma> t\<lparr>tk_own := Some (i, PPre inc (length (condvars s)))\<rparr>))"
proof -
  let ?c = "length (condvars s)" and ?cv = "condvars s @ [False]"
  let ?k = "\<gamma> t\<lparr>tk_own := Some (i, PPre inc ?c)\<rparr>"
  note own = own_only [OF assms(1,4)]
  note o = Inv_owners [OF assms(1)]
  have sz: "length (txn_status s) = n" using Inv_size [OF assms(1)] by simp
  have st: "(txn_status s)[i := txn_status s ! i] = txn_status s" by simp
  have b: "c < ?c" if "tk_own (\<gamma> t') = Some (j, ph)" "cvar ph = Some c" for t' j ph c
    using owners_phase [OF o, of t' j ph] that cvar_bound by fastforce
  have o': "owners_ok n (txn_status s) ?cv (tk_own \<circ> \<gamma>)"
    by (rule owners_condvars [OF o]) (rule phase_ok_append)
  have "owners_ok n ((txn_status s)[i := txn_status s ! i]) ?cv ((tk_own \<circ> \<gamma>)(t := Some (i, PPre inc ?c)))"
    by (rule owners_change [OF o' own(2) sz])
       (unfold comp_apply st, (erule own(1) | (use own(3) assms(4) b in auto) [1])+)
  moreover have "notify_ok (txn_status s) ?cv (tk_own \<circ> \<gamma>) (tk_notify \<circ> \<gamma>)"
    by (rule notify_append [OF Inv_notify [OF assms(1)]]) (use b in fastforce)
  then have "notify_ok ((txn_status s)[i := txn_status s ! i]) ?cv ((tk_own \<circ> \<gamma>)(t := Some (i, PPre inc ?c))) (tk_notify \<circ> \<gamma>)"
    by (rule notify_change)
       (unfold comp_apply st, (erule own(1) | (use notify_len [OF Inv_notify [OF assms(1)]] in auto) [1])+)
  moreover have "waits ((txn_status s)[i := txn_status s ! i]) ((tk_own \<circ> \<gamma>)(t := Some (i, PPre inc ?c))) j \<longleftrightarrow> waits (txn_status s) (tk_own \<circ> \<gamma>) j" for j
    by (rule waits_upd) (unfold comp_apply st, (erule own(1) | (use assms(4) in auto) [1])+)
  then have "queues_ok (txn_status s) ((tk_own \<circ> \<gamma>)(t := Some (i, PPre inc ?c))) (map mx_data (txn_dependency s)) (tk_deps \<circ> \<gamma>)"
    using queues_cong [OF Inv_queues [OF assms(1)]] by simp
  moreover have "token_ok ?k" using assms(3) by (simp add: token_ok_def)
  moreover have "ended_ok n (s\<lparr>condvars := ?cv\<rparr>) u (\<gamma>(t := ?k))"
    using assms(4) by (intro ended_quiet [OF Inv_ended [OF assms(1)]]) (auto simp: harmless_def)
  moreover have "low_ok m (execution_idx s) ((tk_own \<circ> \<gamma>)(t := Some (i, PPre inc ?c))) ((tk_grab \<circ> \<gamma>)(t := tk_grab (\<gamma> t)))"
    using assms(4) by (intro low_change [OF Inv_low [OF assms(1)] assms(2)]) (auto simp: low_def)
  ultimately show ?thesis
    using assms(1,2) by (simp add: inv_simps)
qed

lemma phase_ok_condvar: "cvar ph \<noteq> Some c \<Longrightarrow> phase_ok st (cv[c := b]) i ph = phase_ok st cv i ph"
  by (cases ph) auto

lemma inv_notify:
  assumes "Inv n m s u \<gamma>" "t < m" "tk_guard (\<gamma> t)" "tk_notify (\<gamma> t) = Some c"
  shows "Inv n m (s\<lparr>condvars := (condvars s)[c := True]\<rparr>) u (\<gamma>(t := \<gamma> t\<lparr>tk_notify := None\<rparr>))"
proof -
  let ?cv = "(condvars s)[c := True]" and ?k = "\<gamma> t\<lparr>tk_notify := None\<rparr>"
  note nt = Inv_notify [OF assms(1)]
  have c: "c < length (condvars s)" using notify_len [OF nt, of t c] assms(4) by simp
  have own: "\<exists>inc. ph = PWait inc c \<and> txn_status s ! i = Executing inc"
    if "tk_own (\<gamma> t') = Some (i, ph)" "cvar ph = Some c" for t' i ph
    using notify_own [OF nt, of t c t' i ph] that assms(4) by simp
  have "owners_ok n (txn_status s) ?cv (tk_own \<circ> \<gamma>)"
  proof (rule owners_condvars [OF Inv_owners [OF assms(1)]])
    show "phase_ok (txn_status s) ?cv i ph"
      if "(tk_own \<circ> \<gamma>) t' = Some (i, ph)" "phase_ok (txn_status s) (condvars s) i ph" for t' i ph
      using own [of t' i ph] that c by (cases "cvar ph = Some c") (auto simp: phase_ok_condvar)
  qed
  moreover have "notify_ok (txn_status s) ?cv (tk_own \<circ> \<gamma>) ((tk_notify \<circ> \<gamma>)(t := None))"
    unfolding notify_ok_def
  proof (intro conjI allI impI)
    show "c1 < length ?cv" if "((tk_notify \<circ> \<gamma>)(t := None)) t1 = Some c1" for t1 c1
      using notify_len [OF nt, of t1 c1] that by (auto split: if_splits)
    show "\<exists>inc. ph = PWait inc c1 \<and> txn_status s ! i = Executing inc"
      if "((tk_notify \<circ> \<gamma>)(t := None)) t1 = Some c1" "(tk_own \<circ> \<gamma>) t2 = Some (i, ph)" "cvar ph = Some c1" for t1 t2 c1 i ph
      using notify_own [OF nt, of t1 c1 t2 i ph] that by (auto split: if_splits)
    show "?cv ! c1 \<or> (\<exists>t2. ((tk_notify \<circ> \<gamma>)(t := None)) t2 = Some c1)"
      if "(tk_own \<circ> \<gamma>) t1 = Some (i, PWait inc c1)" "txn_status s ! i = Executing inc" for t1 i inc c1
    proof (cases "c1 = c")
      case False
      with notify_wakes [OF nt that] assms(4) show ?thesis
        by (auto, metis option.inject)
    qed (simp add: c)
  qed
  moreover have "token_ok ?k" using assms(3) by (simp add: token_ok_def)
  moreover have "ended_ok n (s\<lparr>condvars := ?cv\<rparr>) u (\<gamma>(t := ?k))"
    by (intro ended_quiet [OF Inv_ended [OF assms(1)]]) (auto simp: harmless_def)
  ultimately show ?thesis
    using assms(1,2) by (simp add: inv_simps)
qed

text \<open>The mutex of a dependency list.\<close>

lemma map_set_dependency:
  "txn_dependency (set_dependency j d s) = (txn_dependency s)[j := d]"
  "map mx_data ((txn_dependency s)[j := d]) = (map mx_data (txn_dependency s))[j := mx_data d]"
  "map mx_locked ((txn_dependency s)[j := d]) = (map mx_locked (txn_dependency s))[j := mx_locked d]"
  by (simp_all add: set_dependency_def map_update)

lemma set_dependency_sel [simp]:
  "num_txns (set_dependency j d s) = num_txns s" "execution_idx (set_dependency j d s) = execution_idx s"
  "validation_idx (set_dependency j d s) = validation_idx s" "decrease_cnt (set_dependency j d s) = decrease_cnt s"
  "num_active_tasks (set_dependency j d s) = num_active_tasks s" "done_marker (set_dependency j d s) = done_marker s"
  "txn_status (set_dependency j d s) = txn_status s" "condvars (set_dependency j d s) = condvars s"
  by (simp_all add: set_dependency_def)

lemma list_update_same: "i < length xs \<Longrightarrow> xs ! i = y \<Longrightarrow> xs[i := y] = xs"
  by auto

lemma pending_lock:
  assumes "pending_ok st dl lk ck tg" "b \<Longrightarrow> \<forall>j. ow = Some j \<longrightarrow> unfinished st tg j"
  shows "pending_ok st dl (lk(t := ow)) (ck(t := b)) tg"
  using assms unfolding pending_ok_def by auto

lemma inv_lock:
  assumes "Inv n m s u \<gamma>" "t < m" "tk_guard (\<gamma> t)" "j < n" "\<not> mx_locked (txn_dependency s ! j)" "tk_lock (\<gamma> t) = None"
  shows "Inv n m (set_dependency j ((txn_dependency s ! j)\<lparr>mx_locked := True\<rparr>) s) u
    (\<gamma>(t := \<gamma> t\<lparr>tk_lock := Some j, tk_checked := False\<rparr>))"
proof -
  let ?k = "\<gamma> t\<lparr>tk_lock := Some j, tk_checked := False\<rparr>"
  have sz: "length (txn_dependency s) = n" using Inv_size [OF assms(1)] by simp
  have "token_ok ?k" using assms(3) by (simp add: token_ok_def)
  moreover have "ended_ok n (set_dependency j ((txn_dependency s ! j)\<lparr>mx_locked := True\<rparr>) s) u (\<gamma>(t := ?k))"
    by (intro ended_quiet [OF Inv_ended [OF assms(1)]]) (auto simp: harmless_def)
  moreover have "locks_ok ((map mx_locked (txn_dependency s))[j := True]) ((tk_lock \<circ> \<gamma>)(t := Some j))"
    using assms(4,5,6) sz by (intro locks_take [OF Inv_locks [OF assms(1)]]) simp_all
  moreover have "pending_ok (txn_status s) (map mx_data (txn_dependency s))
      ((tk_lock \<circ> \<gamma>)(t := Some j)) ((tk_checked \<circ> \<gamma>)(t := False)) (tk_taking \<circ> \<gamma>)"
    by (rule pending_lock [OF Inv_pending [OF assms(1)]]) simp
  ultimately show ?thesis
    using assms(1,2,4) sz by (simp add: inv_simps map_set_dependency list_update_same)
qed

lemma inv_check_dependency:
  assumes "Inv n m s u \<gamma>" "t < m" "tk_guard (\<gamma> t)" "tk_lock (\<gamma> t) = Some j" "\<And>inc. txn_status s ! j \<noteq> Executed inc"
  shows "Inv n m s u (\<gamma>(t := \<gamma> t\<lparr>tk_checked := True\<rparr>))"
proof -
  let ?k = "\<gamma> t\<lparr>tk_checked := True\<rparr>"
  have "token_ok ?k" using assms(3) by (simp add: token_ok_def)
  moreover have "ended_ok n s u (\<gamma>(t := ?k))"
    by (intro ended_quiet [OF Inv_ended [OF assms(1)]]) (auto simp: harmless_def)
  moreover have "pending_ok (txn_status s) (map mx_data (txn_dependency s))
      ((tk_lock \<circ> \<gamma>)(t := tk_lock (\<gamma> t))) ((tk_checked \<circ> \<gamma>)(t := True)) (tk_taking \<circ> \<gamma>)"
    by (rule pending_lock [OF Inv_pending [OF assms(1)]]) (use assms(4,5) in \<open>simp add: unfinished_def\<close>)
  ultimately show ?thesis
    using assms(1,2) by (simp add: inv_simps)
qed

lemma inv_unlock:
  assumes "Inv n m s u \<gamma>" "t < m" "tk_guard (\<gamma> t)" "tk_lock (\<gamma> t) = Some j"
  shows "Inv n m (set_dependency j ((txn_dependency s ! j)\<lparr>mx_locked := False\<rparr>) s) u
    (\<gamma>(t := \<gamma> t\<lparr>tk_lock := None, tk_checked := False\<rparr>))"
proof -
  let ?k = "\<gamma> t\<lparr>tk_lock := None, tk_checked := False\<rparr>"
  have sz: "length (txn_dependency s) = n" using Inv_size [OF assms(1)] by simp
  have j: "j < n"
    using Inv_locks [OF assms(1)] assms(4) sz unfolding locks_ok_def by auto
  have "token_ok ?k" using assms(3) by (simp add: token_ok_def)
  moreover have "ended_ok n (set_dependency j ((txn_dependency s ! j)\<lparr>mx_locked := False\<rparr>) s) u (\<gamma>(t := ?k))"
    by (intro ended_quiet [OF Inv_ended [OF assms(1)]]) (auto simp: harmless_def)
  moreover have "locks_ok ((map mx_locked (txn_dependency s))[j := False]) ((tk_lock \<circ> \<gamma>)(t := None))"
    using assms(4) by (intro locks_drop [OF Inv_locks [OF assms(1)]]) simp_all
  moreover have "pending_ok (txn_status s) (map mx_data (txn_dependency s))
      ((tk_lock \<circ> \<gamma>)(t := None)) ((tk_checked \<circ> \<gamma>)(t := False)) (tk_taking \<circ> \<gamma>)"
    by (rule pending_lock [OF Inv_pending [OF assms(1)]]) simp
  ultimately show ?thesis
    using assms(1,2) j sz by (simp add: inv_simps map_set_dependency list_update_same)
qed

lemma inv_unprepare:
  assumes "Inv n m s u \<gamma>" "t < m" "tk_guard (\<gamma> t)" "tk_own (\<gamma> t) = Some (i, PPre inc c)"
  shows "Inv n m s u (\<gamma>(t := \<gamma> t\<lparr>tk_own := Some (i, PExec inc)\<rparr>))"
proof -
  let ?k = "\<gamma> t\<lparr>tk_own := Some (i, PExec inc)\<rparr>"
  have "txn_status s ! i = Executing inc"
    using own_only(3) [OF assms(1,4)] by auto
  note ph = own_phase [OF assms(1,4), of "PExec inc", unfolded phase_ok.simps, OF this]
  have "token_ok ?k" using assms(3) by (simp add: token_ok_def)
  moreover have "ended_ok n s u (\<gamma>(t := ?k))"
    using assms(4) by (intro ended_quiet [OF Inv_ended [OF assms(1)]]) (auto simp: harmless_def)
  moreover have "low_ok m (execution_idx s) ((tk_own \<circ> \<gamma>)(t := Some (i, PExec inc))) ((tk_grab \<circ> \<gamma>)(t := tk_grab (\<gamma> t)))"
    using assms(4) by (intro low_change [OF Inv_low [OF assms(1)] assms(2)]) (auto simp: low_def)
  ultimately show ?thesis
    using assms(1,2) ph by (simp add: inv_simps)
qed

lemma pending_push:
  assumes "pending_ok st dl lk ck tg" "lk t = Some j" "ck t"
  shows "pending_ok st (dl[j := xs]) lk ck tg"
proof -
  have "unfinished st tg j" using assms unfolding pending_ok_def by blast
  with assms(1) show ?thesis
    unfolding pending_ok_def by (metis length_list_update nth_list_update_neq)
qed

lemma inv_push:
  assumes "Inv n m s u \<gamma>" "t < m" "tk_guard (\<gamma> t)" "tk_own (\<gamma> t) = Some (i, PSus inc c)"
    and "tk_lock (\<gamma> t) = Some j" "tk_checked (\<gamma> t)" "j < i"
  shows "Inv n m (set_dependency j ((txn_dependency s ! j)\<lparr>mx_data := mx_data (txn_dependency s ! j) @ [i]\<rparr>) s) u
    (\<gamma>(t := \<gamma> t\<lparr>tk_own := Some (i, PWait inc c)\<rparr>))"
proof -
  let ?k = "\<gamma> t\<lparr>tk_own := Some (i, PWait inc c)\<rparr>"
  let ?d = "(txn_dependency s ! j)\<lparr>mx_data := mx_data (txn_dependency s ! j) @ [i]\<rparr>"
  let ?own = "(tk_own \<circ> \<gamma>)(t := Some (i, PWait inc c))"
  have sz: "length (txn_dependency s) = n" "length (txn_status s) = n" using Inv_size [OF assms(1)] by simp_all
  have st: "(txn_status s)[i := txn_status s ! i] = txn_status s" by simp
  note own = own_only [OF assms(1,4)]
  have j: "j < n" using own(2) assms(7) by simp
  have nt: "tk_notify (\<gamma> t') \<noteq> Some c" for t'
    using notify_own [OF Inv_notify [OF assms(1)], of t' c t i] assms(4) by auto
  have "owners_ok n ((txn_status s)[i := txn_status s ! i]) (condvars s) ?own"
  proof (rule owners_change [OF Inv_owners [OF assms(1)] own(2) sz(2)])
    show "cvar ph' \<noteq> Some c'" if "Some (i, PWait inc c) = Some (j1, ph)" "cvar ph = Some c'" "t' \<noteq> t"
      "(tk_own \<circ> \<gamma>) t' = Some (j', ph')" for j1 ph c' t' j' ph'
      using that assms(4) owners_cvar [OF Inv_owners [OF assms(1)], of t i "PSus inc c" t' j' ph' c] by auto
  qed (unfold comp_apply st, (erule own(1) | (use own(3) assms(4) in auto) [1])+)
  moreover have "notify_ok ((txn_status s)[i := txn_status s ! i]) (condvars s) ?own (tk_notify \<circ> \<gamma>)"
    by (rule notify_change [OF Inv_notify [OF assms(1)]])
       (unfold comp_apply st, (erule own(1) | (use own(3) nt in auto) [1])+)
  moreover have "queues_ok (txn_status s) ?own ((map mx_data (txn_dependency s))[j := map mx_data (txn_dependency s) ! j @ [i]]) (tk_deps \<circ> \<gamma>)"
  proof (rule queues_push [OF Inv_queues [OF assms(1)]])
    have w: "waits (txn_status s) (tk_own \<circ> \<gamma>) x \<longrightarrow> x \<noteq> i" for x
      unfolding waits_def comp_apply using own(1) assms(4) by fastforce
    then show "\<not> waits (txn_status s) (tk_own \<circ> \<gamma>) i" by blast
    show "waits (txn_status s) ?own x \<longleftrightarrow> x = i \<or> waits (txn_status s) (tk_own \<circ> \<gamma>) x" for x
    proof (cases "x = i")
      case True
      have "?own t = Some (i, PWait inc c)" by simp
      then show ?thesis using True own(3) unfolding waits_def phase_ok.simps by blast
    next
      case False
      then have "?own t' = Some (x, ph) \<longleftrightarrow> (tk_own \<circ> \<gamma>) t' = Some (x, ph)" for t' ph
        using assms(4) by auto
      then show ?thesis using False unfolding waits_def by simp
    qed
  qed (use j sz assms(7) in simp_all)
  moreover have "pending_ok (txn_status s) ((map mx_data (txn_dependency s))[j := map mx_data (txn_dependency s) ! j @ [i]])
      (tk_lock \<circ> \<gamma>) (tk_checked \<circ> \<gamma>) (tk_taking \<circ> \<gamma>)"
    by (rule pending_push [OF Inv_pending [OF assms(1)], of t]) (use assms(5,6) in simp_all)
  moreover have "token_ok ?k" using assms(3) by (simp add: token_ok_def)
  moreover have "ended_ok n (set_dependency j ?d s) u (\<gamma>(t := ?k))"
    using assms(4) by (intro ended_quiet [OF Inv_ended [OF assms(1)]]) (auto simp: harmless_def)
  moreover have "low_ok m (execution_idx s) ?own ((tk_grab \<circ> \<gamma>)(t := tk_grab (\<gamma> t)))"
    using assms(4) by (intro low_change [OF Inv_low [OF assms(1)] assms(2)]) (auto simp: low_def)
  ultimately show ?thesis
    using assms(1,2) j sz by (simp add: inv_simps map_set_dependency list_update_same)
qed

lemma pending_take:
  assumes "pending_ok st dl lk ck tg" "tg t = Some j" "\<And>t. lk t \<noteq> Some j"
  shows "pending_ok st (dl[j := []]) lk ck (tg(t := None))"
proof -
  have "unfinished st (tg(t := None)) j'" if "unfinished st tg j'" "j' \<noteq> j" for j'
    using that assms(2) unfolding unfinished_def by (metis fun_upd_other option.inject)
  with assms(1,3) show ?thesis
    unfolding pending_ok_def by (metis length_list_update nth_list_update_eq nth_list_update_neq)
qed

lemma inv_take:
  assumes "Inv n m s u \<gamma>" "t < m" "tk_guard (\<gamma> t)" "tk_taking (\<gamma> t) = Some j" "tk_deps (\<gamma> t) = []"
    and "j < n" "\<not> mx_locked (txn_dependency s ! j)"
  shows "Inv n m (set_dependency j ((txn_dependency s ! j)\<lparr>mx_data := []\<rparr>) s) u
    (\<gamma>(t := \<gamma> t\<lparr>tk_taking := None, tk_deps := mx_data (txn_dependency s ! j)\<rparr>))"
proof -
  let ?k = "\<gamma> t\<lparr>tk_taking := None, tk_deps := mx_data (txn_dependency s ! j)\<rparr>"
  have sz: "length (txn_dependency s) = n" using Inv_size [OF assms(1)] by simp
  have lk: "tk_lock (\<gamma> t') \<noteq> Some j" for t'
    using Inv_locks [OF assms(1)] assms(6,7) sz unfolding locks_ok_def by (metis comp_apply nth_map)
  have "token_ok ?k" using assms(3) by (simp add: token_ok_def)
  moreover have "ended_ok n (set_dependency j ((txn_dependency s ! j)\<lparr>mx_data := []\<rparr>) s) u (\<gamma>(t := ?k))"
    by (intro ended_quiet [OF Inv_ended [OF assms(1)]]) (auto simp: harmless_def)
  moreover have "queues_ok (txn_status s) (tk_own \<circ> \<gamma>) ((map mx_data (txn_dependency s))[j := []])
      ((tk_deps \<circ> \<gamma>)(t := map mx_data (txn_dependency s) ! j))"
    using assms(5,6) sz by (intro queues_take [OF Inv_queues [OF assms(1)]]) simp_all
  moreover have "pending_ok (txn_status s) ((map mx_data (txn_dependency s))[j := []])
      (tk_lock \<circ> \<gamma>) (tk_checked \<circ> \<gamma>) ((tk_taking \<circ> \<gamma>)(t := None))"
    using assms(4) lk by (intro pending_take [OF Inv_pending [OF assms(1)]]) simp_all
  ultimately show ?thesis
    using assms(1,2,6) sz by (simp add: inv_simps map_set_dependency list_update_same)
qed

lemma waits_status:
  assumes "waits (txn_status s) (tk_own \<circ> \<gamma>) i" "Inv n m s u \<gamma>"
  obtains t inc c where "i < n" "tk_own (\<gamma> t) = Some (i, PWait inc c)" "txn_status s ! i = Suspended inc c"
    "c < length (condvars s)" "\<not> condvars s ! c"
proof -
  from assms(1) obtain t inc c where t: "tk_own (\<gamma> t) = Some (i, PWait inc c)" "txn_status s ! i = Suspended inc c"
    unfolding waits_def comp_apply by blast
  show thesis
    using that [OF own_only(2) [OF assms(2) t(1)] t] own_only(3) [OF assms(2) t(1)] t(2) by auto
qed

lemma inv_resume:
  assumes "Inv n m s u \<gamma>" "t < m" "tk_guard (\<gamma> t)" "tk_deps (\<gamma> t) = i # is"
  obtains inc c where "i < n" "txn_status s ! i = Suspended inc c"
    "Inv n m (s\<lparr>txn_status := (txn_status s)[i := ReadyToExecute inc (Some c)]\<rparr>) u
      (\<gamma>(t := \<gamma> t\<lparr>tk_deps := is, tk_exec := insert i (tk_exec (\<gamma> t))\<rparr>))"
proof -
  let ?k = "\<gamma> t\<lparr>tk_deps := is, tk_exec := insert i (tk_exec (\<gamma> t))\<rparr>"
  have sz: "length (txn_status s) = n" using Inv_size [OF assms(1)] by simp
  have "waits (txn_status s) (tk_own \<circ> \<gamma>) i"
    by (rule queue_waits [OF Inv_queues [OF assms(1)], of i "Taken t"]) (simp add: assms(4))
  then obtain t' inc c where i: "i < n" and t': "tk_own (\<gamma> t') = Some (i, PWait inc c)"
    and st: "txn_status s ! i = Suspended inc c" and c: "c < length (condvars s)" "\<not> condvars s ! c"
    by (rule waits_status [OF _ assms(1)])
  let ?st = "(txn_status s)[i := ReadyToExecute inc (Some c)]"
  have "token_ok ?k" using assms(3) by (simp add: token_ok_def)
  moreover have nf: "\<not> final n s u \<gamma>"
    using i st by (auto simp: final_def)
  have "ended_ok n (s\<lparr>txn_status := ?st\<rparr>) u (\<gamma>(t := ?k))"
    by (rule ended_step [OF Inv_ended [OF assms(1)]]) (use nf in simp_all)
  moreover have "owners_ok n ?st (condvars s) (tk_own \<circ> \<gamma>)"
  proof (rule owners_status [OF Inv_owners [OF assms(1)] sz])
    show "phase_ok ?st (condvars s) i ph" if "(tk_own \<circ> \<gamma>) t1 = Some (i, ph)" for t1 ph
      using that own_only(1) [OF assms(1) t', of t1 ph] t' c i sz by auto
  qed (use st in simp)
  moreover have "notify_ok ?st (condvars s) (tk_own \<circ> \<gamma>) (tk_notify \<circ> \<gamma>)"
    by (rule notify_status [OF Inv_notify [OF assms(1)]]) (use st in simp_all)
  moreover have "queues_ok ?st (tk_own \<circ> \<gamma>) (map mx_data (txn_dependency s)) ((tk_deps \<circ> \<gamma>)(t := is))"
  proof (rule queues_resume [OF Inv_queues [OF assms(1)]])
    show "waits ?st (tk_own \<circ> \<gamma>) x \<longleftrightarrow> x \<noteq> i \<and> waits (txn_status s) (tk_own \<circ> \<gamma>) x" for x
      using i sz by (cases "x = i") (auto simp: waits_def)
  qed (simp add: assms(4))
  moreover have "exec_ok n ?st (execution_idx s) ((tk_exec \<circ> \<gamma>)(t := insert i (tk_exec (\<gamma> t))))"
    using sz i by (intro exec_change [OF Inv_exec [OF assms(1)]]) (auto simp: nth_list_update split: if_splits)
  moreover have "val_ok n ?st (validation_idx s) u (tk_val \<circ> \<gamma>)"
    by (rule val_status [OF Inv_val [OF assms(1)]]) simp
  moreover have "pending_ok ?st (map mx_data (txn_dependency s)) (tk_lock \<circ> \<gamma>) (tk_checked \<circ> \<gamma>) (tk_taking \<circ> \<gamma>)"
    by (rule pending_change [OF Inv_pending [OF assms(1)]]) (simp add: unfinished_status)
  ultimately have "Inv n m (s\<lparr>txn_status := ?st\<rparr>) u (\<gamma>(t := ?k))"
    using assms(1,2) by (simp add: inv_simps)
  with i st show thesis by (rule that)
qed

section \<open>Observations\<close>

lemma final_obs: "final n s u (\<gamma>(t := \<gamma> t\<lparr>tk_obs := ob\<rparr>)) \<longleftrightarrow> final n s u \<gamma>"
proof -
  have "harmless n ((\<gamma>(t := \<gamma> t\<lparr>tk_obs := ob\<rparr>)) t') \<longleftrightarrow> harmless n (\<gamma> t')" for t'
    by (simp add: harmless_def)
  then show ?thesis by (simp add: final_def)
qed

lemma late_obs: "(\<exists>t'. tk_late ((\<gamma>(t := \<gamma> t\<lparr>tk_obs := ob\<rparr>)) t')) \<longleftrightarrow> (\<exists>t'. tk_late (\<gamma> t'))"
proof -
  have "tk_late ((\<gamma>(t := \<gamma> t\<lparr>tk_obs := ob\<rparr>)) t') \<longleftrightarrow> tk_late (\<gamma> t')" for t'
    by simp
  then show ?thesis by simp
qed

abbreviation seen_in :: "nat \<Rightarrow> Scheduler \<Rightarrow> TxnIndex set \<Rightarrow> (nat \<Rightarrow> token) \<Rightarrow> obs \<Rightarrow> bool" where
  "seen_in n s u \<gamma> \<equiv> seen n (decrease_cnt s) (validation_idx s) (execution_idx s) (\<exists>t'. tk_late (\<gamma> t')) (final n s u \<gamma>)"

lemma inv_observe:
  assumes "Inv n m s u \<gamma>" "t < m" "seen_in n s u \<gamma> ob"
  shows "Inv n m s u (\<gamma>(t := \<gamma> t\<lparr>tk_obs := ob\<rparr>))"
proof -
  have "token_ok (\<gamma> t\<lparr>tk_obs := ob\<rparr>)" using Inv_token [OF assms(1), of t] by (simp add: token_ok_def)
  moreover have "seen_in n s u \<gamma> (tk_obs ((\<gamma>(t := \<gamma> t\<lparr>tk_obs := ob\<rparr>)) t'))" for t'
    using assms(3) Inv_ended [OF assms(1)] by (cases "t' = t") (simp_all add: ended_ok_def)
  then have "ended_ok n s u (\<gamma>(t := \<gamma> t\<lparr>tk_obs := ob\<rparr>))"
    using Inv_ended [OF assms(1)] unfolding ended_ok_def final_obs late_obs by blast
  ultimately show ?thesis
    using assms(1,2) by (simp add: inv_simps)
qed

lemma Inv_seen: "Inv n m s u \<gamma> \<Longrightarrow> seen_in n s u \<gamma> (tk_obs (\<gamma> t))"
  using Inv_ended by (simp add: ended_ok_def)

text \<open>Without a guard in sight and with both indices at the end, everything is over.\<close>

lemma Inv_no_guard:
  assumes "Inv n m s u \<gamma>" "num_active_tasks s = 0"
  shows "\<not> tk_guard (\<gamma> t)"
  using assms unfolding Inv_def guards_ok_def by (auto simp: card_eq_0_iff)

lemma Inv_final:
  assumes "Inv n m s u \<gamma>" "num_active_tasks s = 0" "n \<le> execution_idx s" "n \<le> validation_idx s"
  shows "final n s u \<gamma>"
proof -
  have bare: "tk_own (\<gamma> t) = None" "tk_exec (\<gamma> t) = {}" "tk_val (\<gamma> t) = {}" "\<not> tk_task (\<gamma> t)" "\<not> tk_late (\<gamma> t)" for t
    using Inv_token [OF assms(1), of t] Inv_no_guard [OF assms(1,2), of t] by (simp_all add: token_ok_def)
  have ex: "\<exists>inc. txn_status s ! i = Executed inc" if "i < n" for i
  proof (cases "txn_status s ! i")
    case (ReadyToExecute inc oc)
    then show ?thesis
      using Inv_exec [OF assms(1)] assms(3) that bare(2) unfolding exec_ok_def by fastforce
  qed (use owners_held [OF Inv_owners [OF assms(1)] that] bare(1) in auto)
  have "i \<notin> u" if "i < n" for i
    using Inv_val [OF assms(1)] assms(4) that bare(3) ex [OF that] unfolding val_ok_def by fastforce
  with ex assms(3,4) bare show ?thesis
    by (simp add: final_def harmless_def)
qed

lemma inv_mark_done:
  assumes "Inv n m s u \<gamma>" "t < m" "tk_obs (\<gamma> t) = OFinal"
  shows "Inv n m (s\<lparr>done_marker := True\<rparr>) u (\<gamma>(t := \<gamma> t))"
proof -
  have "final n s u \<gamma>" using Inv_seen [OF assms(1), of t] assms(3) by simp
  then have "ended_ok n (s\<lparr>done_marker := True\<rparr>) u \<gamma>"
    using Inv_ended [OF assms(1)] by (simp add: ended_ok_def final_def)
  then show ?thesis
    using assms(1) by (simp add: inv_simps)
qed

lemma inv_task:
  assumes "Inv n m s u \<gamma>" "t < m" "tk_guard (\<gamma> t)" "(i, inc) \<in> tk_val (\<gamma> t)" "i < n"
  shows "Inv n m s u (\<gamma>(t := \<gamma> t\<lparr>tk_task := True\<rparr>))"
proof -
  have "token_ok (\<gamma> t\<lparr>tk_task := True\<rparr>)" using assms(3) by (simp add: token_ok_def)
  moreover have "\<not> harmless n (\<gamma> t)" using assms(4,5) by (force simp: harmless_def)
  then have "ended_ok n s u (\<gamma>(t := \<gamma> t\<lparr>tk_task := True\<rparr>))"
    by (intro ended_busy [OF Inv_ended [OF assms(1)]]) auto
  ultimately show ?thesis
    using assms(1,2) by (simp add: inv_simps)
qed

lemma inv_untask:
  assumes "Inv n m s u \<gamma>" "t < m" "tk_guard (\<gamma> t)"
  shows "Inv n m s u (\<gamma>(t := \<gamma> t\<lparr>tk_task := False\<rparr>))"
proof -
  have "token_ok (\<gamma> t\<lparr>tk_task := False\<rparr>)" using assms(3) by (simp add: token_ok_def)
  moreover have "ended_ok n s u (\<gamma>(t := \<gamma> t\<lparr>tk_task := False\<rparr>))"
    by (intro ended_quiet [OF Inv_ended [OF assms(1)]]) (auto simp: harmless_def)
  ultimately show ?thesis
    using assms(1,2) by (simp add: inv_simps)
qed

text \<open>The ghost set of unvalidated transactions at the turns of a worker.\<close>

lemma inv_checked:
  assumes "Inv n m s u \<gamma>" "t < m" "tk_guard (\<gamma> t)" "tk_val (\<gamma> t) = {v}" "fst v < n"
  shows "Inv n m s (checked s v u) (\<gamma>(t := \<gamma> t\<lparr>tk_val := {}\<rparr>))"
proof -
  let ?k = "\<gamma> t\<lparr>tk_val := {}\<rparr>"
  have "token_ok ?k" using assms(3) by (simp add: token_ok_def)
  moreover have "\<not> harmless n (\<gamma> t)" using assms(4,5) by (simp add: harmless_def)
  then have "ended_ok n s (checked s v u) (\<gamma>(t := ?k))"
    by (intro ended_busy [OF Inv_ended [OF assms(1)]]) auto
  moreover have "val_ok n (txn_status s) (validation_idx s) (checked s v u) ((tk_val \<circ> \<gamma>)(t := {}))"
    using assms(4) by (intro val_change [OF Inv_val [OF assms(1)]])
      (cases v; auto simp: checked_def split: if_splits)
  ultimately show ?thesis
    using assms(1,2) by (simp add: inv_simps)
qed

lemma inv_disturb:
  assumes "Inv n m s u \<gamma>" "t < m" "tk_guard (\<gamma> t)" "tk_own (\<gamma> t) = Some (i, ph)" "tk_val (\<gamma> t) = {}"
    and "\<And>j inc. j < n \<Longrightarrow> j \<in> u' \<Longrightarrow> j \<notin> u \<Longrightarrow> txn_status s ! j = Executed inc \<Longrightarrow> (j, inc) \<in> va"
  shows "Inv n m s u' (\<gamma>(t := \<gamma> t\<lparr>tk_val := va\<rparr>))"
proof -
  let ?k = "\<gamma> t\<lparr>tk_val := va\<rparr>"
  have "token_ok ?k" using assms(3) by (simp add: token_ok_def)
  moreover have "\<not> harmless n (\<gamma> t)" using assms(4) by (simp add: harmless_def)
  then have "ended_ok n s u' (\<gamma>(t := ?k))"
    by (intro ended_busy [OF Inv_ended [OF assms(1)]]) auto
  moreover have "val_ok n (txn_status s) (validation_idx s) u' ((tk_val \<circ> \<gamma>)(t := va))"
    using assms(5,6) by (intro val_change [OF Inv_val [OF assms(1)]]) auto
  ultimately show ?thesis
    using assms(1,2) by (simp add: inv_simps)
qed

end
