(* ===== verification/Scheduler_Safety.thy ===== *)
theory Scheduler_Safety
  imports Scheduler_Actions
begin

text \<open>
  The methods of the scheduler and the workers of the executor against the
  invariant, and what follows for every reachable state of any number of
  workers: no method panics, the end is announced only when every transaction
  is executed and validated, no two workers execute the same transaction, and
  the workers never all wait for each other.
\<close>

section \<open>The actions as programs\<close>

text \<open>A worker waits only for the mutex of a dependency list, and never while it holds one.\<close>

definition blocked :: "Scheduler \<Rightarrow> token \<Rightarrow> bool" where
  "blocked s k \<longleftrightarrow> tk_lock k = None \<and> (\<exists>j < length (txn_dependency s). mx_locked (txn_dependency s ! j))"

lemma ok_atomic:
  assumes "P k" "\<And>s u \<gamma>. Inv n m s u \<gamma> \<Longrightarrow> P (\<gamma> t) \<Longrightarrow> Inv n m (snd (f s)) u (\<gamma>(t := h s (\<gamma> t)))"
    and "\<And>s. Q (h s k) (fst (f s))"
  shows "ok_prog (atomic f) (Inv n m) blocked t Q k"
proof (rule ok_prog_atomic)
  fix s u \<gamma> assume a: "Inv n m s u \<gamma>" "\<gamma> t = k"
  show "\<exists>k'. Inv n m (snd (f s)) u (\<gamma>(t := k')) \<and> Q k' (fst (f s))"
    using assms(2) [OF a(1)] assms(1) assms(3) [of s] a(2) by (intro exI [of _ "h s k"]) simp
qed

lemma ok_load:
  assumes "\<And>s. Q k (g s)"
  shows "ok_prog (load g) (Inv n m) blocked t Q k"
  unfolding load_def by (rule ok_atomic [where P = "\<lambda>_. True" and h = "\<lambda>_ k. k"]) (simp_all add: assms)

lemma ok_load_size:
  assumes "Q k n"
  shows "ok_prog (load num_txns) (Inv n m) blocked t Q k"
  unfolding load_def
proof (rule ok_prog_atomic)
  fix s u \<gamma> assume "Inv n m s u \<gamma>" "\<gamma> t = k"
  with assms Inv_size [of n m s u \<gamma>] show "\<exists>k'. Inv n m (snd (num_txns s, s)) u (\<gamma>(t := k')) \<and> Q k' (fst (num_txns s, s))"
    by (intro exI [of _ k]) auto
qed

lemma ok_observe:
  assumes "t < m" "\<And>s u \<gamma>. Inv n m s u \<gamma> \<Longrightarrow> \<gamma> t = k \<Longrightarrow> seen_in n s u \<gamma> (ob (g s))"
    and "\<And>x. Q (k\<lparr>tk_obs := ob x\<rparr>) x"
  shows "ok_prog (load g) (Inv n m) blocked t Q k"
  unfolding load_def
  by (rule ok_atomic [where P = "\<lambda>x. x = k" and h = "\<lambda>s k. k\<lparr>tk_obs := ob (g s)\<rparr>"])
     (unfold fst_conv snd_conv, (use inv_observe assms in blast)+)

lemma ok_guard_new:
  assumes "t < m" "\<not> tk_guard k" "Q (k\<lparr>tk_guard := True\<rparr>) TaskGuard"
  shows "ok_prog guard_new (Inv n m) blocked t Q k"
  unfolding guard_new_def
  by (rule ok_atomic [where P = "\<lambda>k. \<not> tk_guard k" and h = "\<lambda>s k. k\<lparr>tk_guard := True\<rparr>"], rule assms(2))
     (unfold fst_conv snd_conv, (use assms inv_guard_new in blast)+)

lemma ok_drop_guard:
  assumes "t < m" "tk_guard k" "token_ok (k\<lparr>tk_guard := False\<rparr>)" "Q (k\<lparr>tk_guard := False\<rparr>) ()"
  shows "ok_prog (drop_guard g) (Inv n m) blocked t Q k"
  unfolding drop_guard_def
proof (rule ok_prog_attempt)
  fix s u \<gamma> assume a: "Inv n m s u \<gamma>" "\<gamma> t = k"
  with inv_drop_guard [OF a(1) assms(1)] assms
  show "\<exists>x s' k'. (if 0 < num_active_tasks s then Some ((), s\<lparr>num_active_tasks := num_active_tasks s - 1\<rparr>) else None) =
      Some (x, s') \<and> Inv n m s' u (\<gamma>(t := k')) \<and> Q k' x" by auto
qed

lemma ok_fetch_validation:
  assumes "t < m" "tk_guard k" "tk_val k = {}" "\<And>idx. Q (k\<lparr>tk_val := {idx} \<times> UNIV\<rparr>) idx"
  shows "ok_prog (atomic (\<lambda>s. (validation_idx s, s\<lparr>validation_idx := validation_idx s + 1\<rparr>))) (Inv n m) blocked t Q k"
  by (rule ok_atomic [where P = "\<lambda>k. tk_guard k \<and> tk_val k = {}" and h = "\<lambda>s k. k\<lparr>tk_val := {validation_idx s} \<times> UNIV\<rparr>"])
     (unfold fst_conv snd_conv, (use assms inv_fetch_validation in blast)+)

lemma ok_fetch_execution:
  assumes "t < m" "tk_guard k" "tk_exec k = {}" "tk_own k = None" "\<And>idx. Q (k\<lparr>tk_exec := {idx}, tk_grab := Some idx\<rparr>) idx"
  shows "ok_prog (atomic (\<lambda>s. (execution_idx s, s\<lparr>execution_idx := execution_idx s + 1\<rparr>))) (Inv n m) blocked t Q k"
  by (rule ok_atomic [where P = "\<lambda>k. tk_guard k \<and> tk_exec k = {} \<and> tk_own k = None"
        and h = "\<lambda>s k. k\<lparr>tk_exec := {execution_idx s}, tk_grab := Some (execution_idx s)\<rparr>"])
     (unfold fst_conv snd_conv, (use assms inv_fetch_execution in blast)+)

lemma ok_is_executed_grabbed:
  assumes "t < m" "tk_guard k" "tk_val k = {idx} \<times> UNIV" "Q (k\<lparr>tk_val := {}\<rparr>) None"
    and "\<And>inc. idx < n \<Longrightarrow> Q (k\<lparr>tk_val := {(idx, inc)}, tk_task := True\<rparr>) (Some inc)"
  shows "ok_prog (is_executed idx) (Inv n m) blocked t Q k"
  unfolding is_executed_def
proof (rule ok_prog_atomic, unfold fst_conv snd_conv)
  fix s u \<gamma> assume a: "Inv n m s u \<gamma>" "\<gamma> t = k"
  let ?r = "if length (txn_status s) \<le> idx then None
    else case txn_status s ! idx of Executed inc \<Rightarrow> Some inc | _ \<Rightarrow> None"
  have sz: "length (txn_status s) = n" using Inv_size [OF a(1)] by simp
  show "\<exists>k'. Inv n m s u (\<gamma>(t := k')) \<and> Q k' ?r"
  proof (cases ?r)
    case None
    have "Inv n m s u (\<gamma>(t := \<gamma> t\<lparr>tk_val := {}\<rparr>))"
      by (rule inv_release_val [OF a(1) assms(1)]) (use a(2) assms(2,3) None sz in \<open>auto split: if_splits\<close>)
    then show ?thesis
      unfolding None using assms(4) a(2) by (intro exI [of _ "k\<lparr>tk_val := {}\<rparr>"]) simp
  next
    case (Some inc)
    then have i: "idx < n" "txn_status s ! idx = Executed inc"
      using sz by (auto split: if_splits TransactionStatus.splits)
    have "Inv n m s u (\<gamma>(t := \<gamma> t\<lparr>tk_val := {(idx, inc)}\<rparr>))"
      by (rule inv_release_val [OF a(1) assms(1)]) (use a(2) assms(2,3) i in auto)
    from inv_task [OF this assms(1), of idx inc] i a(2) assms(2)
    have "Inv n m s u (\<gamma>(t := k\<lparr>tk_val := {(idx, inc)}, tk_task := True\<rparr>))" by simp
    then show ?thesis
      unfolding Some using assms(5) [OF i(1), of inc] by blast
  qed
qed

lemma ok_try_incarnate:
  assumes "t < m" "tk_guard k" "tk_exec k = {i}" "tk_grab k = Some i" "tk_own k = None" "tk_notify k = None"
    and "Q (k\<lparr>tk_exec := {}, tk_grab := None\<rparr>) None"
    and "\<And>inc. i < n \<Longrightarrow> Q (k\<lparr>tk_exec := {}, tk_grab := None, tk_own := Some (i, PExec inc)\<rparr>) (Some (inc, None))"
    and "\<And>inc c. Q (k\<lparr>tk_exec := {}, tk_grab := None, tk_notify := Some c\<rparr>) (Some (inc, Some c))"
  shows "ok_prog (try_incarnate i) (Inv n m) blocked t Q k"
  unfolding try_incarnate_def
proof (rule ok_prog_atomic)
  fix s u \<gamma> assume a: "Inv n m s u \<gamma>" "\<gamma> t = k"
  let ?f = "if length (txn_status s) \<le> i then (None, s)
    else case txn_status s ! i of
      ReadyToExecute inc oc \<Rightarrow> (Some (inc, oc), s\<lparr>txn_status := (txn_status s)[i := Executing inc]\<rparr>)
    | _ \<Rightarrow> (None, s)"
  have sz: "length (txn_status s) = n" using Inv_size [OF a(1)] by simp
  show "\<exists>k'. Inv n m (snd ?f) u (\<gamma>(t := k')) \<and> Q k' (fst ?f)"
  proof (cases "i < n \<and> (\<exists>inc oc. txn_status s ! i = ReadyToExecute inc oc)")
    case True
    then obtain inc oc where i: "i < n" "txn_status s ! i = ReadyToExecute inc oc" by blast
    show ?thesis
    proof (cases oc)
      case None
      with inv_incarnate_fresh [OF a(1) assms(1) i(1)] i a(2) assms(2-5,8) sz show ?thesis by auto
    next
      case (Some c)
      with inv_incarnate_waiting [OF a(1) assms(1) i(1)] i a(2) assms(2-6,9) sz show ?thesis by auto
    qed
  next
    case False
    have "Inv n m s u (\<gamma>(t := \<gamma> t\<lparr>tk_exec := {}, tk_grab := None\<rparr>))"
      by (rule inv_release_exec [OF a(1) assms(1)]) (use False a(2) assms(2,3) in auto)
    moreover have "?f = (None, s)"
      using False sz by (auto split: TransactionStatus.split)
    ultimately show ?thesis using assms(7) a(2) by auto
  qed
qed

lemma ok_Act:
  assumes "\<And>s u \<gamma> p s'. I s u \<gamma> \<Longrightarrow> \<gamma> t = k \<Longrightarrow> f s = Some (p, s') \<Longrightarrow>
    \<exists>k'. I s' u (\<gamma>(t := k')) \<and> ok_prog p I W t Q k'"
    and "\<And>s u \<gamma>. I s u \<gamma> \<Longrightarrow> \<gamma> t = k \<Longrightarrow> f s = None \<Longrightarrow> W s k"
  shows "ok_prog (Act f) I W t Q k"
  using assms by (auto split: option.split)

lemma ok_notify_resolved:
  assumes "t < m" "tk_guard k" "tk_notify k = Some c" "Q (k\<lparr>tk_notify := None\<rparr>) ()"
  shows "ok_prog (notify_resolved c) (Inv n m) blocked t Q k"
  unfolding notify_resolved_def
  by (rule ok_atomic [where P = "\<lambda>k. tk_guard k \<and> tk_notify k = Some c" and h = "\<lambda>s k. k\<lparr>tk_notify := None\<rparr>"])
     (unfold fst_conv snd_conv, (use assms inv_notify in blast)+)

lemma ok_new_condvar:
  assumes "t < m" "tk_guard k" "tk_own k = Some (i, PExec inc)" "\<And>c. Q (k\<lparr>tk_own := Some (i, PPre inc c)\<rparr>) c"
  shows "ok_prog new_condvar (Inv n m) blocked t Q k"
  unfolding new_condvar_def
  by (rule ok_atomic [where P = "\<lambda>k. tk_guard k \<and> tk_own k = Some (i, PExec inc)"
        and h = "\<lambda>s k. k\<lparr>tk_own := Some (i, PPre inc (length (condvars s)))\<rparr>"])
     (unfold fst_conv snd_conv, (use assms inv_new_condvar in blast)+)

lemma ok_lock_dependency:
  assumes "t < m" "tk_guard k" "tk_lock k = None" "j < n" "Q (k\<lparr>tk_lock := Some j, tk_checked := False\<rparr>) ()"
  shows "ok_prog (lock_dependency j) (Inv n m) blocked t Q k"
  unfolding lock_dependency_def
proof (rule ok_Act)
  fix s u \<gamma> s' and p :: "unit sprog"
  assume a: "Inv n m s u \<gamma>" "\<gamma> t = k"
    "(if j < length (txn_dependency s)
      then let d = txn_dependency s ! j in
           if mx_locked d then None else Some (Return (), set_dependency j (d\<lparr>mx_locked := True\<rparr>) s)
      else Some (Crash, s)) = Some (p, s')"
  then have "\<not> mx_locked (txn_dependency s ! j)" "p = Return ()"
    "s' = set_dependency j ((txn_dependency s ! j)\<lparr>mx_locked := True\<rparr>) s"
    using Inv_size [OF a(1)] assms(4) by (auto simp: Let_def split: if_splits)
  with inv_lock [OF a(1) assms(1) _ assms(4)] a(2) assms(2,3,5)
  show "\<exists>k'. Inv n m s' u (\<gamma>(t := k')) \<and> ok_prog p (Inv n m) blocked t Q k'" by auto
qed (use assms(3) in \<open>auto simp: blocked_def Let_def split: if_splits\<close>)

lemma ok_is_executed_locked:
  assumes "t < m" "tk_guard k" "tk_lock k = Some j" "Q (k\<lparr>tk_checked := True\<rparr>) None" "\<And>inc. Q k (Some inc)"
    and "j < n"
  shows "ok_prog (is_executed j) (Inv n m) blocked t Q k"
  unfolding is_executed_def
proof (rule ok_prog_atomic, unfold fst_conv snd_conv)
  fix s u \<gamma> assume a: "Inv n m s u \<gamma>" "\<gamma> t = k"
  let ?r = "if length (txn_status s) \<le> j then None
    else case txn_status s ! j of Executed inc \<Rightarrow> Some inc | _ \<Rightarrow> None"
  have sz: "length (txn_status s) = n" using Inv_size [OF a(1)] by simp
  show "\<exists>k'. Inv n m s u (\<gamma>(t := k')) \<and> Q k' ?r"
  proof (cases ?r)
    case None
    then have "txn_status s ! j \<noteq> Executed inc" for inc
      using sz assms(6) by auto
    from inv_check_dependency [OF a(1) assms(1) _ _ this] a(2) assms(2,3) show ?thesis
      unfolding None using assms(4) by auto
  next
    case (Some inc)
    show ?thesis unfolding Some using a assms(5) by (intro exI [of _ k]) auto
  qed
qed

lemma ok_unlock_dependency:
  assumes "t < m" "tk_guard k" "tk_lock k = Some j" "Q (k\<lparr>tk_lock := None, tk_checked := False\<rparr>) ()"
  shows "ok_prog (unlock_dependency j) (Inv n m) blocked t Q k"
  unfolding unlock_dependency_def
  by (rule ok_atomic [where P = "\<lambda>k. tk_guard k \<and> tk_lock k = Some j"
        and h = "\<lambda>s k. k\<lparr>tk_lock := None, tk_checked := False\<rparr>"])
     (unfold fst_conv snd_conv, (use assms inv_unlock in blast)+)

lemma ok_unlock_unprepare:
  assumes "t < m" "tk_guard k" "tk_lock k = Some j" "tk_own k = Some (i, PPre inc c)"
    and "Q (k\<lparr>tk_lock := None, tk_checked := False, tk_own := Some (i, PExec inc)\<rparr>) ()"
  shows "ok_prog (unlock_dependency j) (Inv n m) blocked t Q k"
  unfolding unlock_dependency_def
proof (rule ok_prog_atomic, unfold fst_conv snd_conv)
  fix s u \<gamma> assume a: "Inv n m s u \<gamma>" "\<gamma> t = k"
  let ?s = "set_dependency j ((txn_dependency s ! j)\<lparr>mx_locked := False\<rparr>) s"
  have "Inv n m ?s u (\<gamma>(t := k\<lparr>tk_lock := None, tk_checked := False\<rparr>))"
    using inv_unlock [OF a(1) assms(1)] a(2) assms(2,3) by simp
  from inv_unprepare [OF this assms(1), of i inc c] assms(2,4)
  have "Inv n m ?s u (\<gamma>(t := k\<lparr>tk_lock := None, tk_checked := False, tk_own := Some (i, PExec inc)\<rparr>))" by simp
  with assms(5) show "\<exists>k'. Inv n m ?s u (\<gamma>(t := k')) \<and> Q k' ()" by blast
qed

lemma ok_with_status:
  assumes "i < n" "\<And>s u \<gamma>. Inv n m s u \<gamma> \<Longrightarrow> \<gamma> t = k \<Longrightarrow>
    \<exists>x st k'. f (txn_status s ! i) = Some (x, st) \<and>
      Inv n m (s\<lparr>txn_status := (txn_status s)[i := st]\<rparr>) u (\<gamma>(t := k')) \<and> Q k' x"
  shows "ok_prog (with_status i f) (Inv n m) blocked t Q k"
  unfolding with_status_def
proof (rule ok_prog_attempt)
  fix s u \<gamma> assume a: "Inv n m s u \<gamma>" "\<gamma> t = k"
  from assms(2) [OF a] obtain x st k' where "f (txn_status s ! i) = Some (x, st)"
    "Inv n m (s\<lparr>txn_status := (txn_status s)[i := st]\<rparr>) u (\<gamma>(t := k'))" "Q k' x"
    by blast
  moreover have "i < length (txn_status s)" using Inv_size [OF a(1)] assms(1) by simp
  ultimately show "\<exists>x s' k'. (if i < length (txn_status s)
      then map_option (map_prod id (\<lambda>st. s\<lparr>txn_status := (txn_status s)[i := st]\<rparr>)) (f (txn_status s ! i))
      else None) = Some (x, s') \<and> Inv n m s' u (\<gamma>(t := k')) \<and> Q k' x"
    by (intro exI [of _ x]) auto
qed

lemma ok_suspend:
  assumes "t < m" "tk_guard k" "tk_own k = Some (i, PPre inc c)" "i < n" "Q (k\<lparr>tk_own := Some (i, PSus inc c)\<rparr>) ()"
  shows "ok_prog (suspend i c) (Inv n m) blocked t Q k"
  unfolding suspend_def
proof (rule ok_with_status [OF assms(4)])
  fix s u \<gamma> assume a: "Inv n m s u \<gamma>" "\<gamma> t = k"
  with own_only(3) [OF a(1), of t i "PPre inc c"] assms(3) have "txn_status s ! i = Executing inc" by simp
  with inv_suspend [OF a(1) assms(1)] a(2) assms(2,3,5)
  show "\<exists>x st k'. (case txn_status s ! i of Executing incarnation \<Rightarrow> Some ((), Suspended incarnation c) | _ \<Rightarrow> None) = Some (x, st) \<and>
      Inv n m (s\<lparr>txn_status := (txn_status s)[i := st]\<rparr>) u (\<gamma>(t := k')) \<and> Q k' x" by auto
qed

lemma ok_push_dependency:
  assumes "t < m" "tk_guard k" "tk_own k = Some (i, PSus inc c)" "tk_lock k = Some j" "tk_checked k" "j < i"
    and "Q (k\<lparr>tk_own := Some (i, PWait inc c)\<rparr>) ()"
  shows "ok_prog (push_dependency j i) (Inv n m) blocked t Q k"
  unfolding push_dependency_def Let_def
  by (rule ok_atomic [where P = "\<lambda>k. tk_guard k \<and> tk_own k = Some (i, PSus inc c) \<and> tk_lock k = Some j \<and> tk_checked k"
        and h = "\<lambda>s k. k\<lparr>tk_own := Some (i, PWait inc c)\<rparr>"])
     (unfold fst_conv snd_conv, (use assms inv_push in blast)+)

lemma ok_set_executed:
  assumes "t < m" "tk_guard k" "tk_own k = Some (i, PExec inc)" "(i, inc) \<in> tk_val k" "tk_taking k = None" "i < n"
    and "Q (k\<lparr>tk_own := None, tk_taking := Some i\<rparr>) ()"
  shows "ok_prog (set_executed_status i inc) (Inv n m) blocked t Q k"
  unfolding set_executed_status_def
proof (rule ok_with_status [OF assms(6)])
  fix s u \<gamma> assume a: "Inv n m s u \<gamma>" "\<gamma> t = k"
  with own_only(3) [OF a(1), of t i "PExec inc"] assms(3) have "txn_status s ! i = Executing inc" by simp
  with inv_set_executed [OF a(1) assms(1)] a(2) assms(2-5,7)
  show "\<exists>x st k'. (if txn_status s ! i = Executing inc then Some ((), Executed inc) else None) = Some (x, st) \<and>
      Inv n m (s\<lparr>txn_status := (txn_status s)[i := st]\<rparr>) u (\<gamma>(t := k')) \<and> Q k' x" by auto
qed

lemma ok_take_dependencies:
  assumes "t < m" "tk_guard k" "tk_taking k = Some j" "tk_deps k = []" "j < n"
    and "\<And>ds. Q (k\<lparr>tk_taking := None, tk_deps := ds\<rparr>) ds" "tk_lock k = None"
  shows "ok_prog (take_dependencies j) (Inv n m) blocked t Q k"
  unfolding take_dependencies_def
proof (rule ok_Act)
  fix s u \<gamma> s' and p :: "TxnIndex list sprog"
  assume a: "Inv n m s u \<gamma>" "\<gamma> t = k"
    "(if j < length (txn_dependency s)
      then let d = txn_dependency s ! j in
           if mx_locked d then None else Some (Return (mx_data d), set_dependency j (d\<lparr>mx_data := []\<rparr>) s)
      else Some (Crash, s)) = Some (p, s')"
  then have "\<not> mx_locked (txn_dependency s ! j)" "p = Return (mx_data (txn_dependency s ! j))"
    "s' = set_dependency j ((txn_dependency s ! j)\<lparr>mx_data := []\<rparr>) s"
    using Inv_size [OF a(1)] assms(5) by (auto simp: Let_def split: if_splits)
  with inv_take [OF a(1) assms(1) _ _ _ assms(5)] a(2) assms(2-4,6)
  show "\<exists>k'. Inv n m s' u (\<gamma>(t := k')) \<and> ok_prog p (Inv n m) blocked t Q k'" by auto
qed (use assms(7) in \<open>auto simp: blocked_def Let_def split: if_splits\<close>)

lemma ok_resume:
  assumes "t < m" "tk_guard k" "tk_deps k = i # is"
    and "i < n \<Longrightarrow> Q (k\<lparr>tk_deps := is, tk_exec := insert i (tk_exec k)\<rparr>) ()"
  shows "ok_prog (resume i) (Inv n m) blocked t Q k"
  unfolding resume_def with_status_def
proof (rule ok_prog_attempt)
  fix s u \<gamma> assume a: "Inv n m s u \<gamma>" "\<gamma> t = k"
  then obtain inc c where i: "i < n" "txn_status s ! i = Suspended inc c"
    "Inv n m (s\<lparr>txn_status := (txn_status s)[i := ReadyToExecute inc (Some c)]\<rparr>) u
      (\<gamma>(t := k\<lparr>tk_deps := is, tk_exec := insert i (tk_exec k)\<rparr>))"
    using inv_resume [OF a(1) assms(1), of i "is"] assms(2,3) by metis
  moreover have "i < length (txn_status s)" using Inv_size [OF a(1)] i(1) by simp
  ultimately show "\<exists>x s' k'. (if i < length (txn_status s)
      then map_option (map_prod id (\<lambda>st. s\<lparr>txn_status := (txn_status s)[i := st]\<rparr>))
        (case txn_status s ! i of
           Suspended incarnation dep_condvar \<Rightarrow> Some ((), ReadyToExecute incarnation (Some dep_condvar)) | _ \<Rightarrow> None)
      else None) = Some (x, s') \<and> Inv n m s' u (\<gamma>(t := k')) \<and> Q k' x"
    using assms(4) [OF i(1)] by auto
qed

lemma ok_count:
  assumes "t < m" "tk_guard k" "tk_late k" "Q (k\<lparr>tk_late := False\<rparr>) ()"
  shows "ok_prog (atomic (\<lambda>s. ((), s\<lparr>decrease_cnt := decrease_cnt s + 1\<rparr>))) (Inv n m) blocked t Q k"
  by (rule ok_atomic [where P = "\<lambda>k. tk_late k \<and> tk_guard k" and h = "\<lambda>s k. k\<lparr>tk_late := False\<rparr>"])
     (unfold fst_conv snd_conv, (use assms inv_count in blast)+)

lemma ok_decrease_execution_idx:
  assumes "t < m" "tk_guard k" "\<And>i. i \<in> tk_exec k \<Longrightarrow> target \<le> i" "\<exists>i \<in> tk_exec k. i < n"
    and "tk_own k = None" "tk_grab k = None" "\<not> tk_late k" "Q (k\<lparr>tk_exec := {}\<rparr>) ()"
  shows "ok_prog (decrease_execution_idx target) (Inv n m) blocked t Q k"
  unfolding decrease_execution_idx_def
proof (rule ok_prog_bind, rule ok_atomic [where P = "\<lambda>x. x = k"
      and h = "\<lambda>s k. k\<lparr>tk_exec := {}, tk_late := target < execution_idx s\<rparr>"])
  show "Inv n m (snd (execution_idx s, s\<lparr>execution_idx := min (execution_idx s) target\<rparr>)) u
      (\<gamma>(t := \<gamma> t\<lparr>tk_exec := {}, tk_late := target < execution_idx s\<rparr>))" if "Inv n m s u \<gamma>" "\<gamma> t = k" for s u \<gamma>
    unfolding snd_conv by (rule inv_min_execution [OF that(1) assms(1)]) (use that(2) assms in auto)
  have k: "k\<lparr>tk_exec := {}, tk_late := False\<rparr> = k\<lparr>tk_exec := {}\<rparr>" using assms(7) by simp
  show "ok_prog (if target < fst (execution_idx s, s\<lparr>execution_idx := min (execution_idx s) target\<rparr>)
      then atomic (\<lambda>s. ((), s\<lparr>decrease_cnt := decrease_cnt s + 1\<rparr>)) else Return ()) (Inv n m) blocked t Q
      (k\<lparr>tk_exec := {}, tk_late := target < execution_idx s\<rparr>)" for s
  proof (cases "target < execution_idx s")
    case True
    have "ok_prog (atomic (\<lambda>s. ((), s\<lparr>decrease_cnt := decrease_cnt s + 1\<rparr>))) (Inv n m) blocked t Q (k\<lparr>tk_exec := {}, tk_late := True\<rparr>)"
      by (rule ok_count) (use assms(1,2,8) k in simp_all)
    then show ?thesis using True by simp
  qed (use assms(8) k in simp)
qed simp

lemma ok_decrease_validation_idx:
  assumes "t < m" "tk_guard k" "\<And>v. v \<in> tk_val k \<Longrightarrow> target \<le> fst v" "\<not> harmless n k" "\<not> tk_late k"
    and "Q (k\<lparr>tk_val := {}\<rparr>) ()"
  shows "ok_prog (decrease_validation_idx target) (Inv n m) blocked t Q k"
  unfolding decrease_validation_idx_def
proof (rule ok_prog_bind, rule ok_atomic [where P = "\<lambda>x. x = k"
      and h = "\<lambda>s k. k\<lparr>tk_val := {}, tk_late := target < validation_idx s\<rparr>"])
  show "Inv n m (snd (validation_idx s, s\<lparr>validation_idx := min (validation_idx s) target\<rparr>)) u
      (\<gamma>(t := \<gamma> t\<lparr>tk_val := {}, tk_late := target < validation_idx s\<rparr>))" if "Inv n m s u \<gamma>" "\<gamma> t = k" for s u \<gamma>
    unfolding snd_conv by (rule inv_min_validation [OF that(1) assms(1)]) (use that(2) assms in auto)
  have k: "k\<lparr>tk_val := {}, tk_late := False\<rparr> = k\<lparr>tk_val := {}\<rparr>" using assms(5) by simp
  show "ok_prog (if target < fst (validation_idx s, s\<lparr>validation_idx := min (validation_idx s) target\<rparr>)
      then atomic (\<lambda>s. ((), s\<lparr>decrease_cnt := decrease_cnt s + 1\<rparr>)) else Return ()) (Inv n m) blocked t Q
      (k\<lparr>tk_val := {}, tk_late := target < validation_idx s\<rparr>)" for s
  proof (cases "target < validation_idx s")
    case True
    have "ok_prog (atomic (\<lambda>s. ((), s\<lparr>decrease_cnt := decrease_cnt s + 1\<rparr>))) (Inv n m) blocked t Q (k\<lparr>tk_val := {}, tk_late := True\<rparr>)"
      by (rule ok_count) (use assms(1,2,6) k in simp_all)
    then show ?thesis using True by simp
  qed (use assms(6) k in simp)
qed simp

lemma ok_set_aborted:
  assumes "t < m" "tk_guard k" "tk_own k = Some (i, PAbort inc)" "tk_exec k = {}" "i < n"
    and "Q (k\<lparr>tk_own := None, tk_exec := {i}\<rparr>) ()"
  shows "ok_prog (set_aborted_status i inc) (Inv n m) blocked t Q k"
  unfolding set_aborted_status_def
proof (rule ok_with_status [OF assms(5)])
  fix s u \<gamma> assume a: "Inv n m s u \<gamma>" "\<gamma> t = k"
  with own_only(3) [OF a(1), of t i "PAbort inc"] assms(3) have "txn_status s ! i = Aborting inc" by simp
  with inv_set_aborted [OF a(1) assms(1)] a(2) assms(2-4,6)
  show "\<exists>x st k'. (if txn_status s ! i = Aborting inc then Some ((), ReadyToExecute (inc + 1) None) else None) = Some (x, st) \<and>
      Inv n m (s\<lparr>txn_status := (txn_status s)[i := st]\<rparr>) u (\<gamma>(t := k')) \<and> Q k' x" by auto
qed

lemma ok_try_abort:
  assumes "t < m" "tk_guard k" "tk_own k = None" "tk_task k" "i < n"
    and "Q (k\<lparr>tk_own := Some (i, PAbort inc), tk_task := False\<rparr>) True" "Q (k\<lparr>tk_task := False\<rparr>) False"
  shows "ok_prog (try_abort i inc) (Inv n m) blocked t Q k"
  unfolding try_abort_def
proof (rule ok_with_status [OF assms(5)])
  fix s u \<gamma> assume a: "Inv n m s u \<gamma>" "\<gamma> t = k"
  let ?r = "if txn_status s ! i = Executed inc then Some (True, Aborting inc) else Some (False, txn_status s ! i)"
  show "\<exists>x st k'. ?r = Some (x, st) \<and>
      Inv n m (s\<lparr>txn_status := (txn_status s)[i := st]\<rparr>) u (\<gamma>(t := k')) \<and> Q k' x"
  proof (cases "txn_status s ! i = Executed inc")
    case True
    with inv_try_abort [OF a(1) assms(1,5)] a(2) assms(2-4,6) show ?thesis by auto
  next
    case False
    with inv_untask [OF a(1) assms(1)] a(2) assms(2,7) show ?thesis by auto
  qed
qed

section \<open>The methods\<close>

text \<open>
  \<open>check_done\<close>: the values read are remembered as observations.  Reading no
  active task turns the observations into the end, unless the counter of
  decreases has moved since it was read first.
\<close>

lemma observed_end:
  assumes "Inv n m s u \<gamma>" "tk_obs (\<gamma> t) = OExec c" "num_active_tasks s = 0"
  shows "seen_in n s u \<gamma> (OTasks c)"
proof -
  have "\<not> tk_late (\<gamma> t')" for t'
    using Inv_no_guard [OF assms(1,3)] Inv_token [OF assms(1), of t'] by (simp add: token_ok_def)
  with Inv_seen [OF assms(1), of t] assms(2) Inv_final [OF assms(1,3)] show ?thesis by auto
qed

lemma ok_mark_done:
  assumes "t < m" "tk_obs k = OFinal" "Q k True"
  shows "ok_prog (atomic (\<lambda>s. (True, s\<lparr>done_marker := True\<rparr>))) (Inv n m) blocked t Q k"
  by (rule ok_atomic [where P = "\<lambda>k. tk_obs k = OFinal" and h = "\<lambda>s k. k"])
     (unfold fst_conv snd_conv, (use assms inv_mark_done in blast)+)

lemma ok_check_done:
  assumes "t < m" "\<And>ob b. Q (idle\<lparr>tk_obs := ob\<rparr>) b"
  shows "ok_prog check_done (Inv n m) blocked t Q idle"
  unfolding check_done_def
  apply (rule ok_prog_bind, rule ok_observe [OF assms(1), where ob = OCnt], simp)
  subgoal for c
    apply (rule ok_prog_bind, rule ok_observe [OF assms(1), where ob = "\<lambda>v. if n \<le> v then OVal c else OCnt c"])
    subgoal for s u \<gamma> using Inv_seen [of n m s u \<gamma> t] by auto
    subgoal for v
      apply (rule ok_prog_bind,
          rule ok_observe [OF assms(1), where ob = "\<lambda>e. if n \<le> v \<and> n \<le> e then OExec c else OCnt c"])
      subgoal for s u \<gamma> using Inv_seen [of n m s u \<gamma> t] by (auto split: if_splits)
      subgoal for e
        apply (rule ok_prog_bind,
            rule ok_observe [OF assms(1), where ob = "\<lambda>a. if n \<le> v \<and> n \<le> e \<and> a = 0 then OTasks c else OCnt c"])
        subgoal for s u \<gamma> using Inv_seen [of n m s u \<gamma> t] observed_end [of n m s u \<gamma> t c] by (auto split: if_splits)
        subgoal for a
          apply (rule ok_prog_bind, rule ok_load_size)
          apply (clarsimp simp: assms(2) not_less simp del: ok_prog.simps(3))
          apply (rule ok_prog_bind, rule ok_observe [OF assms(1), where ob = "\<lambda>x. if c = x then OFinal else ONone"])
          subgoal for s u \<gamma> using Inv_seen [of n m s u \<gamma> t] by (auto split: if_splits)
          subgoal by (auto simp: assms(2) simp del: ok_prog.simps(3) intro!: ok_mark_done assms(1))
          done
        done
      done
    done
  done

lemma ok_if:
  assumes "b \<Longrightarrow> ok_prog p I W t Q k" "\<not> b \<Longrightarrow> ok_prog q I W t Q k"
  shows "ok_prog (if b then p else q) I W t Q k"
  using assms by simp

lemma ok_Return: "Q k x \<Longrightarrow> ok_prog (Return x) I W t Q k"
  by simp

text \<open>What the token of a worker says at every point.\<close>

fun pt :: "nat \<Rightarrow> point \<Rightarrow> token \<Rightarrow> bool" where
  "pt n (Holding NoTask) k \<longleftrightarrow> (\<exists>ob. k = idle\<lparr>tk_obs := ob\<rparr>)"
| "pt n (Holding Done) k \<longleftrightarrow> k = idle\<lparr>tk_obs := OFinal\<rparr>"
| "pt n (Holding (ExecutionTask (i, inc) None g)) k \<longleftrightarrow>
     i < n \<and> k = idle\<lparr>tk_guard := True, tk_own := Some (i, PExec inc)\<rparr>"
| "pt n (Holding (ExecutionTask v (Some c) g)) k \<longleftrightarrow> k = idle\<lparr>tk_guard := True, tk_notify := Some c\<rparr>"
| "pt n (Holding (ValidationTask (i, inc) g)) k \<longleftrightarrow>
     i < n \<and> k = idle\<lparr>tk_guard := True, tk_val := {(i, inc)}, tk_task := True\<rparr>"
| "pt n (Running (i, inc)) k \<longleftrightarrow> i < n \<and> k = idle\<lparr>tk_guard := True, tk_own := Some (i, PExec inc)\<rparr>"
| "pt n (Waiting (i, inc) c) k \<longleftrightarrow> i < n \<and> k = idle\<lparr>tk_guard := True, tk_own := Some (i, PWait inc c)\<rparr>"
| "pt n (Validating (i, inc)) k \<longleftrightarrow> i < n \<and> k = idle\<lparr>tk_guard := True, tk_task := True\<rparr>"
| "pt n (Aborted (i, inc)) k \<longleftrightarrow> i < n \<and> k = idle\<lparr>tk_guard := True, tk_own := Some (i, PAbort inc)\<rparr>"
| "pt n Stopped k \<longleftrightarrow> k = idle\<lparr>tk_obs := OFinal\<rparr>"

lemma ok_try_validate:
  assumes "t < m" "\<And>ob. Q (idle\<lparr>tk_obs := ob\<rparr>) None"
    and "\<And>i inc. i < n \<Longrightarrow> Q (idle\<lparr>tk_guard := True, tk_val := {(i, inc)}, tk_task := True\<rparr>) (Some ((i, inc), TaskGuard))"
  shows "ok_prog try_validate_next_version (Inv n m) blocked t Q idle"
  unfolding try_validate_next_version_def
  apply (rule ok_prog_bind, rule ok_load)
  apply (rule ok_prog_bind, rule ok_load_size)
  apply (rule ok_if)
  subgoal by (rule ok_prog_bind, rule ok_check_done) (simp_all add: assms)
  apply (rule ok_prog_bind, rule ok_guard_new [OF assms(1)], simp add: idle_def)
  apply (rule ok_prog_bind, rule ok_fetch_validation [OF assms(1)], simp, simp add: idle_def)
  apply (rule ok_prog_bind, rule ok_is_executed_grabbed [OF assms(1)], simp, simp, unfold option.case)
  subgoal
    by (rule ok_prog_bind, rule ok_drop_guard [OF assms(1)])
       (use assms(2) [of ONone] in \<open>simp_all add: idle_def token_ok_def\<close>)
  subgoal by (rule ok_Return) (use assms(3) in \<open>simp add: idle_def\<close>)
  done

lemma ok_try_execute:
  assumes "t < m" "\<And>ob. Q (idle\<lparr>tk_obs := ob\<rparr>) None"
    and "\<And>i inc. i < n \<Longrightarrow> Q (idle\<lparr>tk_guard := True, tk_own := Some (i, PExec inc)\<rparr>) (Some ((i, inc), None, TaskGuard))"
    and "\<And>v c. Q (idle\<lparr>tk_guard := True, tk_notify := Some c\<rparr>) (Some (v, Some c, TaskGuard))"
  shows "ok_prog try_execute_next_version (Inv n m) blocked t Q idle"
  unfolding try_execute_next_version_def
  apply (rule ok_prog_bind, rule ok_load)
  apply (rule ok_prog_bind, rule ok_load_size)
  apply (rule ok_if)
  subgoal by (rule ok_prog_bind, rule ok_check_done) (simp_all add: assms)
  apply (rule ok_prog_bind, rule ok_guard_new [OF assms(1)], simp add: idle_def)
  apply (rule ok_prog_bind, rule ok_fetch_execution [OF assms(1)], simp, simp add: idle_def, simp add: idle_def)
  apply (rule ok_prog_bind, rule ok_try_incarnate [OF assms(1)], simp, simp, simp, simp add: idle_def,
      simp add: idle_def, unfold option.case prod.case)
  subgoal
    by (rule ok_prog_bind, rule ok_drop_guard [OF assms(1)])
       (use assms(2) [of ONone] in \<open>simp_all add: idle_def token_ok_def\<close>)
  subgoal by (rule ok_Return) (use assms(3) in \<open>simp add: idle_def\<close>)
  subgoal by (rule ok_Return) (use assms(4) in \<open>simp add: idle_def\<close>)
  done

lemma ok_take_next:
  assumes "t < m" "k = idle\<lparr>tk_obs := ob\<rparr>"
  shows "ok_prog take_next (Inv n m) blocked t (\<lambda>k p. pt n p k) k"
  unfolding take_next_def next_task_round_def done_loaded_def
  apply (rule ok_prog_bind)
  apply (rule ok_prog_bind, rule ok_observe [OF assms(1), where ob = "\<lambda>d. if d then OFinal else ONone"])
  subgoal for s u \<gamma> using Inv_ended [of n m s u \<gamma>] by (simp add: ended_ok_def)
  subgoal for d
    apply (rule ok_if)
    subgoal by (rule ok_Return) (simp add: assms(2))
    apply (rule ok_prog_bind, rule ok_load)
    apply (rule ok_prog_bind, rule ok_load)
    apply (rule ok_if)
    subgoal premises p
    proof -
      have k: "k\<lparr>tk_obs := if d then OFinal else ONone\<rparr> = idle" using p(1) by (simp add: assms(2) idle_def)
      show ?thesis unfolding k
        by (rule ok_prog_bind, rule ok_try_validate [OF assms(1)]) (auto intro!: exI [of _ "_ :: obs"])
    qed
    subgoal premises p
    proof -
      have k: "k\<lparr>tk_obs := if d then OFinal else ONone\<rparr> = idle" using p(1) by (simp add: assms(2) idle_def)
      show ?thesis unfolding k
        by (rule ok_prog_bind, rule ok_try_execute [OF assms(1)]) auto
    qed
    done
  done

lemma ok_depend:
  assumes "t < m" "k = idle\<lparr>tk_guard := True, tk_own := Some (i, PExec inc)\<rparr>" "i < n" "dep < i"
  shows "ok_prog (depend (i, inc) dep) (Inv n m) blocked t (\<lambda>k p. pt n p k) k"
proof -
  have d: "dep < n" using assms(3,4) by simp
  show ?thesis
    unfolding depend_def wait_for_dependency_def fst_conv
    apply (rule ok_prog_bind)
    apply (rule ok_prog_bind, rule ok_new_condvar [OF assms(1)], simp add: assms(2), simp add: assms(2))
    apply (rule ok_prog_bind, rule ok_lock_dependency [OF assms(1) _ _ d], simp add: assms(2), simp add: assms(2) idle_def)
    apply (rule ok_prog_bind, rule ok_is_executed_locked [OF assms(1) _ _ _ _ d], simp add: assms(2), simp)
    subgoal for c
      apply (rule ok_if)
      subgoal by simp
      apply (rule ok_prog_bind, rule ok_suspend [OF assms(1) _ _ assms(3)], simp add: assms(2), simp)
      apply (rule ok_prog_bind, rule ok_push_dependency [OF assms(1) _ _ _ _ assms(4)], simp add: assms(2), simp, simp, simp)
      apply (rule ok_prog_bind, rule ok_unlock_dependency [OF assms(1)], simp add: assms(2), simp)
      by (rule ok_Return) (simp add: assms(2,3) idle_def)
    subgoal for c inc'
      apply (rule ok_if)
      apply (rule ok_prog_bind, rule ok_unlock_unprepare [OF assms(1)], simp add: assms(2), simp, simp)
      subgoal by (rule ok_Return) (simp add: assms(2,3) idle_def)
      by simp
    done
qed

lemma ok_give_up:
  assumes "t < m" "tk_guard k" "k\<lparr>tk_guard := False\<rparr> = idle"
  shows "ok_prog (give_up g) (Inv n m) blocked t (\<lambda>k p. pt n p k) k"
  unfolding give_up_def
  by (rule ok_prog_bind, rule ok_drop_guard [OF assms(1,2)])
     (auto simp: assms(3) idle_def token_ok_def intro: exI [of _ ONone])

lemma ok_resolve:
  assumes "t < m" "k = idle\<lparr>tk_guard := True, tk_notify := Some c\<rparr>"
  shows "ok_prog (resolve c g) (Inv n m) blocked t (\<lambda>k p. pt n p k) k"
  unfolding resolve_def
  by (rule ok_prog_bind, rule ok_notify_resolved [OF assms(1)])
     (auto simp: assms idle_def simp del: ok_prog.simps(3) intro!: ok_give_up)

lemma ok_reject:
  assumes "t < m" "k = idle\<lparr>tk_guard := True, tk_task := True\<rparr>" "i < n"
  shows "ok_prog (reject (i, inc)) (Inv n m) blocked t (\<lambda>k p. pt n p k) k"
  unfolding reject_def fst_conv snd_conv
  apply (rule ok_prog_bind, rule ok_try_abort [OF assms(1) _ _ _ assms(3)], simp add: assms(2), simp add: assms(2) idle_def,
      simp add: assms(2))
  subgoal by (simp add: assms(2,3) idle_def)
  subgoal by (rule ok_if, simp, rule ok_give_up) (simp_all add: assms(1,2) idle_def)
  done

lemma ok_load_execution:
  assumes "t < m" "tk_guard k" "tk_exec k = {i}" "tk_own k = None"
    and "\<And>e. e \<le> i \<Longrightarrow> Q (k\<lparr>tk_exec := {}, tk_grab := None\<rparr>) e" "\<And>e. i < e \<Longrightarrow> Q (k\<lparr>tk_grab := Some i\<rparr>) e"
  shows "ok_prog (load execution_idx) (Inv n m) blocked t Q k"
  unfolding load_def
proof (rule ok_prog_atomic, unfold fst_conv snd_conv)
  fix s u \<gamma> assume a: "Inv n m s u \<gamma>" "\<gamma> t = k"
  show "\<exists>k'. Inv n m s u (\<gamma>(t := k')) \<and> Q k' (execution_idx s)"
  proof (cases "execution_idx s \<le> i")
    case True
    then have "Inv n m s u (\<gamma>(t := \<gamma> t\<lparr>tk_exec := {}, tk_grab := None\<rparr>))"
      by (intro inv_release_exec [OF a(1) assms(1)]) (use a(2) assms(2,3) in auto)
    with True assms(5) a(2) show ?thesis by auto
  next
    case False
    then have "Inv n m s u (\<gamma>(t := \<gamma> t\<lparr>tk_grab := Some i\<rparr>))"
      by (intro inv_grab [OF a(1) assms(1)]) (use a(2) assms(2,4) in auto)
    with False assms(6) a(2) show ?thesis by auto
  qed
qed

lemma ok_load_validation:
  assumes "t < m" "tk_guard k" "\<And>v. v \<in> tk_val k \<Longrightarrow> i \<le> fst v" "(i, inc) \<in> tk_val k" "i < n"
    and "\<And>x. x \<le> i \<Longrightarrow> Q (k\<lparr>tk_val := {}\<rparr>) x" "\<And>x. i < x \<Longrightarrow> Q (if b then k\<lparr>tk_task := True\<rparr> else k) x"
  shows "ok_prog (load validation_idx) (Inv n m) blocked t Q k"
  unfolding load_def
proof (rule ok_prog_atomic, unfold fst_conv snd_conv)
  fix s u \<gamma> assume a: "Inv n m s u \<gamma>" "\<gamma> t = k"
  show "\<exists>k'. Inv n m s u (\<gamma>(t := k')) \<and> Q k' (validation_idx s)"
  proof (cases "validation_idx s \<le> i")
    case True
    then have "Inv n m s u (\<gamma>(t := \<gamma> t\<lparr>tk_val := {}\<rparr>))"
      by (intro inv_release_val [OF a(1) assms(1)]) (use a(2) assms(2,3) in fastforce)+
    with True assms(6) a(2) show ?thesis by auto
  next
    case False
    have "Inv n m s u (\<gamma>(t := if b then k\<lparr>tk_task := True\<rparr> else k))"
      using inv_task [OF a(1) assms(1), of i inc] a assms(2,4,5) by auto
    with False assms(7) [of "validation_idx s"] show ?thesis by (metis not_le)
  qed
qed

lemma ok_abort:
  assumes "t < m" "i < n"
    and "k = idle\<lparr>tk_guard := True, tk_own := Some (i, PAbort inc), tk_val := {v. i < fst v}\<rparr>"
  shows "ok_prog (abort (i, inc)) (Inv n m) blocked t (\<lambda>k p. pt n p k) k"
  unfolding abort_def finish_abort_def fst_conv snd_conv
  apply (rule ok_prog_bind)
  apply (rule ok_prog_bind, rule ok_set_aborted [OF assms(1) _ _ _ assms(2)], simp add: assms(3), simp add: assms(3),
      simp add: assms(3) idle_def)
  apply (rule ok_prog_bind, rule ok_decrease_validation_idx [OF assms(1)], simp add: assms(3), simp add: assms(3) Suc_leI,
      simp add: harmless_def not_le assms(2), simp add: assms(3) idle_def)
  apply (rule ok_prog_bind, rule ok_load_execution [OF assms(1)], simp add: assms(3), simp, simp)
  subgoal
    apply (rule ok_if, simp)
    by (rule ok_prog_bind, rule ok_drop_guard [OF assms(1)])
       (auto simp: assms(3) idle_def token_ok_def intro: exI [of _ ONone])
  subgoal
    apply (rule ok_if)
     apply (rule ok_prog_bind, rule ok_try_incarnate [OF assms(1)], simp add: assms(3), simp, simp, simp, simp add: assms(3) idle_def,
        unfold option.case prod.case)
    subgoal
      by (rule ok_prog_bind, rule ok_drop_guard [OF assms(1)])
         (auto simp: assms(3) idle_def token_ok_def intro: exI [of _ ONone])
    subgoal by (simp add: assms(3) idle_def)
    subgoal by (simp add: assms(3) idle_def)
    subgoal by simp
    done
  done

lemma ok_resume_all:
  assumes "t < m" "tk_guard k" "tk_deps k = ds"
    and "(\<forall>i \<in> set ds. i < n) \<Longrightarrow> Q (k\<lparr>tk_deps := [], tk_exec := set ds \<union> tk_exec k\<rparr>) ()"
  shows "ok_prog (resume_all ds) (Inv n m) blocked t Q k"
  using assms
proof (induction ds arbitrary: k)
  case Nil
  have "k\<lparr>tk_deps := [], tk_exec := tk_exec k\<rparr> = k" using Nil.prems(3) by simp
  with Nil show ?case by simp
next
  case (Cons d ds)
  show ?case
    unfolding resume_all.simps
  proof (rule ok_prog_bind, rule ok_resume [OF Cons.prems(1-3)])
    assume d: "d < n"
    show "ok_prog (resume_all ds) (Inv n m) blocked t Q (k\<lparr>tk_deps := ds, tk_exec := insert d (tk_exec k)\<rparr>)"
      by (rule Cons.IH) (use Cons.prems d in simp_all)
  qed
qed

lemma ok_conclude:
  assumes "t < m" "i < n"
    and "k = idle\<lparr>tk_guard := True, tk_own := Some (i, PExec inc), tk_val := insert (i, inc) (if suffix then {v. i \<le> fst v} else {})\<rparr>"
  shows "ok_prog (conclude (i, inc) suffix) (Inv n m) blocked t (\<lambda>k p. pt n p k) k"
proof -
  let ?va = "insert (i, inc) (if suffix then {v. i \<le> fst v} else {})"
  let ?k = "idle\<lparr>tk_guard := True, tk_val := ?va\<rparr>"
  let ?rest = "pbind (load validation_idx) (\<lambda>v.
     if v > i
     then (if suffix
           then pbind (decrease_validation_idx i) (\<lambda>_. pbind (drop_guard TaskGuard) (\<lambda>_. Return NoTask))
           else Return (ValidationTask (i, inc) TaskGuard))
     else pbind (drop_guard TaskGuard) (\<lambda>_. Return NoTask))"
  have rest: "ok_prog ?rest (Inv n m) blocked t (\<lambda>k x. ok_prog (Return (Holding x)) (Inv n m) blocked t (\<lambda>k p. pt n p k) k) ?k"
    apply (rule ok_prog_bind, rule ok_load_validation [OF assms(1) _ _ _ assms(2), where b = "\<not> suffix" and inc = inc],
        simp, force split: if_splits, simp)
    subgoal
      apply (rule ok_if, simp)
      by (rule ok_prog_bind, rule ok_drop_guard [OF assms(1)]) (auto simp: idle_def token_ok_def intro: exI [of _ ONone])
    subgoal
      apply (rule ok_if)
      apply (rule ok_if)
      subgoal
        apply (rule ok_prog_bind, rule ok_decrease_validation_idx [OF assms(1)], simp, force split: if_splits,
            simp add: harmless_def not_le assms(2), simp add: idle_def)
        by (rule ok_prog_bind, rule ok_drop_guard [OF assms(1)]) (auto simp: idle_def token_ok_def intro: exI [of _ ONone])
      subgoal by (simp add: assms(2) idle_def)
      subgoal by simp
      done
    done
  show ?thesis
    unfolding conclude_def finish_execution_def fst_conv snd_conv
    apply (rule ok_prog_bind)
    apply (rule ok_prog_bind, rule ok_set_executed [OF assms(1) _ _ _ _ assms(2)], simp add: assms(3), simp add: assms(3),
        simp add: assms(3), simp add: assms(3) idle_def)
    apply (rule ok_prog_bind, rule ok_take_dependencies [OF assms(1) _ _ _ assms(2)], simp add: assms(3), simp,
        simp add: assms(3) idle_def)
     defer
     apply (simp add: assms(3) idle_def)
    subgoal for ds
      apply (rule ok_prog_bind, rule ok_resume_all [OF assms(1)], simp add: assms(3), simp)
      apply (rule ok_prog_bind, rule ok_if)
      subgoal using rest by (simp add: assms(3) idle_def del: ok_prog.simps(3))
      apply (rule ok_decrease_execution_idx [OF assms(1)], simp add: assms(3), simp add: assms(3) idle_def,
          force simp: neq_Nil_conv, simp add: assms(3) idle_def, simp add: assms(3) idle_def, simp add: assms(3) idle_def)
      using rest by (simp add: assms(3) idle_def del: ok_prog.simps(3))
    done
qed

end
