(* ===== verification/Scheduler_Theorems.thy ===== *)
theory Scheduler_Theorems
  imports Scheduler_Safety
begin

text \<open>
  The workers of the parallel executor keep the invariant of the scheduler on
  every interleaving.  What follows for the executor: no assertion fails, a
  transaction has one worker at a time, the done marker is set only when every
  transaction is executed and validated, and some worker can always go on.
\<close>

section \<open>Every turn keeps the invariant\<close>

lemma Inv_scheduler_new: "Inv n m (scheduler_new n) {} (\<lambda>_. idle)"
  unfolding Inv_def
proof (intro conjI)
  show "queues_ok (txn_status (scheduler_new n)) (tk_own \<circ> (\<lambda>_. idle))
     (map mx_data (txn_dependency (scheduler_new n))) (tk_deps \<circ> (\<lambda>_. idle))"
  proof -
    have "queue (map mx_data (txn_dependency (scheduler_new n))) (tk_deps \<circ> (\<lambda>_. idle)) p = []" for p
      by (cases p) (auto simp: scheduler_new_def idle_def)
    then show ?thesis by (auto simp: queues_ok_def waits_def scheduler_new_def idle_def)
  qed
qed (auto simp: scheduler_new_def idle_def tokens_ok_def token_ok_def guards_ok_def owners_ok_def notify_ok_def
      exec_ok_def val_ok_def locks_ok_def pending_ok_def low_ok_def low_def ended_ok_def)

lemma pt_guard: "pt n p k \<Longrightarrow> p \<notin> {Holding NoTask, Holding Done, Stopped} \<Longrightarrow> tk_guard k"
  by (cases "(n, p, k)" rule: pt.cases) auto

text \<open>The turns that leave the state alone and only change what the worker owes.\<close>

abbreviation goes_on :: "nat \<Rightarrow> nat \<Rightarrow> Scheduler \<Rightarrow> TxnIndex set \<Rightarrow> (nat \<Rightarrow> token) \<Rightarrow> nat \<Rightarrow> (Scheduler, point) worker \<Rightarrow> bool" where
  "goes_on n m s u \<gamma> t w \<equiv> \<exists>k. Inv n m s u (\<gamma>(t := k)) \<and> ok_worker (Inv n m) blocked (pt n) t w k"

lemma goes_on_same: "Inv n m s u \<gamma> \<Longrightarrow> ok_worker (Inv n m) blocked (pt n) t w (\<gamma> t) \<Longrightarrow> goes_on n m s u \<gamma> t w"
  by (rule exI [of _ "\<gamma> t"]) simp

lemma goes_on_validating:
  assumes "t < m" "Inv n m s u \<gamma>" "pt n (Holding (ValidationTask v guard)) (\<gamma> t)"
  shows "goes_on n m s (checked s v u) \<gamma> t (At (Validating v))"
proof -
  obtain i inc where v: "v = (i, inc)" by (cases v)
  with assms(3) have k: "i < n" "\<gamma> t = idle\<lparr>tk_guard := True, tk_val := {(i, inc)}, tk_task := True\<rparr>" by auto
  from inv_checked [OF assms(2,1), of v] have "Inv n m s (checked s v u) (\<gamma>(t := \<gamma> t\<lparr>tk_val := {}\<rparr>))"
    by (simp add: k v)
  with k show ?thesis by (intro exI [of _ "\<gamma> t\<lparr>tk_val := {}\<rparr>"]) (simp add: v ok_worker_def idle_def)
qed

lemma goes_on_woken:
  assumes "t < m" "Inv n m s u \<gamma>" "pt n (Waiting v c) (\<gamma> t)" "condvars s ! c"
  shows "goes_on n m s u \<gamma> t (At (Running v))"
proof -
  obtain i inc where v: "v = (i, inc)" by (cases v)
  with assms(3) have k: "i < n" "\<gamma> t = idle\<lparr>tk_guard := True, tk_own := Some (i, PWait inc c)\<rparr>" by auto
  from inv_wake [OF assms(2,1) _ _ assms(4)] have "Inv n m s u (\<gamma>(t := \<gamma> t\<lparr>tk_own := Some (i, PExec inc)\<rparr>))"
    by (simp add: k)
  with k show ?thesis by (intro exI [of _ "\<gamma> t\<lparr>tk_own := Some (i, PExec inc)\<rparr>"]) (simp add: v ok_worker_def)
qed

lemma goes_on_conclude:
  assumes "t < m" "Inv n m s u \<gamma>" "pt n (Running v) (\<gamma> t)"
  shows "goes_on n m s (disturbed (fst v) suffix (num_txns s) u) \<gamma> t (Call (conclude v suffix))"
proof -
  obtain i inc where v: "v = (i, inc)" by (cases v)
  let ?va = "insert (i, inc) (if suffix then {v. i \<le> fst v} else {})"
  have k: "i < n" "\<gamma> t = idle\<lparr>tk_guard := True, tk_own := Some (i, PExec inc)\<rparr>"
    using assms(3) v by auto
  have "txn_status s ! i = Executing inc" using own_only(3) [OF assms(2), of t i "PExec inc"] by (simp add: k)
  then have "Inv n m s (disturbed i suffix (num_txns s) u) (\<gamma>(t := \<gamma> t\<lparr>tk_val := ?va\<rparr>))"
    by (intro inv_disturb [OF assms(2,1)]) (auto simp: k disturbed_def idle_def split: if_splits)
  moreover have "ok_prog (conclude (i, inc) suffix) (Inv n m) blocked t (\<lambda>k p. pt n p k) (\<gamma> t\<lparr>tk_val := ?va\<rparr>)"
    by (rule ok_conclude [OF assms(1) k(1)]) (simp add: k idle_def)
  ultimately show ?thesis by (intro exI [of _ "\<gamma> t\<lparr>tk_val := ?va\<rparr>"]) (simp add: v ok_worker_def)
qed

lemma goes_on_accept:
  assumes "t < m" "Inv n m s u \<gamma>" "pt n (Validating v) (\<gamma> t)"
  shows "goes_on n m s u \<gamma> t (Call (give_up TaskGuard))"
proof -
  have k: "\<gamma> t = idle\<lparr>tk_guard := True, tk_task := True\<rparr>" using assms(3) by (cases v) auto
  from inv_untask [OF assms(2,1)] have "Inv n m s u (\<gamma>(t := \<gamma> t\<lparr>tk_task := False\<rparr>))" by (simp add: k)
  moreover have "ok_prog (give_up TaskGuard) (Inv n m) blocked t (\<lambda>k p. pt n p k) (\<gamma> t\<lparr>tk_task := False\<rparr>)"
    by (rule ok_give_up [OF assms(1)]) (simp_all add: k idle_def)
  ultimately show ?thesis by (intro exI [of _ "\<gamma> t\<lparr>tk_task := False\<rparr>"]) (simp add: ok_worker_def)
qed

lemma goes_on_abort:
  assumes "t < m" "Inv n m s u \<gamma>" "pt n (Aborted v) (\<gamma> t)"
  shows "goes_on n m s (u \<union> {fst v<..<num_txns s}) \<gamma> t (Call (abort v))"
proof -
  obtain i inc where v: "v = (i, inc)" by (cases v)
  have k: "i < n" "\<gamma> t = idle\<lparr>tk_guard := True, tk_own := Some (i, PAbort inc)\<rparr>"
    using assms(3) v by auto
  have "Inv n m s (u \<union> {i<..<num_txns s}) (\<gamma>(t := \<gamma> t\<lparr>tk_val := {v. i < fst v}\<rparr>))"
    by (intro inv_disturb [OF assms(2,1)]) (auto simp: k idle_def)
  moreover have "ok_prog (abort (i, inc)) (Inv n m) blocked t (\<lambda>k p. pt n p k) (\<gamma> t\<lparr>tk_val := {v. i < fst v}\<rparr>)"
    by (rule ok_abort [OF assms(1) k(1)]) (simp add: k idle_def)
  ultimately show ?thesis by (intro exI [of _ "\<gamma> t\<lparr>tk_val := {v. i < fst v}\<rparr>"]) (simp add: v ok_worker_def)
qed

lemma turn_keeps:
  assumes "t < m" "Inv n m s u \<gamma>" "pt n p (\<gamma> t)" "turn s u p w u'"
  shows "goes_on n m s u' \<gamma> t w"
  using assms(4)
proof cases
  case turn_next
  with assms(3) obtain ob where "\<gamma> t = idle\<lparr>tk_obs := ob\<rparr>" by auto
  with turn_next ok_take_next [OF assms(1) this] goes_on_same [OF assms(2), of t w] show ?thesis
    by (simp add: ok_worker_def)
next
  case (turn_execute v guard)
  with assms(3) goes_on_same [OF assms(2), of t w] show ?thesis by (cases v) (simp add: ok_worker_def)
next
  case (turn_depend dep v)
  with assms(3) ok_depend [OF assms(1)] goes_on_same [OF assms(2), of t w] show ?thesis
    by (cases v) (simp add: ok_worker_def)
next
  case (turn_reject v)
  with assms(3) ok_reject [OF assms(1)] goes_on_same [OF assms(2), of t w] show ?thesis
    by (cases v) (simp add: ok_worker_def)
qed (use assms(1-3) ok_resolve [OF assms(1)] goes_on_same [OF assms(2), of t w] goes_on_validating goes_on_woken
      goes_on_conclude goes_on_accept goes_on_abort in \<open>simp_all add: ok_worker_def [of _ _ _ _ "At Stopped"]
        ok_worker_def [of _ _ _ _ "Call (resolve _ _)"]\<close>)

interpretation workers: worker_invariant turn m "scheduler_new n" "{}" "Holding NoTask" "Inv n m" blocked "pt n" idle for n m
proof unfold_locales
  show "pt n (Holding NoTask) idle" by (simp, rule exI [of _ ONone]) (simp add: idle_def)
qed (rule Inv_scheduler_new, rule turn_keeps)

section \<open>Some worker can always go on\<close>

lemma turn_enabled:
  assumes "p \<noteq> Stopped" "\<And>v c. p = Waiting v c \<Longrightarrow> condvars s ! c"
  shows "\<exists>w u'. turn s u p w u'"
proof (cases p)
  case (Holding task)
  then show ?thesis
  proof (cases task)
    case (ExecutionTask v c guard)
    with Holding show ?thesis by (cases c) (use turn_execute turn_resolve in blast)+
  qed (use turn_validate turn_next turn_stop in blast)+
qed (use assms turn_conclude turn_wake turn_accept turn_abort in blast)+

lemma Inv_outside: "Inv n m s u \<gamma> \<Longrightarrow> m \<le> t \<Longrightarrow> \<gamma> t = idle"
  by (simp add: Inv_def tokens_ok_def)

lemma unlocked_or_free:
  assumes "workers.holds m n e \<gamma>" "\<nexists>e'. worker_step e e'" "t < m"
  shows "\<not> blocked (shared e) (\<gamma> t)"
proof
  assume "blocked (shared e) (\<gamma> t)"
  then obtain j where j: "j < length (txn_dependency (shared e))" "mx_locked (txn_dependency (shared e) ! j)"
    by (auto simp: blocked_def)
  from assms(1) have I: "Inv n m (shared e) (unvalidated e) \<gamma>" by (simp add: workers.holds_def)
  from Inv_locks [OF I] have "\<forall>j < length (map mx_locked (txn_dependency (shared e))).
      map mx_locked (txn_dependency (shared e)) ! j \<longrightarrow> (\<exists>t. (tk_lock \<circ> \<gamma>) t = Some j)"
    unfolding locks_ok_def by blast
  with j obtain t' where t': "tk_lock (\<gamma> t') = Some j" by auto
  have m: "t' < m" using Inv_outside [OF I, of t'] t' by (cases "t' < m") (auto simp: idle_def)
  with assms(1) have w: "ok_worker (Inv n m) blocked (pt n) t' (workers e ! t') (\<gamma> t')" "length (workers e) = m"
    by (simp_all add: workers.holds_def)
  show False
  proof (cases "workers e ! t'")
    case (At p)
    with w(1) t' show ?thesis
      by (cases "(n, p, \<gamma> t')" rule: pt.cases) (auto simp: ok_worker_def idle_def)
  next
    case (Call c)
    with w(1) have c: "ok_prog c (Inv n m) blocked t' (\<lambda>k p. pt n p k) (\<gamma> t')" by (simp add: ok_worker_def)
    have "c \<noteq> Crash" using c by auto
    have "t' < length (workers e)" using w(2) m by simp
    from stuck_call [OF assms(2) this Call \<open>c \<noteq> Crash\<close>] obtain f where f: "c = Act f" "f (shared e) = None" .
    note wait = ok_prog_wait [OF c [unfolded f(1)]]
    from wait [OF I refl f(2)] t' show ?thesis by (simp add: blocked_def)
  qed
qed

lemma stuck_point:
  assumes "workers.holds m n e \<gamma>" "\<nexists>e'. worker_step e e'" "t < m"
  shows "workers e ! t = At Stopped \<or> (\<exists>v c. workers e ! t = At (Waiting v c) \<and> \<not> condvars (shared e) ! c)"
proof -
  have m: "t < length (workers e)" and I: "Inv n m (shared e) (unvalidated e) \<gamma>"
    and w: "ok_worker (Inv n m) blocked (pt n) t (workers e ! t) (\<gamma> t)"
    using assms(1,3) by (auto simp: workers.holds_def)
  show ?thesis
  proof (cases "workers e ! t")
    case (At p)
    then have "\<not> turn (shared e) (unvalidated e) p w' u" for w' u
      using step_turn [OF m At] assms(2) by blast
    then show ?thesis
      unfolding At worker.inject using turn_enabled by blast
  next
    case (Call c)
    with w have c: "ok_prog c (Inv n m) blocked t (\<lambda>k p. pt n p k) (\<gamma> t)" by (simp add: ok_worker_def)
    have "c \<noteq> Crash" using c by auto
    from stuck_call [OF assms(2) m Call this] obtain f where f: "c = Act f" "f (shared e) = None" .
    note wait = ok_prog_wait [OF c [unfolded f(1)]]
    from wait [OF I refl f(2)] unlocked_or_free [OF assms] show ?thesis by simp
  qed
qed

lemma waiting_all:
  assumes I: "Inv n m s u \<gamma>" and m: "0 < m"
    and w: "\<And>t. t < m \<Longrightarrow> \<exists>i inc c. \<gamma> t = idle\<lparr>tk_guard := True, tk_own := Some (i, PWait inc c)\<rparr> \<and> \<not> condvars s ! c"
  shows False
proof -
  note out = Inv_outside [OF I]
  have k: "(\<exists>i inc c. \<gamma> t = idle\<lparr>tk_guard := True, tk_own := Some (i, PWait inc c)\<rparr>) \<or> \<gamma> t = idle" for t
    using w [of t] out [of t] not_less by blast
  have bare: "tk_exec (\<gamma> t) = {}" "tk_deps (\<gamma> t) = []" "tk_notify (\<gamma> t) = None" "tk_taking (\<gamma> t) = None" for t
    using k [of t] by (auto simp: idle_def)
  have owner: "t < m" if "tk_own (\<gamma> t) = Some x" for t x
    using that out [of t] by (cases "t < m") (auto simp: idle_def)
  define W where "W = {i. \<exists>t ph. tk_own (\<gamma> t) = Some (i, ph)}"
  obtain t0 where "t0 < m" "low (execution_idx s) (tk_own (\<gamma> t0)) (tk_grab (\<gamma> t0))"
    using Inv_low [OF I] m unfolding low_ok_def by auto
  with w [of t0] obtain i0 inc0 c0 where t0: "tk_own (\<gamma> t0) = Some (i0, PWait inc0 c0)" "i0 < execution_idx s"
    unfolding low_def by auto
  then have "i0 \<in> W" by (auto simp: W_def)
  then obtain i where i: "i \<in> W" "\<And>j. j \<in> W \<Longrightarrow> i \<le> j"
    using LeastI [of "\<lambda>j. j \<in> W" i0] Least_le [of "\<lambda>j. j \<in> W"] by blast
  have low: "i < execution_idx s" using i(2) [OF \<open>i0 \<in> W\<close>] t0(2) by simp
  obtain t ph where "tk_own (\<gamma> t) = Some (i, ph)" using i(1) by (auto simp: W_def)
  with owner w [of t] obtain inc c where t: "tk_own (\<gamma> t) = Some (i, PWait inc c)" and c: "\<not> condvars s ! c"
    by fastforce
  have ready: False if "txn_status s ! j = ReadyToExecute inc' oc" "j \<le> i" "j < n" for j inc' oc
    using Inv_exec [OF I] that low bare(1) unfolding exec_ok_def by fastforce
  note own = own_only [OF I t]
  from own(3) c consider "txn_status s ! i = Suspended inc c" | "txn_status s ! i = ReadyToExecute inc (Some c)"
    | "txn_status s ! i = Executing inc" by auto
  then show False
  proof cases
    case 1
    with t have "waits (txn_status s) (tk_own \<circ> \<gamma>) i" unfolding waits_def by auto
    then obtain p where p: "i \<in> set (queue (map mx_data (txn_dependency s)) (tk_deps \<circ> \<gamma>) p)"
      using Inv_queues [OF I] unfolding queues_ok_def by blast
    with bare(2) obtain j where j: "j < length (txn_dependency s)" "i \<in> set (mx_data (txn_dependency s ! j))"
      by (cases p) (auto split: if_splits)
    have jn: "j < n" "j < i"
      using j Inv_size [OF I] Inv_queues [OF I] unfolding queues_ok_def by auto
    have "\<forall>inc. txn_status s ! j \<noteq> Executed inc"
      using Inv_pending [OF I] j bare(4) unfolding pending_ok_def unfinished_def by force
    moreover have "\<not> held (txn_status s ! j)"
      using owners_held [OF Inv_owners [OF I] jn(1)] i(2) [of j] jn(2) by (auto simp: W_def)
    ultimately show False
      using ready [of j] jn by (cases "txn_status s ! j" rule: held.cases) auto
  next
    case 2
    then show False using ready own(2) by blast
  next
    case 3
    then show False
      using notify_wakes [OF Inv_notify [OF I], of t i inc c] t c bare(3) by simp
  qed
qed

lemma never_stuck:
  assumes "workers.holds m n e \<gamma>" "t < m" "workers e ! t \<noteq> At Stopped"
  shows "\<exists>e'. worker_step e e'"
proof (rule ccontr)
  assume stuck: "\<nexists>e'. worker_step e e'"
  have I: "Inv n m (shared e) (unvalidated e) \<gamma>" using assms(1) by (simp add: workers.holds_def)
  have pt: "pt n p (\<gamma> t)" if "workers e ! t = At p" "t < m" for t p
    using assms(1) that by (force simp: workers.holds_def ok_worker_def)
  obtain v c where v: "workers e ! t = At (Waiting v c)"
    using stuck_point [OF assms(1) stuck assms(2)] assms(3) by blast
  have "tk_own (\<gamma> t) \<noteq> None" using pt [OF v assms(2)] by (cases v) auto
  have "workers e ! t' \<noteq> At Stopped" if "t' < m" for t'
  proof
    assume "workers e ! t' = At Stopped"
    from pt [OF this that] Inv_seen [OF I, of t'] have "final n (shared e) (unvalidated e) \<gamma>" by simp
    with \<open>tk_own (\<gamma> t) \<noteq> None\<close> show False by (simp add: final_def harmless_def)
  qed
  then have "\<exists>i inc c. \<gamma> t = idle\<lparr>tk_guard := True, tk_own := Some (i, PWait inc c)\<rparr> \<and> \<not> condvars (shared e) ! c"
    if "t < m" for t
    using stuck_point [OF assms(1) stuck that] pt [OF _ that] that by force
  with waiting_all [OF I] assms(2) show False by fastforce
qed

section \<open>A run of one worker\<close>

abbreviation one :: "nat \<Rightarrow> nat \<Rightarrow> nat \<Rightarrow> bool \<Rightarrow> TransactionStatus \<Rightarrow> Scheduler" where
  "one ei vi tasks d st \<equiv> \<lparr>num_txns = 1, execution_idx = ei, validation_idx = vi, decrease_cnt = 0, num_active_tasks = tasks,
    done_marker = d, txn_dependency = [\<lparr>mx_locked = False, mx_data = []\<rparr>], txn_status = [st], condvars = []\<rparr>"

lemma solo_run: "reachable 1 1 (solo (one 1 1 0 True (Executed 0)) Stopped {})"
proof -
  have runs: "run take_next (one 0 0 0 False (ReadyToExecute 0 None)) =
      (Some (Ok (Holding (ExecutionTask (0, 0) None TaskGuard)) :: (unit, point) outcome), one 1 0 1 False (Executing 0))"
    "run (conclude (0, 0) True) (one 1 0 1 False (Executing 0)) =
      (Some (Ok (Holding NoTask) :: (unit, point) outcome), one 1 0 0 False (Executed 0))"
    "run take_next (one 1 0 0 False (Executed 0)) =
      (Some (Ok (Holding (ValidationTask (0, 0) TaskGuard)) :: (unit, point) outcome), one 1 1 1 False (Executed 0))"
    "run (give_up TaskGuard) (one 1 1 1 False (Executed 0)) =
      (Some (Ok (Holding NoTask) :: (unit, point) outcome), one 1 1 0 False (Executed 0))"
    "run take_next (one 1 1 0 False (Executed 0)) =
      (Some (Ok (Holding NoTask) :: (unit, point) outcome), one 1 1 0 True (Executed 0))"
    "run take_next (one 1 1 0 True (Executed 0)) =
      (Some (Ok (Holding Done) :: (unit, point) outcome), one 1 1 0 True (Executed 0))"
    by code_simp+
  have "worker_step\<^sup>*\<^sup>* (executor_new 1 1) (solo (one 0 0 0 False (ReadyToExecute 0 None)) (Holding NoTask) {})"
    by (simp add: executor_new_def start_def scheduler_new_def)
  note solo_turn [OF solo_call [OF this turn_next runs(1)] turn_execute]
  note solo_call [OF this turn_conclude runs(2)]
  note solo_turn [OF solo_call [OF this turn_next runs(3)] turn_validate]
  note solo_call [OF this turn_accept runs(4)]
  note solo_call [OF this turn_next runs(5)]
  note solo_turn [OF solo_call [OF this turn_next runs(6)] turn_stop]
  then show ?thesis by (simp add: reachable_def checked_def disturbed_def)
qed

section \<open>Theorems\<close>

text \<open>The transaction a worker executes, waits with or aborts.\<close>

fun executes :: "point \<Rightarrow> TxnIndex option" where
  "executes (Holding (ExecutionTask v None guard)) = Some (fst v)"
| "executes (Running v) = Some (fst v)"
| "executes (Waiting v c) = Some (fst v)"
| "executes (Aborted v) = Some (fst v)"
| "executes _ = None"

lemma pt_executes: "pt n p k \<Longrightarrow> executes p = map_option fst (tk_own k)"
  by (cases "(n, p, k)" rule: pt.cases) (auto simp: idle_def)

lemma reachable_points:
  assumes "reachable n m e"
  obtains \<gamma> where "Inv n m (shared e) (unvalidated e) \<gamma>"
    "\<And>t p. t < length (workers e) \<Longrightarrow> workers e ! t = At p \<Longrightarrow> pt n p (\<gamma> t)"
proof -
  obtain \<gamma> where h: "workers.holds m n e \<gamma>" using workers.holds_reachable assms unfolding reachable_def executor_new_def by blast
  have "pt n p (\<gamma> t)" if t: "t < length (workers e)" "workers e ! t = At p" for t p
  proof -
    from t h have "ok_worker (Inv n m) blocked (pt n) t (At p) (\<gamma> t)" by (metis workers.holds_def)
    then show ?thesis by (simp add: ok_worker_def)
  qed
  moreover have "Inv n m (shared e) (unvalidated e) \<gamma>" using h by (simp add: workers.holds_def)
  ultimately show thesis using that by blast
qed

lemma final_point:
  assumes "final n s u \<gamma>" "pt n p (\<gamma> t)"
  shows "executes p = None" "p \<noteq> Validating v"
proof -
  have k: "tk_own (\<gamma> t) = None" "\<not> tk_task (\<gamma> t)" using assms(1) by (auto simp: final_def harmless_def)
  with pt_executes [OF assms(2)] show "executes p = None" by simp
  from k(2) assms(2) show "p \<noteq> Validating v" by (cases v) auto
qed

lemma executes_unique:
  assumes "reachable n m e" "t < length (workers e)" "workers e ! t = At p" "executes p = Some i"
    and "t' < length (workers e)" "workers e ! t' = At p'" "executes p' = Some i"
  shows "t' = t"
proof -
  obtain \<gamma> where I: "Inv n m (shared e) (unvalidated e) \<gamma>"
    and pt: "\<And>t p. t < length (workers e) \<Longrightarrow> workers e ! t = At p \<Longrightarrow> pt n p (\<gamma> t)"
    using reachable_points [OF assms(1)] by blast
  obtain ph where ph: "tk_own (\<gamma> t) = Some (i, ph)"
    using pt_executes [OF pt [OF assms(2,3)]] assms(4) by (cases "tk_own (\<gamma> t)") auto
  obtain ph' where "tk_own (\<gamma> t') = Some (i, ph')"
    using pt_executes [OF pt [OF assms(5,6)]] assms(7) by (cases "tk_own (\<gamma> t')") auto
  then show ?thesis by (rule own_only(1) [OF I ph])
qed

lemma executes_held:
  assumes "reachable n m e" "t < length (workers e)" "workers e ! t = At p" "executes p = Some i"
  shows "i < n \<and> held (txn_status (shared e) ! i)"
proof -
  obtain \<gamma> where I: "Inv n m (shared e) (unvalidated e) \<gamma>"
    and pt: "\<And>t p. t < length (workers e) \<Longrightarrow> workers e ! t = At p \<Longrightarrow> pt n p (\<gamma> t)"
    using reachable_points [OF assms(1)] by blast
  obtain ph where ph: "tk_own (\<gamma> t) = Some (i, ph)"
    using pt_executes [OF pt [OF assms(2,3)]] assms(4) by (cases "tk_own (\<gamma> t)") auto
  from own_only(2) [OF I ph] phase_held [OF own_only(3) [OF I ph]] show ?thesis by simp
qed

lemma owner_status:
  assumes "reachable n m e" "t < length (workers e)"
  shows "workers e ! t = At (Running (i, inc)) \<Longrightarrow> i < n \<and> txn_status (shared e) ! i = Executing inc"
    "workers e ! t = At (Aborted (i, inc)) \<Longrightarrow> i < n \<and> txn_status (shared e) ! i = Aborting inc"
proof -
  obtain \<gamma> where I: "Inv n m (shared e) (unvalidated e) \<gamma>"
    and pt: "\<And>t p. t < length (workers e) \<Longrightarrow> workers e ! t = At p \<Longrightarrow> pt n p (\<gamma> t)"
    using reachable_points [OF assms(1)] by blast
  show "i < n \<and> txn_status (shared e) ! i = Executing inc" if "workers e ! t = At (Running (i, inc))"
    using own_only(2,3) [OF I, of t i "PExec inc"] pt [OF assms(2) that] by simp
  show "i < n \<and> txn_status (shared e) ! i = Aborting inc" if "workers e ! t = At (Aborted (i, inc))"
    using own_only(2,3) [OF I, of t i "PAbort inc"] pt [OF assms(2) that] by simp
qed

lemma reachable_size:
  assumes "reachable n m e"
  shows "num_txns (shared e) = n" "length (txn_status (shared e)) = n" "length (workers e) = m"
proof -
  obtain \<gamma> where "workers.holds m n e \<gamma>" using workers.holds_reachable assms unfolding reachable_def executor_new_def by blast
  then show "num_txns (shared e) = n" "length (txn_status (shared e)) = n" "length (workers e) = m"
    using Inv_size [of n m "shared e" "unvalidated e" \<gamma>] by (simp_all add: workers.holds_def)
qed

lemma stopped_final:
  assumes "reachable n m e" "t < length (workers e)" "workers e ! t = At Stopped"
  shows "(\<forall>i < n. \<exists>inc. txn_status (shared e) ! i = Executed inc) \<and> (\<forall>i < n. i \<notin> unvalidated e)"
proof -
  obtain \<gamma> where I: "Inv n m (shared e) (unvalidated e) \<gamma>"
    and pt: "\<And>t p. t < length (workers e) \<Longrightarrow> workers e ! t = At p \<Longrightarrow> pt n p (\<gamma> t)"
    using reachable_points [OF assms(1)] by blast
  from pt [OF assms(2,3)] Inv_seen [OF I, of t] show ?thesis by (simp add: final_def)
qed

text \<open>C7. No worker of the parallel executor panics: whatever the transactions do, whatever the
  validations find and however the accesses of the workers interleave, no assertion of the scheduler
  fails, no guard is dropped twice and no index is out of range.\<close>

theorem no_worker_panics:
  assumes "reachable n m e" "t < length (workers e)"
  shows "workers e ! t \<noteq> Call Crash"
  using workers.no_crash assms unfolding reachable_def executor_new_def by blast

theorem no_worker_panics_witness:
  "workers (solo (one 1 1 0 True (Executed 0)) Stopped {}) ! 0 \<noteq> Call Crash"
  using no_worker_panics [OF solo_run, of 0] by simp

text \<open>C5. The done marker means that the block is finished: once it is set, or one worker has stopped,
  every transaction is executed, none needs a validation, and no worker executes, waits for, checks
  or aborts a transaction.  This is an invariant, so it remains so.\<close>

theorem done_is_final:
  assumes "reachable n m e" "done_marker (shared e) \<or> At Stopped \<in> set (workers e)"
  shows "(\<forall>i < n. \<exists>inc. txn_status (shared e) ! i = Executed inc) \<and> (\<forall>i < n. i \<notin> unvalidated e) \<and>
    (\<forall>v c. At (Running v) \<notin> set (workers e) \<and> At (Waiting v c) \<notin> set (workers e) \<and>
      At (Validating v) \<notin> set (workers e) \<and> At (Aborted v) \<notin> set (workers e))"
proof -
  obtain \<gamma> where I: "Inv n m (shared e) (unvalidated e) \<gamma>"
    and pt: "\<And>t p. t < length (workers e) \<Longrightarrow> workers e ! t = At p \<Longrightarrow> pt n p (\<gamma> t)"
    using reachable_points [OF assms(1)] by blast
  have at: "\<exists>t. pt n p (\<gamma> t)" if "At p \<in> set (workers e)" for p
    using that pt by (force simp: in_set_conv_nth)
  have f: "final n (shared e) (unvalidated e) \<gamma>"
    using assms(2)
  proof
    assume "At Stopped \<in> set (workers e)"
    from at [OF this] obtain t where "pt n Stopped (\<gamma> t)" ..
    with Inv_seen [OF I, of t] show ?thesis by simp
  qed (use Inv_ended [OF I] in \<open>simp add: ended_ok_def\<close>)
  have "At p \<notin> set (workers e)" if "executes p \<noteq> None \<or> p = Validating v" for p v
    using at [of p] final_point(1) [OF f, of p] final_point(2) [OF f, of p _ v] that by auto
  then have "At (Running v) \<notin> set (workers e)" "At (Waiting v c) \<notin> set (workers e)"
    "At (Validating v) \<notin> set (workers e)" "At (Aborted v) \<notin> set (workers e)" for v c by simp_all
  with f show ?thesis by (simp add: final_def)
qed

theorem done_is_final_witness:
  "let e = solo (one 1 1 0 True (Executed 0)) Stopped {} in
   reachable 1 1 e \<and> done_marker (shared e) \<and> (\<forall>i < 1. i \<notin> unvalidated e)"
  using done_is_final [OF solo_run] solo_run by (simp add: Let_def)

text \<open>C6. The workers never deadlock: in every reachable state some worker can take a step unless all of
  them have stopped.  Waiting for a dependency and for the mutex of a dependency list included, the
  scheduler always leaves somebody who can go on.\<close>

theorem workers_never_stuck:
  assumes "reachable n m e" "t < length (workers e)" "workers e ! t \<noteq> At Stopped"
  shows "\<exists>e'. worker_step e e'"
proof -
  obtain \<gamma> where h: "workers.holds m n e \<gamma>" using workers.holds_reachable assms(1) unfolding reachable_def executor_new_def by blast
  then have "t < m" using assms(2) by (simp add: workers.holds_def)
  from never_stuck [OF h this assms(3)] show ?thesis .
qed

theorem workers_never_stuck_witness: "\<exists>e'. worker_step (executor_new 3 2) e'"
  by (rule workers_never_stuck [of 3 2 _ 0]) (simp_all add: reachable_def executor_new_def start_def)

text \<open>C8. A transaction has one worker at a time: two workers that execute, wait with or abort the same
  transaction are the same worker, and meanwhile the transaction is neither executed nor free to be
  taken for execution.\<close>

theorem one_worker_per_transaction:
  assumes "reachable n m e" "t < length (workers e)" "workers e ! t = At p" "executes p = Some i"
    and "t' < length (workers e)" "workers e ! t' = At p'" "executes p' = Some i"
  shows "t' = t \<and> i < n \<and>
    (\<forall>inc. txn_status (shared e) ! i \<noteq> Executed inc \<and> txn_status (shared e) ! i \<noteq> ReadyToExecute inc None)"
  using executes_unique [OF assms(1,2,3,4,5,6,7)] executes_held [OF assms(1-4)] by auto

lemma solo_start: "reachable 1 1 (solo (one 1 0 1 False (Executing 0)) (Running (0, 0)) {})"
proof -
  have "run take_next (one 0 0 0 False (ReadyToExecute 0 None)) =
      (Some (Ok (Holding (ExecutionTask (0, 0) None TaskGuard)) :: (unit, point) outcome), one 1 0 1 False (Executing 0))"
    by code_simp
  moreover have "worker_step\<^sup>*\<^sup>* (executor_new 1 1) (solo (one 0 0 0 False (ReadyToExecute 0 None)) (Holding NoTask) {})"
    by (simp add: executor_new_def start_def scheduler_new_def)
  ultimately show ?thesis
    using solo_turn [of turn, OF solo_call [of turn] turn_execute] turn_next unfolding reachable_def by blast
qed

theorem one_worker_per_transaction_witness:
  "let e = solo (one 1 0 1 False (Executing 0)) (Running (0, 0)) {} in
   reachable 1 1 e \<and> executes (Running (0, 0)) = Some 0 \<and> (\<forall>inc. txn_status (shared e) ! 0 \<noteq> Executed inc)"
  using one_worker_per_transaction [OF solo_start, of 0 "Running (0, 0)" 0 0] solo_start by (simp add: Let_def)

end
