(* ===== verification/Scheduler_Status.thy ===== *)
theory Scheduler_Status
  imports Scheduler
begin

text \<open>
  How the status of a transaction changes
  (\<open>src/aptos-move/block-executor/src/scheduler.rs\<close>, the diagram at
  \<open>TransactionStatus\<close>): every step of every worker leaves each status alone or
  moves it along one edge of the diagram, so incarnation numbers never decrease.
\<close>

section \<open>The diagram\<close>

fun transition :: "TransactionStatus \<Rightarrow> TransactionStatus \<Rightarrow> bool" where
  "transition (ReadyToExecute i c) (Executing j) \<longleftrightarrow> j = i"
| "transition (Executing i) (Suspended j c) \<longleftrightarrow> j = i"
| "transition (Suspended i c) (ReadyToExecute j c') \<longleftrightarrow> j = i \<and> c' = Some c"
| "transition (Executing i) (Executed j) \<longleftrightarrow> j = i"
| "transition (Executed i) (Aborting j) \<longleftrightarrow> j = i"
| "transition (Aborting i) (ReadyToExecute j c) \<longleftrightarrow> j = i + 1 \<and> c = None"
| "transition _ _ \<longleftrightarrow> False"

primrec incarnation_of :: "TransactionStatus \<Rightarrow> Incarnation" where
  "incarnation_of (ReadyToExecute i c) = i"
| "incarnation_of (Executing i) = i"
| "incarnation_of (Suspended i c) = i"
| "incarnation_of (Executed i) = i"
| "incarnation_of (Aborting i) = i"

definition diagram :: "Scheduler \<Rightarrow> Scheduler \<Rightarrow> bool" where
  "diagram s s' \<longleftrightarrow> length (txn_status s') = length (txn_status s) \<and>
     (\<forall>i < length (txn_status s). txn_status s' ! i = txn_status s ! i \<or>
        transition (txn_status s ! i) (txn_status s' ! i))"

lemma transition_incarnation: "transition x y \<Longrightarrow> incarnation_of x \<le> incarnation_of y"
  by (cases "(x, y)" rule: transition.cases) auto

lemma diagram_quiet: "txn_status s' = txn_status s \<Longrightarrow> diagram s s'"
  by (simp add: diagram_def)

lemma diagram_update:
  "i < length (txn_status s) \<Longrightarrow> x = txn_status s ! i \<or> transition (txn_status s ! i) x \<Longrightarrow>
     diagram s (s\<lparr>txn_status := (txn_status s)[i := x]\<rparr>)"
  by (auto simp: diagram_def nth_list_update)

text \<open>
  Before its execution ends a transaction is ready, executing or suspended.  A
  quiet change keeps every status, a calm one may also move a transaction
  between these three with the same incarnation.
\<close>

fun live :: "TransactionStatus \<Rightarrow> bool" where
  "live (Executed i) = False"
| "live (Aborting i) = False"
| "live _ = True"

definition calm :: "Scheduler \<Rightarrow> Scheduler \<Rightarrow> bool" where
  "calm s s' \<longleftrightarrow> diagram s s' \<and>
     (\<forall>i < length (txn_status s). txn_status s' ! i = txn_status s ! i \<or>
        live (txn_status s ! i) \<and> live (txn_status s' ! i))"

lemma calm_quiet: "txn_status s' = txn_status s \<Longrightarrow> calm s s'"
  by (simp add: calm_def diagram_quiet)

lemma calm_update:
  "i < length (txn_status s) \<Longrightarrow> transition (txn_status s ! i) x \<Longrightarrow> live (txn_status s ! i) \<Longrightarrow> live x \<Longrightarrow>
     calm s (s\<lparr>txn_status := (txn_status s)[i := x]\<rparr>)"
  by (auto simp: calm_def nth_list_update intro: diagram_update)

section \<open>The methods\<close>

lemma obeys_status:
  assumes "\<And>s. R s s"
    and "\<And>s x st'. i < length (txn_status s) \<Longrightarrow> f (txn_status s ! i) = Some (x, st') \<Longrightarrow>
      R s (s\<lparr>txn_status := (txn_status s)[i := st']\<rparr>)"
  shows "obeys R (with_status i f)"
  unfolding with_status_def
  by (rule obeys_attempt) (auto split: if_splits intro!: assms)

lemma calm_quiet_methods [obeys_rules]:
  "obeys calm (load g)" "obeys calm guard_new" "obeys calm (drop_guard guard)" "obeys calm new_condvar"
  "obeys calm (lock_dependency i)" "obeys calm (unlock_dependency i)" "obeys calm (push_dependency i j)"
  "obeys calm (take_dependencies i)" "obeys calm (notify_resolved c)" "obeys calm (is_executed i)"
  "obeys calm (atomic (\<lambda>s. (f s, s\<lparr>validation_idx := v s\<rparr>)))"
  "obeys calm (atomic (\<lambda>s. (g' s, s\<lparr>execution_idx := v s\<rparr>)))"
  "obeys calm (atomic (\<lambda>s. (h s, s\<lparr>decrease_cnt := v s\<rparr>)))"
  "obeys calm (atomic (\<lambda>s. (k s, s\<lparr>done_marker := d s\<rparr>)))"
  unfolding load_def guard_new_def drop_guard_def new_condvar_def unlock_dependency_def push_dependency_def
    notify_resolved_def is_executed_def lock_dependency_def take_dependencies_def
  by (auto simp: set_dependency_def Let_def simp del: obeys.simps split: if_splits
      intro!: obeys_atomic obeys_attempt obeys_Act calm_quiet) (auto simp: calm_quiet)

lemma calm_statuses [obeys_rules]: "obeys calm (suspend i c)" "obeys calm (resume i)"
  unfolding suspend_def resume_def
  by (rule obeys_status; auto simp: calm_quiet split: TransactionStatus.splits intro!: calm_update)+

lemma calm_try_incarnate [obeys_rules]: "obeys calm (try_incarnate i)"
  unfolding try_incarnate_def
  by (rule obeys_atomic) (auto split: TransactionStatus.splits intro!: calm_update intro: calm_quiet)

lemma calm_resume_all [obeys_rules]: "obeys calm (resume_all ds)"
  by (induction ds) (auto intro!: obeys_rules simp del: obeys.simps)

lemma calm_methods [obeys_rules]:
  "obeys calm check_done" "obeys calm (decrease_validation_idx i)" "obeys calm (decrease_execution_idx i)"
  "obeys calm (wait_for_dependency i j)"
  unfolding check_done_def decrease_validation_idx_def decrease_execution_idx_def wait_for_dependency_def
  by (intro obeys_rules)+

lemma calm_next [obeys_rules]:
  "obeys calm try_validate_next_version" "obeys calm try_execute_next_version"
  unfolding try_validate_next_version_def try_execute_next_version_def
  by (intro obeys_rules)+

lemma calm_calls [obeys_rules]:
  "obeys calm take_next" "obeys calm (resolve c guard)" "obeys calm (give_up guard)" "obeys calm (depend v j)"
  unfolding take_next_def next_task_round_def done_loaded_def resolve_def give_up_def depend_def
  by (intro obeys_rules)+

lemma calm_diagram: "obeys calm p \<Longrightarrow> obeys diagram p"
  by (erule obeys_mono) (simp add: calm_def)

lemma diagram_statuses [obeys_rules]:
  "obeys diagram (set_executed_status i inc)" "obeys diagram (set_aborted_status i inc)"
  "obeys diagram (try_abort i inc)"
  unfolding set_executed_status_def set_aborted_status_def try_abort_def
  by (rule obeys_status; auto simp: diagram_quiet split: if_splits intro!: diagram_update)+

lemma diagram_turn:
  assumes "turn s u p (Call c) u'"
  shows "obeys diagram c"
  using assms
proof cases
  case (turn_conclude v suffix)
  show ?thesis unfolding turn_conclude conclude_def finish_execution_def
    by (rule obeys_bind, rule obeys_bind, rule diagram_statuses) (rule calm_diagram, (intro obeys_rules)+)+
next
  case (turn_reject v)
  show ?thesis unfolding turn_reject reject_def
    by (rule obeys_bind, rule diagram_statuses, rule calm_diagram, (intro obeys_rules)+)
next
  case (turn_abort v)
  show ?thesis unfolding turn_abort abort_def finish_abort_def
    by (rule obeys_bind, rule obeys_bind, rule diagram_statuses) (rule calm_diagram, (intro obeys_rules)+)+
qed (auto intro!: calm_diagram obeys_rules simp del: obeys.simps)

section \<open>Every step\<close>

lemma calls_obey:
  assumes "reachable n m e" "t < length (workers e)" "workers e ! t = Call c"
  shows "obeys diagram c"
proof -
  have "\<forall>c. Call c \<in> set (workers e) \<longrightarrow> obeys diagram c"
    using assms(1) unfolding reachable_def
  proof (induction rule: rtranclp_induct)
    case base
    show ?case by (simp add: executor_new_def start_def)
  next
    case (step e e')
    from step.hyps(2) show ?case
    proof cases
      case (step_turn t p w u)
      with step.IH show ?thesis by (auto dest!: subsetD [OF set_update_subset_insert] diagram_turn)
    next
      case (step_act t f p s)
      have "obeys diagram p" using step.IH step_act nth_mem obeys_act by metis
      with step.IH step_act(1) show ?thesis by (auto dest!: subsetD [OF set_update_subset_insert])
    next
      case (step_return t p)
      with step.IH show ?thesis by (auto dest!: subsetD [OF set_update_subset_insert])
    qed
  qed
  with assms(2,3) show ?thesis by (metis nth_mem)
qed

text \<open>C9. Every step of a worker leaves the status of each transaction as it is or moves it along one
  edge of the status diagram: ready, executing, suspended and ready again or executed, aborting, ready
  with the next incarnation.  So the incarnation number of a transaction never decreases.\<close>

theorem status_diagram:
  assumes "reachable n m e" "worker_step e e'" "i < length (txn_status (shared e))"
  shows "(txn_status (shared e') ! i = txn_status (shared e) ! i \<or>
      transition (txn_status (shared e) ! i) (txn_status (shared e') ! i)) \<and>
    incarnation_of (txn_status (shared e) ! i) \<le> incarnation_of (txn_status (shared e') ! i)"
proof -
  have "diagram (shared e) (shared e')"
    using assms(2)
  proof cases
    case (step_act t f p s)
    from obeys_act [OF calls_obey [OF assms(1) step_act(2,3)] step_act(4)] step_act(1) show ?thesis by simp
  qed (auto simp: diagram_def)
  with assms(3) transition_incarnation show ?thesis by (force simp: diagram_def)
qed

theorem status_diagram_witness:
  "let e = executor_new 2 2; e' = e\<lparr>workers := (workers e)[0 := Call take_next], ghost := {}\<rparr> in
   worker_step e e' \<and> incarnation_of (txn_status (shared e) ! 1) \<le> incarnation_of (txn_status (shared e') ! 1)"
proof -
  let ?e = "executor_new 2 2"
  let ?e' = "?e\<lparr>workers := (workers ?e)[0 := Call take_next], ghost := {}\<rparr>"
  have r: "reachable 2 2 ?e" by (simp add: reachable_def)
  have s: "worker_step ?e ?e'"
    by (rule step_turn [where p = "Holding NoTask"]) (simp_all add: executor_new_def start_def turn_next)
  show ?thesis
    using status_diagram [OF r s, of 1] s by (simp add: Let_def executor_new_def start_def scheduler_new_def)
qed

section \<open>Tasks to validate were executed\<close>

text \<open>Whether an execution of the transaction has ever ended; this stays so.\<close>

definition once :: "Scheduler \<Rightarrow> TxnIndex \<Rightarrow> bool" where
  "once s i \<longleftrightarrow> i < length (txn_status s) \<and> (\<not> live (txn_status s ! i) \<or> 0 < incarnation_of (txn_status s ! i))"

lemma once_stable:
  assumes "diagram s s'" "once s i"
  shows "once s' i"
proof -
  have "txn_status s' ! i = txn_status s ! i \<or> transition (txn_status s ! i) (txn_status s' ! i)"
    "length (txn_status s') = length (txn_status s)"
    using assms by (auto simp: diagram_def once_def)
  with assms(2) show ?thesis
    by (cases "(txn_status s ! i, txn_status s' ! i)" rule: transition.cases) (auto simp: once_def)
qed

text \<open>
  A program that may rely on a set of executed transactions, and learns about
  more of them with every action.
\<close>

primrec tells :: "(Scheduler, 'a) prog \<Rightarrow> ('a \<Rightarrow> TxnIndex set \<Rightarrow> bool) \<Rightarrow> TxnIndex set \<Rightarrow> bool" where
  "tells (Return x) P K \<longleftrightarrow> P x K"
| "tells Crash P K \<longleftrightarrow> True"
| "tells (Act f) P K \<longleftrightarrow> (\<forall>s. case map_option (map_prod tells id) (f s) of
     None \<Rightarrow> True | Some (T, s') \<Rightarrow> T P (K \<union> {i. once s' i}))"

lemma tells_act: "tells (Act f) P K \<Longrightarrow> f s = Some (p, s') \<Longrightarrow> tells p P (K \<union> {i. once s' i})"
  by (auto dest!: spec [of _ s])

lemma tells_Act: "(\<And>s p s'. f s = Some (p, s') \<Longrightarrow> tells p P (K \<union> {i. once s' i})) \<Longrightarrow> tells (Act f) P K"
  by (auto split: option.split)

lemma tells_any: "(\<And>x K'. K \<subseteq> K' \<Longrightarrow> P x K') \<Longrightarrow> tells p P K"
proof (induction p arbitrary: K)
  case (Act f)
  show ?case
  proof (rule tells_Act)
    fix s p s' assume "f s = Some (p, s')"
    then show "tells p P (K \<union> {i. once s' i})"
      using Act.IH [of "Some (p, s')" "(p, s')" p] Act.prems
      by (metis Un_subset_iff option.set_intros prod_set_simps(1) rangeI singletonI)
  qed
qed auto

lemma tells_mono:
  assumes "tells p P K" "\<And>x K'. K \<subseteq> K' \<Longrightarrow> P x K' \<Longrightarrow> Q x K'"
  shows "tells p Q K"
  using assms
proof (induction p arbitrary: K)
  case (Act f)
  show ?case
  proof (rule tells_Act)
    fix s p s' assume a: "f s = Some (p, s')"
    show "tells p Q (K \<union> {i. once s' i})"
      using tells_act [OF Act.prems(1) a] Act.IH [of "Some (p, s')" "(p, s')" p] Act.prems(2) a
      by (metis Un_subset_iff option.set_intros prod_set_simps(1) rangeI singletonI)
  qed
qed auto

lemma tells_bind:
  assumes "tells p (\<lambda>x. tells (c x) P) K"
  shows "tells (pbind p c) P K"
  using assms
proof (induction p arbitrary: K)
  case (Act f)
  have "tells (pbind p c) P (K \<union> {i. once s' i})" if "f s = Some (p, s')" for s p s'
    using tells_act [OF Act.prems that] Act.IH [of "Some (p, s')" "(p, s')" p] that
    by (metis option.set_intros prod_set_simps(1) rangeI singletonI)
  then show ?case by (auto split: option.split)
qed auto

lemma tells_then:
  "(\<And>x K'. K \<subseteq> K' \<Longrightarrow> tells (c x) P K') \<Longrightarrow> tells (pbind p c) P K"
  by (rule tells_bind, rule tells_any)

lemma tells_is_executed: "tells (is_executed i) (\<lambda>e K. e \<noteq> None \<longrightarrow> i \<in> K) K"
  by (auto simp: is_executed_def atomic_def once_def split: TransactionStatus.splits)

lemma tells_set_executed: "tells (set_executed_status i inc) (\<lambda>_ K. i \<in> K) K"
  unfolding set_executed_status_def with_status_def attempt_def
  by (rule tells_Act) (auto simp: once_def split: option.splits if_splits)

definition told :: "point \<Rightarrow> TxnIndex set \<Rightarrow> bool" where
  "told p K \<longleftrightarrow> (\<forall>v guard. p = Holding (ValidationTask v guard) \<longrightarrow> fst v \<in> K)"

lemma told_other: "(\<And>v guard. p \<noteq> Holding (ValidationTask v guard)) \<Longrightarrow> told p K"
  by (simp add: told_def)

lemma tells_try_validate: "tells try_validate_next_version (\<lambda>r K. \<forall>v guard. r = Some (v, guard) \<longrightarrow> fst v \<in> K) K"
proof -
  have check: "tells (pbind (is_executed i) (\<lambda>e. case e of
       Some incarnation \<Rightarrow> Return (Some ((i, incarnation), guard))
     | None \<Rightarrow> pbind (drop_guard guard) (\<lambda>_. Return None))) (\<lambda>r K. \<forall>v guard. r = Some (v, guard) \<longrightarrow> fst v \<in> K) K"
    for i guard K
  proof (rule tells_bind, rule tells_mono [OF tells_is_executed])
    fix e K' assume "e \<noteq> None \<longrightarrow> i \<in> K'"
    then show "tells (case e of Some incarnation \<Rightarrow> Return (Some ((i, incarnation), guard))
       | None \<Rightarrow> pbind (drop_guard guard) (\<lambda>_. Return None)) (\<lambda>r K. \<forall>v guard. r = Some (v, guard) \<longrightarrow> fst v \<in> K) K'"
      by (cases e) (simp_all, rule tells_then, simp)
  qed
  show ?thesis
    unfolding try_validate_next_version_def
  proof (intro tells_then)
    fix vi n and K' :: "TxnIndex set"
    show "tells (if n \<le> vi then pbind check_done (\<lambda>_. Return None)
       else pbind guard_new (\<lambda>guard.
         pbind (atomic (\<lambda>s. (validation_idx s, s\<lparr>validation_idx := validation_idx s + 1\<rparr>))) (\<lambda>i.
         pbind (is_executed i) (\<lambda>e. case e of
           None \<Rightarrow> pbind (drop_guard guard) (\<lambda>_. Return None)
         | Some incarnation \<Rightarrow> Return (Some ((i, incarnation), guard))))))
      (\<lambda>r K. \<forall>v guard. r = Some (v, guard) \<longrightarrow> fst v \<in> K) K'"
      by (cases "n \<le> vi") (simp_all only: if_True if_False, rule tells_then, simp, intro tells_then check)
  qed
qed

lemma tells_take_next: "tells take_next told K"
proof -
  let ?round = "\<lambda>r K. \<forall>v guard. r = Some (ValidationTask v guard) \<longrightarrow> fst v \<in> K"
  have "tells next_task_round ?round K"
    unfolding next_task_round_def
  proof (rule tells_then)
    fix d and K1 :: "TxnIndex set"
    have "tells (pbind try_validate_next_version (\<lambda>r. case r of
         Some (v, guard) \<Rightarrow> Return (Some (ValidationTask v guard)) | None \<Rightarrow> Return None)) ?round K" for K
      by (rule tells_bind, rule tells_mono [OF tells_try_validate]) (auto split: option.split)
    moreover have "tells (pbind try_execute_next_version (\<lambda>r. case r of
         Some (v, c, guard) \<Rightarrow> Return (Some (ExecutionTask v c guard)) | None \<Rightarrow> Return None)) ?round K" for K
      by (rule tells_then) (auto split: option.split)
    ultimately show "tells (if d then Return (Some Done)
       else pbind (load validation_idx) (\<lambda>vi. pbind (load execution_idx) (\<lambda>ei.
         if vi < ei
         then pbind try_validate_next_version (\<lambda>r. case r of
                None \<Rightarrow> Return None | Some (v, guard) \<Rightarrow> Return (Some (ValidationTask v guard)))
         else pbind try_execute_next_version (\<lambda>r. case r of
                None \<Rightarrow> Return None | Some (v, c, guard) \<Rightarrow> Return (Some (ExecutionTask v c guard)))))) ?round K1"
      by (cases d) (simp, simp only: if_False, intro tells_then, simp)
  qed
  then show ?thesis
    unfolding take_next_def by (intro tells_bind, elim tells_mono) (auto simp: told_def split: option.split)
qed

lemma tells_holding:
  "tells p (\<lambda>task. told (Holding task)) K \<Longrightarrow> tells (pbind p (\<lambda>task. Return (Holding task))) told K"
  by (rule tells_bind, erule tells_mono) simp

lemma tells_conclude: "tells (conclude v suffix) told K"
proof -
  have "tells (finish_execution i inc suffix guard) (\<lambda>task K. told (Holding task) K) K" for i inc guard
  proof -
    have "tells (if i < vi
       then if suffix then pbind (decrease_validation_idx i) (\<lambda>_. pbind (drop_guard guard) (\<lambda>_. Return NoTask))
            else Return (ValidationTask (i, inc) guard)
       else pbind (drop_guard guard) (\<lambda>_. Return NoTask)) (\<lambda>task K. told (Holding task) K) K"
      if "i \<in> K" for vi K
      using that by (auto simp: told_def intro!: tells_then)
    then show ?thesis
      unfolding finish_execution_def
      by (intro tells_bind [where p = "set_executed_status _ _"] tells_mono [OF tells_set_executed] tells_then) blast
  qed
  then show ?thesis unfolding conclude_def by (rule tells_holding)
qed

lemma tells_turn:
  assumes "turn s u p (Call c) u'"
  shows "tells c told K"
  using assms
proof cases
  case turn_next
  then show ?thesis by (simp add: tells_take_next)
next
  case (turn_conclude v suffix)
  then show ?thesis by (simp add: tells_conclude)
next
  case (turn_abort v)
  have "tells (finish_abort i inc guard) (\<lambda>task. told (Holding task)) K" for i inc guard
    unfolding finish_abort_def
    by (intro tells_then) (auto intro!: tells_then told_other split: option.split simp del: tells.simps(3))
  then show ?thesis unfolding turn_abort abort_def by (rule tells_holding)
qed (auto simp: resolve_def give_up_def depend_def reject_def intro!: tells_then told_other split: option.split
    simp del: tells.simps(3))

definition informed :: "Scheduler \<Rightarrow> (Scheduler, point) worker \<Rightarrow> bool" where
  "informed s w \<longleftrightarrow> (case w of At p \<Rightarrow> told p {i. once s i} | Call c \<Rightarrow> \<exists>K \<subseteq> {i. once s i}. tells c told K)"

lemma informed_At [simp]: "informed s (At p) \<longleftrightarrow> told p {i. once s i}"
  by (simp add: informed_def)

lemma informed_Call: "informed s (Call c) \<longleftrightarrow> (\<exists>K \<subseteq> {i. once s i}. tells c told K)"
  by (simp add: informed_def)

lemma informed_stable:
  assumes "informed s w" "diagram s s'"
  shows "informed s' w"
proof (cases w)
  case (At p)
  then show ?thesis using assms(1) once_stable [OF assms(2)] by (auto simp: told_def)
next
  case (Call c)
  then show ?thesis using assms(1) once_stable [OF assms(2)] unfolding Call informed_Call by blast
qed

lemma informed_turn:
  assumes "turn s u p w u'"
  shows "informed s' w"
proof (cases w)
  case (At q)
  from assms [unfolded At] have "told q K" for K by cases (auto simp: told_def)
  with At show ?thesis by simp
next
  case (Call c)
  with assms have "tells c told {}" by (simp add: tells_turn)
  with Call show ?thesis by (auto simp: informed_Call)
qed

lemma informed_step:
  assumes "reachable n m e" "worker_step e e'" "\<forall>w \<in> set (workers e). informed (shared e) w"
  shows "\<forall>w \<in> set (workers e'). informed (shared e') w"
  using assms(2)
proof cases
  case (step_turn t p w u)
  with assms(3) show ?thesis by (auto dest!: subsetD [OF set_update_subset_insert] intro: informed_turn)
next
  case (step_act t f p s)
  have d: "diagram (shared e) s"
    using obeys_act [OF calls_obey [OF assms(1) step_act(2,3)] step_act(4)] by simp
  have "informed (shared e) (Call (Act f))" using assms(3) step_act(2,3) by (metis nth_mem)
  then obtain K where K: "K \<subseteq> {i. once (shared e) i}" "tells (Act f) told K" unfolding informed_Call by blast
  have "informed s (Call p)"
    using tells_act [OF K(2), of "shared e" p s] step_act(4) K(1) once_stable [OF d] unfolding informed_Call
    by (intro exI [of _ "K \<union> {i. once s i}"]) blast
  with assms(3) step_act(1) show ?thesis
    by (auto dest!: subsetD [OF set_update_subset_insert] intro: informed_stable [OF _ d])
next
  case (step_return t p)
  have "informed (shared e) (Call (Return p))" using assms(3) step_return(2,3) by (metis nth_mem)
  then have "informed (shared e) (At p)" by (auto simp: informed_Call told_def)
  with assms(3) step_return(1) show ?thesis by (auto dest!: subsetD [OF set_update_subset_insert])
qed

lemma validation_once:
  assumes "reachable n m e" "t < length (workers e)" "workers e ! t = At (Holding (ValidationTask (i, inc) guard))"
  shows "once (shared e) i"
proof -
  have "reachable n m e \<and> (\<forall>w \<in> set (workers e). informed (shared e) w)"
    using assms(1) unfolding reachable_def
  proof (induction rule: rtranclp_induct)
    case base
    show ?case by (simp add: executor_new_def start_def told_def)
  next
    case (step e e')
    then show ?case using informed_step [of n m e e'] by (auto simp: reachable_def)
  qed
  with assms(2,3) have "told (Holding (ValidationTask (i, inc) guard)) {i. once (shared e) i}"
    by (metis informed_At nth_mem)
  then show ?thesis by (simp add: told_def)
qed

end
