(* ===== verification/Mv_Hashmap.thy ===== *)
theory Mv_Hashmap
  imports Delta_Op "HOL-Library.AList"
begin

text \<open>
  The multi-version map of the parallel executor
  (\<open>src/aptos-move/mvhashmap/src/lib.rs\<close>): for every key the entries of the
  transactions of the block, each a write or a delta, with a flag that marks
  an estimate.  Each operation is taken as one step on the map; in the code a
  read shares its access to the tree of its key with other reads and with the
  marking of an estimate, which stores one flag.

  The lemmas give the meaning of a read in terms of the sequential execution
  of the entries below the reader, and what the operations keep of the others'
  entries.  \<open>data_of\<close> stands for \<open>TransactionWrite::extract_raw_bytes\<close>.
\<close>

section \<open>Entries\<close>

type_synonym TxnIndex = usize
type_synonym Incarnation = usize
type_synonym Version = "TxnIndex \<times> Incarnation"

definition FLAG_DONE :: usize where "FLAG_DONE = 0"
definition FLAG_ESTIMATE :: usize where "FLAG_ESTIMATE = 1"

datatype 'v EntryCell = Cell_Write Incarnation 'v | Cell_Delta DeltaOp

record 'v Entry =
  entry_flag :: usize
  entry_cell :: "'v EntryCell"

definition new_write_from :: "usize \<Rightarrow> Incarnation \<Rightarrow> 'v \<Rightarrow> 'v Entry" where
  "new_write_from flag incarnation dat = \<lparr>entry_flag = flag, entry_cell = Cell_Write incarnation dat\<rparr>"

definition new_delta_from :: "usize \<Rightarrow> DeltaOp \<Rightarrow> 'v Entry" where
  "new_delta_from flag d = \<lparr>entry_flag = flag, entry_cell = Cell_Delta d\<rparr>"

definition entry_mark_estimate :: "'v Entry \<Rightarrow> 'v Entry" where
  "entry_mark_estimate e = e\<lparr>entry_flag := FLAG_ESTIMATE\<rparr>"

section \<open>The map\<close>

text \<open>
  The tree of a key is a list of entries with ascending transaction indices;
  \<open>tree_insert\<close> replaces an entry of the same index.
\<close>

type_synonym 'v Tree = "(TxnIndex \<times> 'v Entry) list"

type_synonym ('k, 'v) MVHashMap = "('k \<times> 'v Tree) list"

fun tree_insert :: "TxnIndex \<Rightarrow> 'v Entry \<Rightarrow> 'v Tree \<Rightarrow> 'v Tree" where
  "tree_insert i e [] = [(i, e)]"
| "tree_insert i e ((j, f) # t) =
     (if i < j then (i, e) # (j, f) # t
      else if i = j then (i, e) # t
      else (j, f) # tree_insert i e t)"

definition tree_remove :: "TxnIndex \<Rightarrow> 'v Tree \<Rightarrow> 'v Tree" where
  "tree_remove i t = filter (\<lambda>(j, _). j \<noteq> i) t"

definition tree_of :: "('k, 'v) MVHashMap \<Rightarrow> 'k \<Rightarrow> 'v Tree" where
  "tree_of m k = (case map_of m k of Some t \<Rightarrow> t | None \<Rightarrow> [])"

definition mv_new :: "('k, 'v) MVHashMap" where
  "mv_new = []"

definition entry_map_for_key :: "'k \<Rightarrow> ('k, 'v) MVHashMap \<Rightarrow> 'v Tree option \<times> ('k, 'v) MVHashMap" where
  "entry_map_for_key k m = (map_of m k, AList.delete k m)"

text \<open>The assertion on the incarnation runs after the insertion.\<close>

definition add_write :: "'k \<Rightarrow> Version \<Rightarrow> 'v \<Rightarrow> (('k, 'v) MVHashMap, 'e, unit) op" where
  "add_write k version dat = (\<lambda>m. case version of (txn_idx, incarnation) \<Rightarrow>
     let tree = tree_of m k;
         prev_entry = map_of tree txn_idx;
         m' = AList.update k (tree_insert txn_idx (new_write_from FLAG_DONE incarnation dat) tree) m
     in (case prev_entry of
           None \<Rightarrow> (Ok (), m')
         | Some entry \<Rightarrow> (case entry_cell entry of
             Cell_Write i _ \<Rightarrow> if i < incarnation then (Ok (), m') else (Panic, m')
           | Cell_Delta _ \<Rightarrow> (Ok (), m'))))"

definition add_delta :: "'k \<Rightarrow> TxnIndex \<Rightarrow> DeltaOp \<Rightarrow> (('k, 'v) MVHashMap, 'e, unit) op" where
  "add_delta k txn_idx d = modify (\<lambda>m.
     AList.update k (tree_insert txn_idx (new_delta_from FLAG_DONE d) (tree_of m k)) m)"

definition mark_estimate :: "'k \<Rightarrow> TxnIndex \<Rightarrow> (('k, 'v) MVHashMap, 'e, unit) op" where
  "mark_estimate k txn_idx = (\<lambda>m. case map_of m k of
     None \<Rightarrow> (Panic, m)
   | Some tree \<Rightarrow> (case map_of tree txn_idx of
       None \<Rightarrow> (Panic, m)
     | Some entry \<Rightarrow> (Ok (), AList.update k (tree_insert txn_idx (entry_mark_estimate entry) tree) m)))"

definition mv_delete :: "'k \<Rightarrow> TxnIndex \<Rightarrow> (('k, 'v) MVHashMap, 'e, unit) op" where
  "mv_delete k txn_idx = (\<lambda>m. case map_of m k of
     None \<Rightarrow> (Panic, m)
   | Some tree \<Rightarrow> (Ok (), AList.update k (tree_remove txn_idx tree) m))"

section \<open>Reading\<close>

datatype MVHashMapError =
    NotFound
  | Unresolved DeltaOp
  | Dependency TxnIndex
  | DeltaApplicationFailure

datatype 'v MVHashMapOutput = Resolved u128 | Version Version 'v

text \<open>\<open>AggregatorValue::from_write\<close>: nothing for a deletion, a panic for bytes that do not decode.\<close>

definition from_write :: "Codec \<Rightarrow> ('v \<Rightarrow> Bytes option) \<Rightarrow> 'v \<Rightarrow> ('e, u128 option) outcome" where
  "from_write B data_of w = (case data_of w of
     None \<Rightarrow> Ok None
   | Some bytes \<Rightarrow> bind (deserialize B bytes) (\<lambda>v. Ok (Some v)))"

text \<open>The loop over the entries below the reader, the nearest one first.\<close>

fun read_loop ::
  "Codec \<Rightarrow> ('v \<Rightarrow> Bytes option) \<Rightarrow> 'v Tree \<Rightarrow> DeltaOp option \<Rightarrow>
     (MVHashMapError, 'v MVHashMapOutput) outcome" where
  "read_loop B data_of [] acc = (case acc of
     Some a \<Rightarrow> Err (Unresolved a)
   | None \<Rightarrow> Err NotFound)"
| "read_loop B data_of ((idx, entry) # rest) acc =
     (if entry_flag entry = FLAG_ESTIMATE then Err (Dependency idx)
      else (case (entry_cell entry, acc) of
        (Cell_Write incarnation dat, None) \<Rightarrow> Ok (Version (idx, incarnation) dat)
      | (Cell_Write incarnation dat, Some a) \<Rightarrow>
          bind (from_write B data_of dat) (\<lambda>maybe_value.
          case maybe_value of
            None \<Rightarrow> Ok (Version (idx, incarnation) dat)
          | Some v \<Rightarrow> bind (map_err (\<lambda>_. DeltaApplicationFailure) (apply_to a v)) (\<lambda>r. Ok (Resolved r)))
      | (Cell_Delta d, Some a) \<Rightarrow>
          bind (map_err (\<lambda>_. DeltaApplicationFailure) (merge_onto a d)) (\<lambda>a'.
          read_loop B data_of rest (Some a'))
      | (Cell_Delta d, None) \<Rightarrow> read_loop B data_of rest (Some d)))"

definition mv_read ::
  "Codec \<Rightarrow> ('v \<Rightarrow> Bytes option) \<Rightarrow> ('k, 'v) MVHashMap \<Rightarrow> 'k \<Rightarrow> TxnIndex \<Rightarrow>
     (MVHashMapError, 'v MVHashMapOutput) outcome" where
  "mv_read B data_of m k txn_idx = (case map_of m k of
     None \<Rightarrow> Err NotFound
   | Some tree \<Rightarrow> read_loop B data_of (rev (filter (\<lambda>(j, _). j < txn_idx) tree)) None)"

section \<open>What a tree keeps\<close>

definition tree_wf :: "'v Tree \<Rightarrow> bool" where
  "tree_wf t \<longleftrightarrow> sorted_wrt (<) (map fst t)"

lemma tree_insert_keys: "fst ` set (tree_insert i e t) = insert i (fst ` set t)"
  by (induction i e t rule: tree_insert.induct) auto

lemma tree_wf_insert: "tree_wf t \<Longrightarrow> tree_wf (tree_insert i e t)"
proof (induction i e t rule: tree_insert.induct)
  case (2 i e j f t)
  then show ?case using tree_insert_keys [of i e t]
    by (auto simp: tree_wf_def image_iff)
qed (simp add: tree_wf_def)

lemma map_of_tree_insert:
  "tree_wf t \<Longrightarrow> map_of (tree_insert i e t) = (map_of t)(i \<mapsto> e)"
proof (induction i e t rule: tree_insert.induct)
  case (2 i e j f t)
  then show ?case by (auto simp: tree_wf_def fun_eq_iff)
qed (auto simp: fun_eq_iff)

lemma tree_wf_remove: "tree_wf t \<Longrightarrow> tree_wf (tree_remove i t)"
  unfolding tree_wf_def tree_remove_def by (induction t) auto

lemma map_of_tree_remove: "map_of (tree_remove i t) j = (if j = i then None else map_of t j)"
  unfolding tree_remove_def by (induction t) auto

definition mv_wf :: "('k, 'v) MVHashMap \<Rightarrow> bool" where
  "mv_wf m \<longleftrightarrow> (\<forall>k t. map_of m k = Some t \<longrightarrow> tree_wf t)"

lemma tree_of_wf: "mv_wf m \<Longrightarrow> tree_wf (tree_of m k)"
  by (auto simp: mv_wf_def tree_of_def tree_wf_def split: option.split)

lemma tree_of_update: "tree_of (AList.update k t m) k' = (if k' = k then t else tree_of m k')"
  by (simp add: tree_of_def update_conv')

lemma mv_wf_update: "mv_wf m \<Longrightarrow> tree_wf t \<Longrightarrow> mv_wf (AList.update k t m)"
  by (auto simp: mv_wf_def update_conv' split: if_splits)

section \<open>A read is the sequential execution\<close>

text \<open>The value after the entries, the nearest one first, from a value in storage.\<close>

fun seq_value :: "Codec \<Rightarrow> ('v \<Rightarrow> Bytes option) \<Rightarrow> 'v Tree \<Rightarrow> u128 option \<Rightarrow> u128 option" where
  "seq_value B data_of [] b = b"
| "seq_value B data_of ((_, e) # rest) b = (case entry_cell e of
     Cell_Write _ w \<Rightarrow> Option.bind (data_of w) (from_bytes B)
   | Cell_Delta d \<Rightarrow> Option.bind (seq_value B data_of rest b) (\<lambda>v. ok (apply_to d v)))"

text \<open>The entries of one counter: no estimates, writes that decode, deltas of one limit.\<close>

definition entry_ok :: "Codec \<Rightarrow> ('v \<Rightarrow> Bytes option) \<Rightarrow> u128 \<Rightarrow> 'v Entry \<Rightarrow> bool" where
  "entry_ok B data_of limit e \<longleftrightarrow> entry_flag e \<noteq> FLAG_ESTIMATE \<and> (case entry_cell e of
     Cell_Write _ w \<Rightarrow> (\<forall>bytes. data_of w = Some bytes \<longrightarrow> from_bytes B bytes \<noteq> None)
   | Cell_Delta d \<Rightarrow> delta_wf d \<and> dop_limit d = limit)"

lemma from_write_eq:
  "(\<forall>bytes. data_of w = Some bytes \<longrightarrow> from_bytes B bytes \<noteq> None) \<Longrightarrow>
   from_write B data_of w = Ok (Option.bind (data_of w) (from_bytes B))"
  by (auto simp: from_write_def deserialize_def split: option.split)

text \<open>With an accumulator, the read is the sequential execution followed by the accumulator.\<close>

fun reads_as :: "('v \<Rightarrow> Bytes option) \<Rightarrow> (u128 option \<Rightarrow> u128 option) \<Rightarrow>
     (MVHashMapError, 'v MVHashMapOutput) outcome \<Rightarrow> bool" where
  "reads_as data_of f (Ok (Resolved r)) = (\<forall>b. f b = Some r)"
| "reads_as data_of f (Ok (Version _ w)) = (data_of w = None \<and> (\<forall>b. f b = None))"
| "reads_as data_of f (Err DeltaApplicationFailure) = (\<forall>b. f b = None)"
| "reads_as data_of f (Err (Unresolved a)) = (delta_wf a \<and> f None = None \<and> (\<forall>b. f (Some b) = ok (apply_to a b)))"
| "reads_as data_of f _ = False"

lemma read_loop_accumulated:
  assumes "\<forall>(i, e) \<in> set ents. entry_ok B data_of limit e" "delta_wf a" "dop_limit a = limit"
  shows "reads_as data_of (\<lambda>b. Option.bind (seq_value B data_of ents b) (\<lambda>v. ok (apply_to a v)))
    (read_loop B data_of ents (Some a))"
  using assms
proof (induction ents arbitrary: a)
  case (Cons x ents)
  obtain i e where x: "x = (i, e)" by fastforce
  with Cons.prems have e: "entry_ok B data_of limit e" by simp
  show ?case
  proof (cases "entry_cell e")
    case (Cell_Write inc w)
    with e have w: "from_write B data_of w = (Ok (Option.bind (data_of w) (from_bytes B)) :: (MVHashMapError, _) outcome)"
      by (intro from_write_eq) (simp add: entry_ok_def)
    show ?thesis
    proof (cases "Option.bind (data_of w) (from_bytes B)")
      case None
      moreover from this have "data_of w = None"
        using e Cell_Write by (cases "data_of w") (auto simp: entry_ok_def)
      ultimately show ?thesis using e Cell_Write w x by (simp add: entry_ok_def)
    next
      case (Some v)
      then show ?thesis using e Cell_Write w x apply_to_neq_Panic [of a v]
        by (cases "apply_to a v") (simp_all add: entry_ok_def)
    qed
  next
    case (Cell_Delta d)
    with e Cons.prems have d: "delta_wf d" "dop_limit a = dop_limit d" by (simp_all add: entry_ok_def)
    have assoc: "Option.bind (Option.bind s (\<lambda>v. ok (apply_to d v))) (\<lambda>v. ok (apply_to a v)) =
        Option.bind s (\<lambda>v. Option.bind (ok (apply_to d v)) (\<lambda>v. ok (apply_to a v)))" for s
      by (cases s) simp_all
    show ?thesis
    proof (cases "merge_onto a d")
      case (Ok m)
      have "reads_as data_of (\<lambda>b. Option.bind (seq_value B data_of ents b) (\<lambda>v. ok (apply_to m v)))
          (read_loop B data_of ents (Some m))"
        using merge_delta_wf [OF d(1) Cons.prems(2) Ok] Cons.prems x by (intro Cons.IH) auto
      then show ?thesis using e x Cell_Delta Ok merge_composes [OF d Ok]
        by (simp add: entry_ok_def assoc del: bind_assoc)
    next
      case (Err z)
      then show ?thesis using e x Cell_Delta merge_fails [OF d Err]
        by (simp add: entry_ok_def assoc del: Option.bind_assoc)
    qed (simp add: merge_neq_Panic)
  qed
qed (use assms in simp)


lemma read_loop_version:
  "read_loop B data_of ents acc = Ok (Version (j, inc) w) \<Longrightarrow>
   \<exists>e. (j, e) \<in> set ents \<and> entry_cell e = Cell_Write inc w"
proof (induction ents arbitrary: acc)
  case (Cons x ents)
  have IH: "\<exists>e. ((j, e) = x \<or> (j, e) \<in> set ents) \<and> entry_cell e = Cell_Write inc w"
    if "read_loop B data_of ents a = Ok (Version (j, inc) w)" for a
    using Cons.IH [OF that] by blast
  from Cons.prems show ?case
    by (cases x) (auto simp: outcome_simps dest!: IH split: if_splits EntryCell.splits option.splits)
qed (simp split: option.splits)

lemma read_loop_sequential:
  assumes "\<forall>(j, e) \<in> set ents. entry_ok B data_of limit e" "ents \<noteq> []"
  shows "reads_as data_of (seq_value B data_of ents) (read_loop B data_of ents None) \<or>
    (\<exists>v w. read_loop B data_of ents None = Ok (Version v w) \<and>
       (\<forall>b. seq_value B data_of ents b = Option.bind (data_of w) (from_bytes B)))"
proof -
  obtain i e rest where ents: "ents = (i, e) # rest" using assms(2) by (cases ents) auto
  with assms have e: "entry_ok B data_of limit e" by simp
  show ?thesis
  proof (cases "entry_cell e")
    case (Cell_Write inc w)
    then show ?thesis using e ents by (auto simp: entry_ok_def)
  next
    case (Cell_Delta d)
    with e have d: "delta_wf d" "dop_limit d = limit" by (simp_all add: entry_ok_def)
    have "seq_value B data_of ents = (\<lambda>b. Option.bind (seq_value B data_of rest b) (\<lambda>v. ok (apply_to d v)))"
      using Cell_Delta ents by auto
    moreover have "read_loop B data_of ents None = read_loop B data_of rest (Some d)"
      using Cell_Delta ents e by (simp add: entry_ok_def)
    ultimately show ?thesis using read_loop_accumulated [OF _ d, of rest B data_of] assms(1) ents by simp
  qed
qed

text \<open>The entries a reader sees, the nearest one first.\<close>

definition below :: "('k, 'v) MVHashMap \<Rightarrow> 'k \<Rightarrow> TxnIndex \<Rightarrow> 'v Tree" where
  "below m k i = rev (filter (\<lambda>(j, _). j < i) (tree_of m k))"

text \<open>C30.  On a key whose entries below the reader are not estimates, a read in the middle of the
  parallel execution is the sequential execution of those entries: a resolved value is the
  value they leave, whatever storage holds; an unresolved delta stands for all of them; a
  failure means that no stored value passes them; a version is the nearest write, or a
  deletion below deltas; and a key without entries is not found.  A read never panics.\<close>

theorem read_is_sequential:
  assumes "\<forall>(j, e) \<in> set (below m k i). entry_ok B data_of limit e"
  shows "case mv_read B data_of m k i of
      Ok (Resolved r) \<Rightarrow> \<forall>b. seq_value B data_of (below m k i) b = Some r
    | Ok (Version (j, inc) w) \<Rightarrow>
        (\<forall>b. seq_value B data_of (below m k i) b = Option.bind (data_of w) (from_bytes B)) \<and>
        (\<exists>e. (j, e) \<in> set (below m k i) \<and> entry_cell e = Cell_Write inc w)
    | Err (Unresolved a) \<Rightarrow> \<forall>b. seq_value B data_of (below m k i) (Some b) = ok (apply_to a b)
    | Err DeltaApplicationFailure \<Rightarrow> \<forall>b. seq_value B data_of (below m k i) b = None
    | Err NotFound \<Rightarrow> below m k i = []
    | Err (Dependency j) \<Rightarrow> False
    | Panic \<Rightarrow> False"
proof -
  have eq: "mv_read B data_of m k i = (if map_of m k = None then Err NotFound else read_loop B data_of (below m k i) None)"
    by (auto simp: mv_read_def below_def tree_of_def split: option.split)
  have nil: "below m k i = []" if "map_of m k = None" using that by (simp add: below_def tree_of_def)
  show ?thesis
  proof (cases "below m k i = []")
    case True
    then show ?thesis by (simp add: eq)
  next
    case False
    then have "mv_read B data_of m k i = read_loop B data_of (below m k i) None" using eq nil by auto
    with read_loop_sequential [OF assms False] read_loop_version [of B data_of "below m k i" None]
    show ?thesis
      by (auto simp: fun_eq_iff split: outcome.split MVHashMapOutput.split MVHashMapError.split)
  qed
qed

definition sample_map :: "(nat, nat) MVHashMap" where
  "sample_map = [(9, [(0, new_write_from FLAG_DONE 0 40), (3, new_delta_from FLAG_DONE (delta_add 2 100)),
                      (5, new_delta_from FLAG_DONE (delta_sub 1 100))])]"

theorem read_is_sequential_witness:
  "case mv_read be_codec (\<lambda>n. Some (to_be 16 (of_nat n :: u128))) sample_map 9 7 of
     Ok (Resolved r) \<Rightarrow> seq_value be_codec (\<lambda>n. Some (to_be 16 (of_nat n :: u128))) (below sample_map 9 7) None = Some r
   | _ \<Rightarrow> False"
proof -
  have b: "below sample_map 9 7 = [(5, new_delta_from FLAG_DONE (delta_sub 1 100)),
      (3, new_delta_from FLAG_DONE (delta_add 2 100)), (0, new_write_from FLAG_DONE 0 40)]"
    by (simp add: below_def tree_of_def sample_map_def)
  have "\<forall>(j, e) \<in> set (below sample_map 9 7). entry_ok be_codec (\<lambda>n. Some (to_be 16 (of_nat n :: u128))) 100 e"
    by (simp add: b entry_ok_def new_delta_from_def new_write_from_def FLAG_DONE_def FLAG_ESTIMATE_def
        delta_add_def delta_sub_def delta_new_def delta_wf_def be_codec_def)
  from read_is_sequential [OF this] show ?thesis
    by (simp add: mv_read_def sample_map_def new_delta_from_def new_write_from_def FLAG_DONE_def FLAG_ESTIMATE_def
        delta_add_def delta_sub_def delta_new_def be_codec_def from_write_def deserialize_def from_be_to_be
        merge_onto_def shifted_max_positive_by_def shifted_min_negative_by_def merged_update_def
        update_different_sign_def addition_eq subtraction_eq apply_to_def)
qed

section \<open>Writers do not disturb earlier readers\<close>

lemma filter_insert_ge:
  "j \<le> i \<Longrightarrow> filter (\<lambda>(x, _). x < j) (tree_insert i e t) = filter (\<lambda>(x, _). x < j) t"
  by (induction i e t rule: tree_insert.induct) auto

lemma filter_insert_Suc:
  "tree_wf t \<Longrightarrow> filter (\<lambda>(x, _). x < Suc i) (tree_insert i e t) = filter (\<lambda>(x, _). x < i) t @ [(i, e)]"
proof (induction i e t rule: tree_insert.induct)
  case (2 i e j f t)
  have "filter (\<lambda>(x, _). x < k) t = []" if "k \<le> Suc j" for k
    using 2(2) that by (fastforce simp: tree_wf_def filter_empty_conv)
  with 2 show ?case by (auto simp: tree_wf_def)
qed simp

lemma filter_remove: "filter (\<lambda>(x, _). x < Suc i) (tree_remove i t) = filter (\<lambda>(x, _). x < i) t"
  unfolding tree_remove_def by (induction t) auto

lemma filter_remove_ge: "j \<le> i \<Longrightarrow> filter (\<lambda>(x, _). x < j) (tree_remove i t) = filter (\<lambda>(x, _). x < j) t"
  unfolding tree_remove_def by (induction t) auto

lemma mv_read_below:
  "mv_read B data_of m k i = (if below m k i = [] then Err NotFound else read_loop B data_of (below m k i) None)"
  by (auto simp: mv_read_def below_def tree_of_def split: option.split)

lemma below_insert:
  assumes "mv_wf m" "m' = AList.update k (tree_insert i e (tree_of m k)) m"
  shows "mv_wf m'" "k' \<noteq> k \<or> j \<le> i \<Longrightarrow> below m' k' j = below m k' j"
    "below m' k (Suc i) = (i, e) # below m k i"
  using assms tree_of_wf [OF assms(1), of k]
  by (auto simp: below_def tree_of_update filter_insert_ge filter_insert_Suc intro: mv_wf_update tree_wf_insert)

definition undisturbed :: "('k, 'v) MVHashMap \<Rightarrow> ('k, 'v) MVHashMap \<Rightarrow> 'k \<Rightarrow> TxnIndex \<Rightarrow> bool" where
  "undisturbed m m' k i \<longleftrightarrow> mv_wf m' \<and>
     (\<forall>k' j B data_of. k' \<noteq> k \<or> j \<le> i \<longrightarrow> mv_read B data_of m' k' j = mv_read B data_of m k' j)"

lemma undisturbed_insert:
  "mv_wf m \<Longrightarrow> undisturbed m (AList.update k (tree_insert i e (tree_of m k)) m) k i"
  using below_insert [OF _ refl, where m = m and k = k and i = i and e = e] by (auto simp: undisturbed_def mv_read_below)

lemma undisturbed_remove:
  assumes "mv_wf m"
  shows "undisturbed m (AList.update k (tree_remove i (tree_of m k)) m) k i"
  using mv_wf_update [OF assms tree_wf_remove [OF tree_of_wf [OF assms]]]
  by (auto simp: undisturbed_def mv_read_below below_def tree_of_update filter_remove_ge)

text \<open>A reader sees what the reader next to an entry sees, until the next entry of the key.\<close>

lemma read_above:
  assumes "i < j" "\<And>p. p \<in> fst ` set (tree_of m k) \<Longrightarrow> \<not> (i < p \<and> p < j)"
  shows "mv_read B data_of m k j = mv_read B data_of m k (Suc i)"
proof -
  have "filter (\<lambda>(p, _). p < j) (tree_of m k) = filter (\<lambda>(p, _). p < Suc i) (tree_of m k)"
    using assms by (intro filter_cong refl) force
  then show ?thesis by (simp add: mv_read_below below_def)
qed

text \<open>C31.  A write, a delta, a mark or a deletion of transaction \<open>i\<close> at a key keeps the trees in order
  and leaves every read at another key and every read by a transaction up to \<open>i\<close> as it was.
  Every transaction \<open>j\<close> above \<open>i\<close>, up to the next one with an entry of the key, reads the version
  written, finds a dependency on \<open>i\<close> once the entry is an estimate, and reads what \<open>i\<close> itself reads once
  the entry is deleted.\<close>

theorem writers_and_readers:
  assumes "mv_wf m" "i < j" "\<forall>p. i < p \<and> p < j \<longrightarrow> p \<notin> fst ` set (tree_of m k)"
  shows
    "(add_write k (i, inc) w m = (Ok () :: (unit, unit) outcome, m1) \<longrightarrow>
        undisturbed m m1 k i \<and> mv_read B data_of m1 k j = Ok (Version (i, inc) w)) \<and>
     (add_delta k i d m = (Ok () :: (unit, unit) outcome, m2) \<longrightarrow> undisturbed m m2 k i) \<and>
     (mark_estimate k i m = (Ok () :: (unit, unit) outcome, m3) \<longrightarrow>
        undisturbed m m3 k i \<and> mv_read B data_of m3 k j = Err (Dependency i)) \<and>
     (mv_delete k i m = (Ok () :: (unit, unit) outcome, m4) \<longrightarrow>
        undisturbed m m4 k i \<and> mv_read B data_of m4 k j = mv_read B data_of m k i)"
proof -
  have t: "tree_of m k = t" if "map_of m k = Some t" for t using that by (simp add: tree_of_def)
  have "mv_read B data_of (AList.update k (tree_insert i e (tree_of m k)) m) k j =
      mv_read B data_of (AList.update k (tree_insert i e (tree_of m k)) m) k (Suc i)" for e
    using assms(2,3) by (intro read_above) (auto simp: tree_of_update tree_insert_keys)
  then have ins: "mv_read B data_of (AList.update k (tree_insert i e (tree_of m k)) m) k j =
      read_loop B data_of ((i, e) # below m k i) None" for e
    using below_insert(3) [OF assms(1) refl, of k i e] by (simp add: mv_read_below del: read_loop.simps)
  have "m1 = AList.update k (tree_insert i (new_write_from FLAG_DONE inc w) (tree_of m k)) m"
    if "add_write k (i, inc) w m = (Ok () :: (unit, unit) outcome, m1)"
    using that by (auto simp: add_write_def Let_def split: option.splits EntryCell.splits if_splits)
  moreover have "\<exists>e. m3 = AList.update k (tree_insert i (entry_mark_estimate e) (tree_of m k)) m"
    if "mark_estimate k i m = (Ok () :: (unit, unit) outcome, m3)"
    using that t by (auto simp: mark_estimate_def split: option.splits)
  moreover have "m4 = AList.update k (tree_remove i (tree_of m k)) m"
    if "mv_delete k i m = (Ok () :: (unit, unit) outcome, m4)"
    using that t by (auto simp: mv_delete_def split: option.splits)
  moreover have "mv_read B data_of (AList.update k (tree_remove i (tree_of m k)) m) k j =
      mv_read B data_of (AList.update k (tree_remove i (tree_of m k)) m) k (Suc i)"
    using assms(2,3) by (intro read_above) (force simp: tree_of_update tree_remove_def)+
  then have "mv_read B data_of (AList.update k (tree_remove i (tree_of m k)) m) k j = mv_read B data_of m k i"
    by (simp add: mv_read_below below_def tree_of_update filter_remove)
  ultimately show ?thesis
    using undisturbed_insert [OF assms(1), of k i] undisturbed_remove [OF assms(1), of k i] ins
    by (auto simp: add_delta_def new_write_from_def entry_mark_estimate_def FLAG_DONE_def FLAG_ESTIMATE_def)
qed

theorem writers_and_readers_witness:
  "mv_read be_codec (\<lambda>n. None) (snd (mark_estimate 9 3 sample_map :: (unit, unit) outcome \<times> _)) 9 5 = Err (Dependency 3)"
proof -
  have "mv_wf sample_map" by (simp add: mv_wf_def sample_map_def tree_wf_def)
  moreover have "\<forall>p. 3 < p \<and> p < 5 \<longrightarrow> p \<notin> fst ` set (tree_of sample_map 9)" by (auto simp: sample_map_def tree_of_def)
  moreover have "fst (mark_estimate 9 3 sample_map) = (Ok () :: (unit, unit) outcome)"
    by (simp add: mark_estimate_def sample_map_def)
  ultimately show ?thesis
    using writers_and_readers [of sample_map 3 5 9 _ _ _ be_codec "\<lambda>n. None" _ _
        "snd (mark_estimate 9 3 sample_map :: (unit, unit) outcome \<times> _)"]
    by (simp add: prod_eq_iff)
qed

end
