(* ===== verification/Change_Set.thy ===== *)
theory Change_Set
  imports Delta_Op "HOL-Library.AList"
begin

text \<open>
  Write sets and change sets with deltas (\<open>src/types/src/write_set.rs\<close>,
  \<open>src/types/src/transaction/change_set.rs\<close> and
  \<open>src/aptos-move/aptos-aggregator/src/transaction.rs\<close>): squashing the changes
  of a second session into those of a first, and merging materialised deltas
  into the output of a transaction.

  The lemmas show that squashing is composition: the squashed change set takes
  the state where the two change sets take it one after the other.

  A \<open>BTreeMap\<close> is an association list; iterating over it visits every key
  once.  Events and the status of an output are parameters of the types; the
  checker of change sets, a trait object, is a function-valued field.
\<close>

section \<open>Write sets\<close>

datatype SquashError =
    CannotSquash
  | AlreadyDeleted
  | BcsError
  | DeltaError PartialVMError
  | CheckError VMStatus

type_synonym 'k WriteSet = "('k \<times> WriteOp) list"

text \<open>One key of \<open>squash\<close>: the operation kept, or none if the entry goes away.\<close>

fun squash_ops :: "WriteOp \<Rightarrow> WriteOp \<Rightarrow> (SquashError, WriteOp option) outcome" where
  "squash_ops (Modification _) (Creation _) = Err CannotSquash"
| "squash_ops (Creation _) (Creation _) = Err CannotSquash"
| "squash_ops Deletion Deletion = Err CannotSquash"
| "squash_ops Deletion (Modification _) = Err CannotSquash"
| "squash_ops (Modification _) (Modification dat) = Ok (Some (Modification dat))"
| "squash_ops (Creation _) (Modification dat) = Ok (Some (Creation dat))"
| "squash_ops (Modification _) Deletion = Ok (Some Deletion)"
| "squash_ops Deletion (Creation dat) = Ok (Some (Modification dat))"
| "squash_ops (Creation _) Deletion = Ok None"

definition put_op :: "'k \<Rightarrow> 'v option \<Rightarrow> ('k \<times> 'v) list \<Rightarrow> ('k \<times> 'v) list" where
  "put_op k r ws = (case r of Some w \<Rightarrow> AList.update k w ws | None \<Rightarrow> AList.delete k ws)"

fun write_set_squash :: "'k WriteSet \<Rightarrow> 'k WriteSet \<Rightarrow> (SquashError, 'k WriteSet) outcome" where
  "write_set_squash ws [] = Ok ws"
| "write_set_squash ws ((k, w) # other) = (case map_of ws k of
     Some r \<Rightarrow> bind (squash_ops r w) (\<lambda>r'. write_set_squash (put_op k r' ws) other)
   | None \<Rightarrow> write_set_squash (AList.update k w ws) other)"

section \<open>Change sets\<close>

record ('k, 'ev) ChangeSet =
  cs_write_set :: "'k WriteSet"
  cs_events :: "'ev list"

definition change_set_new ::
  "'k WriteSet \<Rightarrow> 'ev list \<Rightarrow> (('k, 'ev) ChangeSet \<Rightarrow> (VMStatus, unit) outcome) \<Rightarrow>
     (SquashError, ('k, 'ev) ChangeSet) outcome" where
  "change_set_new ws evs check =
     (let cs = \<lparr>cs_write_set = ws, cs_events = evs\<rparr> in
      bind (map_err CheckError (check cs)) (\<lambda>_. Ok cs))"

record ('k, 'ev) ChangeSetExt =
  ext_deltas :: "('k \<times> DeltaOp) list"
  ext_changes :: "('k, 'ev) ChangeSet"
  ext_checker :: "('k, 'ev) ChangeSet \<Rightarrow> (VMStatus, unit) outcome"

text \<open>A delta over a write of the same key: the value is decoded, changed and encoded again.\<close>

fun squash_delta_write :: "Codec \<Rightarrow> WriteOp \<Rightarrow> DeltaOp \<Rightarrow> (SquashError, WriteOp) outcome" where
  "squash_delta_write B (Creation dat) d =
     (case from_bytes B dat of
        None \<Rightarrow> Err BcsError
      | Some v \<Rightarrow> bind (map_err DeltaError (apply_to d v)) (\<lambda>x. Ok (Creation (to_bytes B x))))"
| "squash_delta_write B (Modification dat) d =
     (case from_bytes B dat of
        None \<Rightarrow> Err BcsError
      | Some v \<Rightarrow> bind (map_err DeltaError (apply_to d v)) (\<lambda>x. Ok (Modification (to_bytes B x))))"
| "squash_delta_write B Deletion d = Err AlreadyDeleted"

fun squash_deltas ::
  "Codec \<Rightarrow> ('k \<times> DeltaOp) list \<Rightarrow> 'k WriteSet \<Rightarrow> ('k \<times> DeltaOp) list \<Rightarrow>
     (SquashError, ('k \<times> DeltaOp) list \<times> 'k WriteSet) outcome" where
  "squash_deltas B ds ws [] = Ok (ds, ws)"
| "squash_deltas B ds ws ((k, d) # other) = (case map_of ws k of
     Some r \<Rightarrow> bind (squash_delta_write B r d) (\<lambda>r'. squash_deltas B ds (AList.update k r' ws) other)
   | None \<Rightarrow> (case map_of ds k of
       Some d0 \<Rightarrow> bind (map_err DeltaError (merge_onto d d0)) (\<lambda>d'.
                   squash_deltas B (AList.update k d' ds) ws other)
     | None \<Rightarrow> squash_deltas B (AList.update k d ds) ws other))"

definition squash_delta_change_set ::
  "Codec \<Rightarrow> ('k, 'ev) ChangeSetExt \<Rightarrow>
     ('k \<times> DeltaOp) list \<Rightarrow> (SquashError, ('k, 'ev) ChangeSetExt) outcome" where
  "squash_delta_change_set B self other =
     bind (squash_deltas B (ext_deltas self) (cs_write_set (ext_changes self)) other) (\<lambda>(ds, ws).
     bind (change_set_new ws (cs_events (ext_changes self)) (ext_checker self)) (\<lambda>cs.
     Ok \<lparr>ext_deltas = ds, ext_changes = cs, ext_checker = ext_checker self\<rparr>))"

fun squash_writes ::
  "('k \<times> DeltaOp) list \<Rightarrow> 'k WriteSet \<Rightarrow> 'k WriteSet \<Rightarrow>
     (SquashError, ('k \<times> DeltaOp) list \<times> 'k WriteSet) outcome" where
  "squash_writes ds ws [] = Ok (ds, ws)"
| "squash_writes ds ws ((k, w) # other) = (case map_of ws k of
     Some r \<Rightarrow> bind (squash_ops r w) (\<lambda>r'. squash_writes ds (put_op k r' ws) other)
   | None \<Rightarrow> squash_writes (AList.delete k ds) (AList.update k w ws) other)"

definition squash_change_set ::
  "('k, 'ev) ChangeSetExt \<Rightarrow>
     ('k, 'ev) ChangeSet \<Rightarrow> (SquashError, ('k, 'ev) ChangeSetExt) outcome" where
  "squash_change_set self other =
     bind (squash_writes (ext_deltas self) (cs_write_set (ext_changes self)) (cs_write_set other)) (\<lambda>(ds, ws).
     bind (change_set_new ws (cs_events (ext_changes self) @ cs_events other) (ext_checker self)) (\<lambda>cs.
     Ok \<lparr>ext_deltas = ds, ext_changes = cs, ext_checker = ext_checker self\<rparr>))"

definition ext_squash ::
  "Codec \<Rightarrow> ('k, 'ev) ChangeSetExt \<Rightarrow>
     ('k, 'ev) ChangeSetExt \<Rightarrow> (SquashError, ('k, 'ev) ChangeSetExt) outcome" where
  "ext_squash B self other =
     bind (squash_change_set self (ext_changes other)) (\<lambda>x.
     squash_delta_change_set B x (ext_deltas other))"

section \<open>Transaction outputs\<close>

record ('k, 'ev, 'st) TransactionOutput =
  out_write_set :: "'k WriteSet"
  out_events :: "'ev list"
  out_gas_used :: u64
  out_status :: 'st

record ('k, 'ev, 'st) TransactionOutputExt =
  oext_deltas :: "('k \<times> DeltaOp) list"
  oext_output :: "('k, 'ev, 'st) TransactionOutput"

definition merge_delta_writes ::
  "('k, 'ev, 'st) TransactionOutput \<Rightarrow> 'k WriteSet \<Rightarrow> ('e, ('k, 'ev, 'st) TransactionOutput) outcome" where
  "merge_delta_writes out delta_writes =
     (case write_set_squash (out_write_set out) delta_writes of
        Ok ws \<Rightarrow> Ok (out\<lparr>out_write_set := ws\<rparr>)
      | _ \<Rightarrow> Panic)"

definition into_transaction_output ::
  "Codec \<Rightarrow> ('st \<Rightarrow> bool) \<Rightarrow> ('k \<Rightarrow> (unit, Bytes option) outcome) \<Rightarrow> ('k, 'ev, 'st) TransactionOutputExt \<Rightarrow>
     ('e, ('k, 'ev, 'st) TransactionOutput) outcome" where
  "into_transaction_output B is_discarded view x =
     (if is_discarded (out_status (oext_output x)) \<or> oext_deltas x = [] then Ok (oext_output x)
      else (case try_into_write_set_mut B view (oext_deltas x) of
              Ok ws \<Rightarrow> merge_delta_writes (oext_output x) ws
            | _ \<Rightarrow> Panic))"

definition output_with_delta_writes ::
  "('st \<Rightarrow> bool) \<Rightarrow> ('k, 'ev, 'st) TransactionOutputExt \<Rightarrow> 'k WriteSet \<Rightarrow>
     ('e, ('k, 'ev, 'st) TransactionOutput) outcome" where
  "output_with_delta_writes is_discarded x delta_writes =
     (if is_discarded (out_status (oext_output x)) \<or> oext_deltas x = [] then Ok (oext_output x)
      else if length (oext_deltas x) \<noteq> length delta_writes then Panic
      else merge_delta_writes (oext_output x) delta_writes)"

section \<open>The interface of a squashing loop\<close>

text \<open>
  The loops over the entries of the second change set have one contract: an
  entry changes the accumulated changes of its own key only, to what acts as
  the old changes followed by the entry.  The whole loop then composes.
\<close>

locale squash_loop =
  fixes inv :: "'s \<Rightarrow> bool"
    and act :: "'s \<Rightarrow> 'k \<Rightarrow> 'v \<Rightarrow> 'v option"
    and good :: "'k \<Rightarrow> 'x \<Rightarrow> bool"
    and xact :: "'x \<Rightarrow> 'v \<Rightarrow> 'v option"
    and loop :: "'s \<Rightarrow> ('k \<times> 'x) list \<Rightarrow> ('e, 's) outcome"
  assumes loop_Nil: "loop S [] = Ok S"
    and loop_Cons: "inv S \<Longrightarrow> good k x \<Longrightarrow> Option.bind (act S k v) (xact x) = Some w \<Longrightarrow>
      \<exists>S'. loop S ((k, x) # xs) = loop S' xs \<and> inv S' \<and> act S' k v = Some w \<and>
        (\<forall>k'. k' \<noteq> k \<longrightarrow> act S' k' = act S k')"
begin

definition entry_of :: "('k \<times> 'x) list \<Rightarrow> 'k \<Rightarrow> 'v \<Rightarrow> 'v option" where
  "entry_of xs k = (case map_of xs k of None \<Rightarrow> Some | Some x \<Rightarrow> xact x)"

lemma loop_composes:
  assumes "inv S" "distinct (map fst xs)" "\<forall>(k, x) \<in> set xs. good k x"
    and "\<And>k. Option.bind (act S k (\<sigma> k)) (entry_of xs k) = Some (\<tau> k)"
  shows "\<exists>S'. loop S xs = Ok S' \<and> inv S' \<and> (\<forall>k. act S' k (\<sigma> k) = Some (\<tau> k))"
  using assms
proof (induction xs arbitrary: S)
  case Nil
  then show ?case by (auto simp: loop_Nil entry_of_def split: bind_splits)
next
  case (Cons p xs)
  obtain k x where p: "p = (k, x)" by fastforce
  have "Option.bind (act S k (\<sigma> k)) (xact x) = Some (\<tau> k)"
    using Cons.prems(4) [of k] by (simp add: p entry_of_def)
  from loop_Cons [OF Cons.prems(1) _ this, of xs] Cons.prems(3)
  obtain S' where S': "loop S ((k, x) # xs) = loop S' xs" "inv S'" "act S' k (\<sigma> k) = Some (\<tau> k)"
      "\<And>k'. k' \<noteq> k \<Longrightarrow> act S' k' = act S k'"
    by (auto simp: p)
  have "map_of xs k = None"
    using Cons.prems(2) by (simp add: p map_of_eq_None_iff)
  then have "Option.bind (act S' a (\<sigma> a)) (entry_of xs a) = Some (\<tau> a)" for a
    using Cons.prems(4) [of a] S'(3,4) by (cases "a = k") (auto simp: p entry_of_def)
  then show ?case
    using Cons.IH [of S'] Cons.prems(2,3) S'(1,2) by (auto simp: p)
qed

end

section \<open>What the entries do to the state\<close>

text \<open>
  A write operation as a partial function on the value of its key: a creation
  needs an absent value, the other two a present one.
\<close>

fun write_act :: "WriteOp \<Rightarrow> Bytes option \<Rightarrow> Bytes option option" where
  "write_act (Creation dat) None = Some (Some dat)"
| "write_act (Modification dat) (Some _) = Some (Some dat)"
| "write_act Deletion (Some _) = Some None"
| "write_act _ _ = None"

definition delta_act :: "Codec \<Rightarrow> DeltaOp \<Rightarrow> Bytes option \<Rightarrow> Bytes option option" where
  "delta_act B d s = Option.bind s (\<lambda>b. Option.bind (from_bytes B b) (\<lambda>v.
     map_option (Some \<circ> to_bytes B) (ok (apply_to d v))))"

definition key_act :: "Codec \<Rightarrow> ('k \<times> DeltaOp) list \<times> 'k WriteSet \<Rightarrow> 'k \<Rightarrow> Bytes option \<Rightarrow> Bytes option option" where
  "key_act B S k = (case map_of (snd S) k of
     Some w \<Rightarrow> write_act w
   | None \<Rightarrow> (case map_of (fst S) k of Some d \<Rightarrow> delta_act B d | None \<Rightarrow> Some))"

text \<open>Every key once, no key with both a write and a delta, and the deltas of a key agree on its limit.\<close>

definition changes_ok :: "('k \<Rightarrow> u128) \<Rightarrow> ('k \<times> DeltaOp) list \<times> 'k WriteSet \<Rightarrow> bool" where
  "changes_ok L S \<longleftrightarrow> distinct (map fst (fst S)) \<and> distinct (map fst (snd S)) \<and>
     (\<forall>k. map_of (fst S) k = None \<or> map_of (snd S) k = None) \<and>
     (\<forall>k d. map_of (fst S) k = Some d \<longrightarrow> delta_wf d \<and> dop_limit d = L k)"

text \<open>Two operations squash exactly where some state lets one follow the other.\<close>

lemma squash_ops_act:
  assumes "Option.bind (write_act a s) (write_act b) = Some t"
  shows "\<exists>r. squash_ops a b = Ok r \<and> (case r of None \<Rightarrow> Some s | Some w \<Rightarrow> write_act w s) = Some t"
  using assms by (cases a; cases b; cases s) auto

lemma squash_ops_fail:
  "squash_ops a b = Err CannotSquash \<longleftrightarrow> (\<forall>s. Option.bind (write_act a s) (write_act b) = None)"
proof -
  have "\<exists>s t. Option.bind (write_act a s) (write_act b) = Some t" if "squash_ops a b \<noteq> Err CannotSquash"
    using that by (cases a; cases b) (simp; rule exI [of _ None] exI [of _ "Some []"]; simp)+
  moreover have "Option.bind (write_act a s) (write_act b) = None" if "squash_ops a b = Err CannotSquash" for s
    using that by (cases a; cases b; cases s) auto
  ultimately show ?thesis by force
qed

lemma map_of_put_op:
  "distinct (map fst ws) \<Longrightarrow> map_of (put_op k r ws) = (map_of ws)(k := r)"
  by (auto simp: put_op_def update_conv' delete_conv' fun_upd_idem split: option.split)

lemma distinct_put_op: "distinct (map fst ws) \<Longrightarrow> distinct (map fst (put_op k r ws))"
  by (auto simp: put_op_def distinct_update distinct_delete split: option.split)

lemmas alist_ops = map_of_put_op distinct_put_op update_conv' delete_conv' distinct_update distinct_delete

lemma write_step:
  assumes "changes_ok L S" "Option.bind (key_act B S k v) (write_act w) = Some t"
  shows "\<exists>S'. squash_writes (fst S) (snd S) ((k, w) # xs) = squash_writes (fst S') (snd S') xs \<and>
    changes_ok L S' \<and> key_act B S' k v = Some t \<and> (\<forall>k'. k' \<noteq> k \<longrightarrow> key_act B S' k' = key_act B S k')"
proof (cases "map_of (snd S) k")
  case (Some r)
  then have "Option.bind (write_act r v) (write_act w) = Some t" and d: "map_of (fst S) k = None"
    using assms by (auto simp: key_act_def changes_ok_def)
  from squash_ops_act [OF this(1)] obtain r' where
    r': "squash_ops r w = Ok r'" "(case r' of None \<Rightarrow> Some v | Some w \<Rightarrow> write_act w v) = Some t"
    by blast
  show ?thesis
    using assms(1) r' d Some
    by (intro exI [of _ "(fst S, put_op k r' (snd S))"])
       (auto simp: changes_ok_def key_act_def alist_ops split: option.splits)
next
  case None
  have "write_act w v = Some t"
  proof (cases "map_of (fst S) k")
    case (Some d)
    with assms(2) None obtain b s1 where "v = Some b" "write_act w (Some s1) = Some t"
      by (auto simp: key_act_def delta_act_def split: Option.bind_splits)
    then show ?thesis by (cases w) auto
  qed (use assms(2) None in \<open>auto simp: key_act_def\<close>)
  then show ?thesis
    using assms(1) None
    by (intro exI [of _ "(AList.delete k (fst S), AList.update k w (snd S))"])
       (auto simp: changes_ok_def key_act_def alist_ops split: option.split)
qed

lemma squash_delta_write_act:
  assumes "codec_ok B" "Option.bind (write_act r v) (delta_act B d) = Some t"
  shows "\<exists>r'. squash_delta_write B r d = Ok r' \<and> write_act r' v = Some t"
  using assms
  by (cases r; cases v) (auto simp: delta_act_def split: Option.bind_splits option.splits)

lemma delta_act_merge:
  assumes "codec_ok B" "delta_wf p" "dop_limit d = dop_limit p"
    and "Option.bind (delta_act B p v) (delta_act B d) = Some t"
  shows "\<exists>m. merge_onto d p = Ok m \<and> delta_act B m v = Some t"
proof -
  from assms(1,4) obtain b x y z where v: "v = Some b" "from_bytes B b = Some x" "apply_to p x = Ok y"
      "apply_to d y = Ok z" "t = Some (to_bytes B z)"
    by (auto simp: delta_act_def codec_ok_def split: Option.bind_splits)
  with merge_fails [OF assms(2,3), where v = x] obtain m where m: "merge_onto d p = Ok m"
    by (cases "merge_onto d p") (auto simp: merge_neq_Panic)
  have "ok (apply_to m x) = Some z"
    using merge_composes [OF assms(2,3) m, of x] v by simp
  then show ?thesis using m v by (auto simp: delta_act_def)
qed

lemma delta_step:
  assumes "changes_ok L S" "codec_ok B \<and> delta_wf d \<and> dop_limit d = L k"
    and "Option.bind (key_act B S k v) (delta_act B d) = Some t"
  shows "\<exists>S'. squash_deltas B (fst S) (snd S) ((k, d) # xs) = squash_deltas B (fst S') (snd S') xs \<and>
    changes_ok L S' \<and> key_act B S' k v = Some t \<and> (\<forall>k'. k' \<noteq> k \<longrightarrow> key_act B S' k' = key_act B S k')"
proof (cases "map_of (snd S) k")
  case (Some r)
  with squash_delta_write_act [of B r v d t] assms(2,3) obtain r' where
    r': "squash_delta_write B r d = Ok r'" "write_act r' v = Some t"
    by (auto simp: key_act_def)
  show ?thesis
    using assms(1) r' Some
    by (intro exI [of _ "(fst S, AList.update k r' (snd S))"])
       (auto simp: changes_ok_def key_act_def alist_ops split: option.split)
next
  case None
  show ?thesis
  proof (cases "map_of (fst S) k")
    case (Some p)
    with delta_act_merge [of B p d v t] assms None obtain m where
      m: "merge_onto d p = Ok m" "delta_act B m v = Some t"
      by (auto simp: key_act_def changes_ok_def)
    moreover have "delta_wf m \<and> dop_limit m = L k"
      using merge_delta_wf [OF _ _ m(1)] assms Some by (auto simp: changes_ok_def)
    ultimately show ?thesis
      using assms(1) None Some
      by (intro exI [of _ "(AList.update k m (fst S), snd S)"])
         (auto simp: changes_ok_def key_act_def alist_ops split: option.split)
  next
    case (None)
    with assms \<open>map_of (snd S) k = None\<close> show ?thesis
      by (intro exI [of _ "(AList.update k d (fst S), snd S)"])
         (auto simp: changes_ok_def key_act_def alist_ops split: option.split)
  qed
qed

lemma write_set_step:
  assumes "distinct (map fst ws)" "Option.bind (key_act B ([], ws) k v) (write_act w) = Some t"
  shows "\<exists>ws'. write_set_squash ws ((k, w) # xs) = write_set_squash ws' xs \<and> distinct (map fst ws') \<and>
    key_act B ([], ws') k v = Some t \<and> (\<forall>k'. k' \<noteq> k \<longrightarrow> key_act B ([], ws') k' = key_act B ([], ws) k')"
proof (cases "map_of ws k")
  case (Some r)
  with squash_ops_act [of r v w t] assms(2) obtain r' where
    r': "squash_ops r w = Ok r'" "(case r' of None \<Rightarrow> Some v | Some w \<Rightarrow> write_act w v) = Some t"
    by (auto simp: key_act_def)
  show ?thesis
    using assms(1) r' Some
    by (intro exI [of _ "put_op k r' ws"]) (auto simp: key_act_def alist_ops split: option.splits)
next
  case None
  then show ?thesis
    using assms by (intro exI [of _ "AList.update k w ws"]) (auto simp: key_act_def alist_ops split: option.split)
qed

interpretation writes: squash_loop "changes_ok L" "key_act B" "\<lambda>_ _. True" write_act
  "\<lambda>S. squash_writes (fst S) (snd S)" for L :: "'k \<Rightarrow> u128" and B
  by unfold_locales (simp, rule write_step)

interpretation deltas: squash_loop "changes_ok L" "key_act B"
  "\<lambda>k d. codec_ok B \<and> delta_wf d \<and> dop_limit d = L k" "delta_act B"
  "\<lambda>S. squash_deltas B (fst S) (snd S)" for L :: "'k \<Rightarrow> u128" and B
  by unfold_locales (simp, rule delta_step)

interpretation write_sets: squash_loop "\<lambda>ws. distinct (map fst ws)" "\<lambda>ws. key_act B ([], ws)"
  "\<lambda>_ _. True" write_act write_set_squash for B
  by unfold_locales (simp, rule write_set_step)

section \<open>Squashing is composition\<close>

definition ext_pair :: "('k, 'ev) ChangeSetExt \<Rightarrow> ('k \<times> DeltaOp) list \<times> 'k WriteSet" where
  "ext_pair x = (ext_deltas x, cs_write_set (ext_changes x))"

lemma squash_change_set_Ok:
  assumes "\<And>cs. ext_checker self cs = Ok ()"
    and "squash_writes (ext_deltas self) (cs_write_set (ext_changes self)) (cs_write_set other) = Ok S"
  shows "squash_change_set self other = Ok \<lparr>ext_deltas = fst S,
    ext_changes = \<lparr>cs_write_set = snd S, cs_events = cs_events (ext_changes self) @ cs_events other\<rparr>,
    ext_checker = ext_checker self\<rparr>"
  using assms by (simp add: squash_change_set_def change_set_new_def Let_def split: prod.split)

lemma squash_delta_change_set_Ok:
  assumes "\<And>cs. ext_checker self cs = Ok ()"
    and "squash_deltas B (ext_deltas self) (cs_write_set (ext_changes self)) other = Ok S"
  shows "squash_delta_change_set B self other = Ok \<lparr>ext_deltas = fst S,
    ext_changes = \<lparr>cs_write_set = snd S, cs_events = cs_events (ext_changes self)\<rparr>,
    ext_checker = ext_checker self\<rparr>"
  using assms by (simp add: squash_delta_change_set_def change_set_new_def Let_def split: prod.split)

text \<open>The state between the writes and the deltas of the second change set.\<close>

lemma key_act_split:
  assumes "changes_ok L S" "key_act B S k s = Some t"
  shows "\<exists>u. writes.entry_of (snd S) k s = Some u \<and> deltas.entry_of B (fst S) k u = Some t"
  using assms
  by (cases "map_of (snd S) k")
     (auto simp: key_act_def writes.entry_of_def deltas.entry_of_def changes_ok_def dest: spec [of _ k] split: option.split)

text \<open>C32. Squashing change sets is composition: let two change sets, each with every key once and
  no key under both a write and a delta, take the state \<open>\<sigma>\<close> one after the other to \<open>\<tau>\<close>, with deltas
  of a key agreeing on its limit and a checker that accepts.  Then \<open>squash\<close> succeeds, its result is
  well formed again, takes \<open>\<sigma>\<close> to \<open>\<tau>\<close> at every key, and carries the events of both in order.\<close>

theorem change_set_squash_composes:
  assumes "codec_ok B" "\<And>cs. ext_checker self cs = Ok ()"
    and "changes_ok L (ext_pair self)" "changes_ok L (ext_pair other)"
    and "\<And>k. Option.bind (key_act B (ext_pair self) k (\<sigma> k)) (key_act B (ext_pair other) k) = Some (\<tau> k)"
  shows "\<exists>r. ext_squash B self other = Ok r \<and> changes_ok L (ext_pair r) \<and>
    (\<forall>k. key_act B (ext_pair r) k (\<sigma> k) = Some (\<tau> k)) \<and>
    cs_events (ext_changes r) = cs_events (ext_changes self) @ cs_events (ext_changes other)"
proof -
  have "\<exists>u. Option.bind (key_act B (ext_pair self) k (\<sigma> k)) (writes.entry_of (snd (ext_pair other)) k) = Some u \<and>
      deltas.entry_of B (fst (ext_pair other)) k u = Some (\<tau> k)" for k
    using assms(5) [of k] key_act_split [OF assms(4), of B k] by (auto split: Option.bind_splits)
  then obtain \<mu> where \<mu>: "\<And>k. Option.bind (key_act B (ext_pair self) k (\<sigma> k))
      (writes.entry_of (snd (ext_pair other)) k) = Some (\<mu> k)"
      "\<And>k. deltas.entry_of B (fst (ext_pair other)) k (\<mu> k) = Some (\<tau> k)"
    by metis
  have d: "distinct (map fst (snd (ext_pair other)))" "distinct (map fst (fst (ext_pair other)))"
    "\<forall>(k, d) \<in> set (fst (ext_pair other)). codec_ok B \<and> delta_wf d \<and> dop_limit d = L k"
    using assms(1,4) by (auto simp: changes_ok_def)
  from writes.loop_composes [OF assms(3) d(1) _ \<mu>(1)] obtain S where
    S: "squash_writes (fst (ext_pair self)) (snd (ext_pair self)) (snd (ext_pair other)) = Ok S"
      "changes_ok L S" "\<And>k. key_act B S k (\<sigma> k) = Some (\<mu> k)"
    by blast
  have "Option.bind (key_act B S k (\<sigma> k)) (deltas.entry_of B (fst (ext_pair other)) k) = Some (\<tau> k)" for k
    using S(3) \<mu>(2) by simp
  from deltas.loop_composes [OF S(2) d(2,3) this] obtain T where
    T: "squash_deltas B (fst S) (snd S) (fst (ext_pair other)) = Ok T"
      "changes_ok L T" "\<And>k. key_act B T k (\<sigma> k) = Some (\<tau> k)"
    by blast
  show ?thesis
    using S(1) T assms(2)
    by (simp add: ext_squash_def ext_pair_def squash_change_set_Ok squash_delta_change_set_Ok)
qed

theorem change_set_squash_composes_witness:
  "\<exists>r. ext_squash be_codec
      \<lparr>ext_deltas = [(1, delta_add 2 10)],
       ext_changes = \<lparr>cs_write_set = [(2, Creation (to_be 16 (5 :: u128)))], cs_events = [''a'']\<rparr>,
       ext_checker = (\<lambda>_. Ok ())\<rparr>
      \<lparr>ext_deltas = [(1, delta_sub 4 10), (2, delta_add 3 10)],
       ext_changes = \<lparr>cs_write_set = [], cs_events = [''b'']\<rparr>,
       ext_checker = (\<lambda>_. Ok ())\<rparr> = Ok r \<and>
    key_act be_codec (ext_pair r) (2 :: nat) None = Some (Some (to_be 16 (8 :: u128))) \<and>
    key_act be_codec (ext_pair r) 1 (Some (to_be 16 (7 :: u128))) = Some (Some (to_be 16 (5 :: u128)))"
  (is "\<exists>r. ext_squash _ ?a ?b = _ \<and> _")
proof -
  let ?s = "\<lambda>k :: nat. if k = 1 then Some (to_be 16 (7 :: u128)) else None"
  let ?t = "\<lambda>k :: nat. if k = 1 then Some (to_be 16 (5 :: u128)) else if k = 2 then Some (to_be 16 (8 :: u128)) else None"
  note run = be_codec_def from_be_to_be ext_pair_def key_act_def delta_act_def apply_to_def delta_add_def
    delta_sub_def delta_new_def addition_eq subtraction_eq
  have "changes_ok (\<lambda>_. 10) (ext_pair ?a)" "changes_ok (\<lambda>_. 10) (ext_pair ?b)"
    by (auto simp: changes_ok_def ext_pair_def delta_wf_def delta_add_def delta_sub_def delta_new_def)
  moreover have "Option.bind (key_act be_codec (ext_pair ?a) k (?s k)) (key_act be_codec (ext_pair ?b) k) = Some (?t k)" for k
    by (simp add: run)
  ultimately obtain r where "ext_squash be_codec ?a ?b = Ok r"
    and "\<forall>k. key_act be_codec (ext_pair r) k (?s k) = Some (?t k)"
    using change_set_squash_composes [of be_codec ?a "\<lambda>_. 10" ?b ?s ?t] codec_ok_be by auto
  then show ?thesis
    by (auto dest: spec [of _ 1] spec [of _ "2 :: nat"])
qed

section \<open>Deltas in the output of a transaction\<close>

lemma try_into_write_op_Ok:
  assumes "view k = Ok s" "delta_act B d s = Some t"
  shows "\<exists>w. try_into_write_op B view d k = Ok w \<and> write_act w s = Some t"
  using assms
  by (auto simp: delta_act_def try_into_write_op_def deserialize_def split: Option.bind_splits)

lemma materialized_deltas:
  assumes "\<And>k. k \<in> fst ` set ds \<Longrightarrow> view k = Ok (\<sigma> k)" "distinct (map fst ds)"
    and "\<And>k. deltas.entry_of B ds k (\<sigma> k) = Some (\<tau> k)"
  shows "\<exists>ws. try_into_write_set_mut B view ds = Ok ws \<and> map fst ws = map fst ds \<and>
    (\<forall>k. writes.entry_of ws k (\<sigma> k) = Some (\<tau> k))"
  using assms
proof (induction ds arbitrary: \<tau>)
  case Nil
  then show ?case by (simp add: writes.entry_of_def deltas.entry_of_def)
next
  case (Cons p ds)
  obtain k d where p: "p = (k, d)" by fastforce
  have "delta_act B d (\<sigma> k) = Some (\<tau> k)" "view k = Ok (\<sigma> k)"
    using Cons.prems(1,3) [of k] by (simp_all add: p deltas.entry_of_def)
  from try_into_write_op_Ok [of view k "\<sigma> k" B d "\<tau> k", OF this(2,1)] obtain w where
    w: "try_into_write_op B view d k = Ok w" "write_act w (\<sigma> k) = Some (\<tau> k)"
    by blast
  have "map_of ds k = None" using Cons.prems(2) by (simp add: p map_of_eq_None_iff)
  then have "deltas.entry_of B ds a (\<sigma> a) = Some ((\<tau>(k := \<sigma> k)) a)" for a
    using Cons.prems(3) [of a] by (auto simp: p deltas.entry_of_def)
  from Cons.IH [OF _ _ this] Cons.prems(1,2) obtain ws where
    ws: "try_into_write_set_mut B view ds = Ok ws" "map fst ws = map fst ds"
      "\<And>a. writes.entry_of ws a (\<sigma> a) = Some ((\<tau>(k := \<sigma> k)) a)"
    by (auto simp: p)
  have "writes.entry_of ((k, w) # ws) a (\<sigma> a) = Some (\<tau> a)" for a
    using ws(3) [of a] w(2) by (auto simp: writes.entry_of_def)
  then show ?case using w(1) ws by (simp add: p)
qed

text \<open>C33. Materialising the deltas of an output: where the storage view shows the state \<open>\<sigma>\<close> at every
  delta key and the output with its deltas takes \<open>\<sigma>\<close> to \<open>\<tau>\<close>, \<open>into_transaction_output\<close> does not
  panic; the write set it returns takes \<open>\<sigma>\<close> to \<open>\<tau>\<close> alone, and events, gas and status are kept.  The
  block executor's \<open>output_with_delta_writes\<close> gives the same output from the materialised deltas.\<close>

theorem output_deltas_materialized:
  assumes "changes_ok L (oext_deltas x, out_write_set (oext_output x))"
    and "\<not> is_discarded (out_status (oext_output x))"
    and "\<And>k. k \<in> fst ` set (oext_deltas x) \<Longrightarrow> view k = Ok (\<sigma> k)"
    and "\<And>k. key_act B (oext_deltas x, out_write_set (oext_output x)) k (\<sigma> k) = Some (\<tau> k)"
  shows "\<exists>out. into_transaction_output B is_discarded view x = (Ok out :: ('e, _) outcome) \<and>
    (\<forall>k. key_act B ([], out_write_set out) k (\<sigma> k) = Some (\<tau> k)) \<and>
    out_events out = out_events (oext_output x) \<and> out_gas_used out = out_gas_used (oext_output x) \<and>
    out_status out = out_status (oext_output x) \<and>
    (\<forall>ws. try_into_write_set_mut B view (oext_deltas x) = Ok ws \<longrightarrow>
      output_with_delta_writes is_discarded x ws = (Ok out :: ('e, _) outcome))"
proof (cases "oext_deltas x = []")
  case True
  with assms(4) show ?thesis
    by (intro exI [of _ "oext_output x"]) (simp add: into_transaction_output_def output_with_delta_writes_def)
next
  case False
  let ?ds = "oext_deltas x" and ?ws = "out_write_set (oext_output x)"
  have w: "map_of ?ws k = None \<or> map_of ?ds k = None" for k
    using assms(1) unfolding changes_ok_def fst_conv snd_conv by metis
  define \<mu> where "\<mu> k = (if map_of ?ds k = None then \<sigma> k else \<tau> k)" for k
  have "deltas.entry_of B ?ds k (\<sigma> k) = Some (\<mu> k)" for k
    using assms(4) [of k] w [of k] by (auto simp: \<mu>_def deltas.entry_of_def key_act_def split: option.splits)
  from materialized_deltas [OF assms(3) _ this] assms(1) obtain ms where
    ms: "try_into_write_set_mut B view ?ds = Ok ms" "map fst ms = map fst ?ds"
      "\<And>k. writes.entry_of ms k (\<sigma> k) = Some (\<mu> k)"
    by (auto simp: changes_ok_def)
  have d: "map_of ms k = None \<longleftrightarrow> map_of ?ds k = None" for k
    using arg_cong [OF ms(2), of set] by (simp add: map_of_eq_None_iff)
  have "Option.bind (key_act B ([], ?ws) k (\<sigma> k)) (writes.entry_of ms k) = Some (\<tau> k)" for k
    using assms(4) [of k] w [of k] d [of k] ms(3) [of k]
    by (auto simp: key_act_def writes.entry_of_def \<mu>_def split: option.splits)
  from write_sets.loop_composes [of ?ws ms B \<sigma> \<tau>, OF _ _ _ this] assms(1) ms(2) obtain rs where
    rs: "write_set_squash ?ws ms = Ok rs" "\<And>k. key_act B ([], rs) k (\<sigma> k) = Some (\<tau> k)"
    by (auto simp: changes_ok_def writes.entry_of_def)
  have "length ms = length ?ds" using arg_cong [OF ms(2), of length] by simp
  with rs ms(1) False assms(2) show ?thesis
    by (intro exI [of _ "(oext_output x)\<lparr>out_write_set := rs\<rparr>"])
       (simp add: into_transaction_output_def output_with_delta_writes_def merge_delta_writes_def)
qed

theorem output_deltas_materialized_witness:
  "\<exists>out. into_transaction_output be_codec (\<lambda>b. b) (\<lambda>_. Ok (Some (to_be 16 (7 :: u128))))
      \<lparr>oext_deltas = [(1 :: nat, delta_add 2 10)],
       oext_output = \<lparr>out_write_set = [], out_events = [()], out_gas_used = 3, out_status = False\<rparr>\<rparr> =
      (Ok out :: (unit, _) outcome) \<and>
    key_act be_codec ([], out_write_set out) 1 (Some (to_be 16 (7 :: u128))) = Some (Some (to_be 16 (9 :: u128)))"
  (is "\<exists>out. into_transaction_output _ ?disc ?view ?x = _ \<and> _")
proof -
  let ?t = "\<lambda>k :: nat. if k = 1 then Some (to_be 16 (9 :: u128)) else Some (to_be 16 (7 :: u128))"
  have "changes_ok (\<lambda>_. 10) (oext_deltas ?x, out_write_set (oext_output ?x))"
    by (simp add: changes_ok_def delta_wf_def delta_add_def delta_new_def)
  moreover have "key_act be_codec (oext_deltas ?x, out_write_set (oext_output ?x)) k (Some (to_be 16 (7 :: u128))) = Some (?t k)" for k
    by (simp add: be_codec_def from_be_to_be key_act_def delta_act_def apply_to_def delta_add_def delta_new_def addition_eq subtraction_eq)
  ultimately obtain out where "into_transaction_output be_codec ?disc ?view ?x = (Ok out :: (unit, _) outcome)"
    and "\<forall>k. key_act be_codec ([], out_write_set out) k (Some (to_be 16 (7 :: u128))) = Some (?t k)"
    using output_deltas_materialized [of "\<lambda>_. 10" ?x ?disc ?view "\<lambda>_. Some (to_be 16 (7 :: u128))" be_codec ?t]
    by auto
  then show ?thesis by (auto dest: spec [of _ "1 :: nat"])
qed

end
