(* ===== verification/Parallel_Executor.thy ===== *)
theory Parallel_Executor
  imports Scheduler_Theorems Scheduler_Status Mv_Hashmap Change_Set
begin

text \<open>
  The parallel executor with its data
  (\<open>src/aptos-move/block-executor/src/executor.rs\<close>, \<open>view.rs\<close> and
  \<open>txn_last_input_output.rs\<close>): the workers of the scheduler execute
  transactions on the multi-version map, record what they read and wrote, and
  validate what was read.

  The virtual machine is a parameter: a transaction is a tree that asks its
  view for the values of keys and finishes with an output.  Values are write
  operations, outputs are transaction outputs with deltas
  (\<open>block_executor/mod.rs\<close>).  Every operation on the multi-version map, every
  access to a record of a transaction and every access to the scheduler is one
  action; the workers interleave between any two actions.
\<close>

section \<open>Outputs of transactions\<close>

datatype ('o, 'e) ExecutionStatus = Success 'o | Abort 'e | SkipRest 'o

text \<open>The status of an output; discard codes and execution statuses are parameters.\<close>

datatype ('c, 's) TxnStatus = Discard 'c | Keep 's | Retry

fun is_discarded :: "('c, 's) TxnStatus \<Rightarrow> bool" where
  "is_discarded (Discard _) \<longleftrightarrow> True"
| "is_discarded (Keep _) \<longleftrightarrow> False"
| "is_discarded Retry \<longleftrightarrow> True"

type_synonym ('k, 'ev, 'st) AptosTransactionOutput = "('k, 'ev, 'st) TransactionOutputExt"

type_synonym ('k, 'ev, 'st, 'e) TxnOutput = "(('k, 'ev, 'st) AptosTransactionOutput, 'e) ExecutionStatus"

definition get_writes :: "('k, 'ev, 'st) AptosTransactionOutput \<Rightarrow> ('k \<times> WriteOp) list" where
  "get_writes out = out_write_set (oext_output out)"

definition get_deltas :: "('k, 'ev, 'st) AptosTransactionOutput \<Rightarrow> ('k \<times> DeltaOp) list" where
  "get_deltas out = oext_deltas out"

fun extract_raw_bytes :: "WriteOp \<Rightarrow> Bytes option" where
  "extract_raw_bytes (Creation bytes) = Some bytes"
| "extract_raw_bytes (Modification bytes) = Some bytes"
| "extract_raw_bytes Deletion = None"

section \<open>Views\<close>

text \<open>
  What a transaction sees of a key: the bytes stored there, if any, or an
  error of the view.  The errors are not told apart.
\<close>

type_synonym Answer = "(unit, Bytes option) outcome"

datatype ('k, 'ev, 'st, 'e) vm =
    Ask 'k "Answer \<Rightarrow> ('k, 'ev, 'st, 'e) vm"
  | Finish "('k, 'ev, 'st, 'e) TxnOutput"

text \<open>
  The surroundings of a block: the codec of aggregator values, the view below
  the block, the module a key stands for, and the transactions.
\<close>

record ('k, 'ev, 'st, 'e, 'p) BlockEnv =
  codec :: Codec
  base_view :: "'k \<Rightarrow> Answer"
  module_path :: "'k \<Rightarrow> 'p option"
  txn :: "TxnIndex \<Rightarrow> ('k, 'ev, 'st, 'e) vm"

datatype ReadKind =
    Read_Version TxnIndex Incarnation
  | Read_Resolved u128
  | Read_Unresolved DeltaOp
  | Read_Storage
  | Read_DeltaApplicationFailure

record 'k ReadDescriptor =
  access_path :: 'k
  kind :: ReadKind

datatype ReadResult =
    Result_Value WriteOp
  | Result_U128 u128
  | Result_Unresolved DeltaOp
  | Result_None

type_synonym MVRead = "(MVHashMapError, WriteOp MVHashMapOutput) outcome"

text \<open>\<open>MVHashMapView::read\<close> but for a dependency: what is captured and what is returned.\<close>

fun capture :: "MVRead \<Rightarrow> (ReadKind \<times> ReadResult) option" where
  "capture (Ok (Version (idx, incarnation) v)) = Some (Read_Version idx incarnation, Result_Value v)"
| "capture (Ok (Resolved value)) = Some (Read_Resolved value, Result_U128 value)"
| "capture (Err NotFound) = Some (Read_Storage, Result_None)"
| "capture (Err (Unresolved d)) = Some (Read_Unresolved d, Result_Unresolved d)"
| "capture (Err DeltaApplicationFailure) = Some (Read_DeltaApplicationFailure, Result_U128 0)"
| "capture (Err (Dependency _)) = None"
| "capture Panic = None"

text \<open>\<open>LatestView::get_state_value\<close> on the multi-version map.\<close>

definition get_state_value :: "('k, 'ev, 'st, 'e, 'p) BlockEnv \<Rightarrow> 'k \<Rightarrow> ReadResult \<Rightarrow> Answer" where
  "get_state_value E state_key r = (case r of
     Result_Value v \<Rightarrow> Ok (extract_raw_bytes v)
   | Result_U128 v \<Rightarrow> Ok (Some (to_bytes (codec E) v))
   | Result_Unresolved d \<Rightarrow>
       bind (base_view E state_key) (\<lambda>maybe_bytes.
       case maybe_bytes of
         None \<Rightarrow> Err ()
       | Some bytes \<Rightarrow>
           bind (deserialize (codec E) bytes) (\<lambda>from_storage.
           bind (map_err (\<lambda>_. ()) (apply_to d from_storage)) (\<lambda>result.
           Ok (Some (to_bytes (codec E) result)))))
   | Result_None \<Rightarrow> base_view E state_key)"

text \<open>The comparison of a read with a captured one in \<open>validate\<close>.\<close>

fun validate_read :: "MVRead \<Rightarrow> ReadKind \<Rightarrow> bool" where
  "validate_read (Ok (Version (idx, incarnation) _)) r \<longleftrightarrow> r = Read_Version idx incarnation"
| "validate_read (Ok (Resolved value)) r \<longleftrightarrow> r = Read_Resolved value"
| "validate_read (Err (Dependency _)) r \<longleftrightarrow> False"
| "validate_read (Err (Unresolved d)) r \<longleftrightarrow> r = Read_Unresolved d"
| "validate_read (Err NotFound) r \<longleftrightarrow> r = Read_Storage"
| "validate_read (Err DeltaApplicationFailure) r \<longleftrightarrow> r = Read_DeltaApplicationFailure"
| "validate_read Panic r \<longleftrightarrow> False"

section \<open>The records of the transactions\<close>

record ('k, 'ev, 'st, 'e, 'p) TxnLastInputOutput =
  inputs :: "'k ReadDescriptor list option list"
  outputs :: "('k, 'ev, 'st, 'e) TxnOutput option list"
  module_writes :: "'p set"
  module_reads :: "'p set"
  module_read_write_intersection :: bool

definition last_input_output_new :: "nat \<Rightarrow> ('k, 'ev, 'st, 'e, 'p) TxnLastInputOutput" where
  "last_input_output_new num =
     \<lparr>inputs = replicate num None, outputs = replicate num None,
      module_writes = {}, module_reads = {}, module_read_write_intersection = False\<rparr>"

fun output_of :: "('o, 'e) ExecutionStatus \<Rightarrow> 'o option" where
  "output_of (Success out) = Some out"
| "output_of (SkipRest out) = Some out"
| "output_of (Abort e) = None"

text \<open>
  The keys a recorded output modifies.  The source collects them in a hash set,
  whose order is unspecified; here each key stands once, at its last position.
\<close>

definition keys_of :: "('k, 'ev, 'st, 'e) TxnOutput option \<Rightarrow> 'k list" where
  "keys_of r = (case Option.bind r output_of of
     None \<Rightarrow> []
   | Some t \<Rightarrow> remdups (map fst (get_writes t) @ map fst (get_deltas t)))"

section \<open>The shared state and its actions\<close>

record ('k, 'ev, 'st, 'e, 'p) Shared =
  sched :: Scheduler
  mvmap :: "('k, WriteOp) MVHashMap"
  last_io :: "('k, 'ev, 'st, 'e, 'p) TxnLastInputOutput"

type_synonym ('k, 'ev, 'st, 'e, 'p, 'a) xprog = "(('k, 'ev, 'st, 'e, 'p) Shared, 'a) prog"

text \<open>A program on the scheduler, on the shared state.\<close>

primrec on_sched :: "(Scheduler, 'a) prog \<Rightarrow> ('k, 'ev, 'st, 'e, 'p, 'a) xprog" where
  "on_sched (Return x) = Return x"
| "on_sched Crash = Crash"
| "on_sched (Act f) = Act (\<lambda>s. map_option (map_prod id (\<lambda>c. s\<lparr>sched := c\<rparr>)) (map_option (map_prod on_sched id) (f (sched s))))"

definition on_map :: "(('k, WriteOp) MVHashMap, unit, 'a) op \<Rightarrow> ('k, 'ev, 'st, 'e, 'p, 'a) xprog" where
  "on_map f = Act (\<lambda>s. case f (mvmap s) of
     (Ok x, m) \<Rightarrow> Some (Return x, s\<lparr>mvmap := m\<rparr>)
   | (_, m) \<Rightarrow> Some (Crash, s\<lparr>mvmap := m\<rparr>))"

definition map_read :: "('k, 'ev, 'st, 'e, 'p) BlockEnv \<Rightarrow> 'k \<Rightarrow> TxnIndex \<Rightarrow> ('k, 'ev, 'st, 'e, 'p, MVRead) xprog" where
  "map_read E key txn_idx = atomic (\<lambda>s. (mv_read (codec E) extract_raw_bytes (mvmap s) key txn_idx, s))"

definition on_record ::
  "(('k, 'ev, 'st, 'e, 'p) TxnLastInputOutput \<Rightarrow> 'a \<times> ('k, 'ev, 'st, 'e, 'p) TxnLastInputOutput) \<Rightarrow>
     ('k, 'ev, 'st, 'e, 'p, 'a) xprog" where
  "on_record f = atomic (\<lambda>s. case f (last_io s) of (x, r) \<Rightarrow> (x, s\<lparr>last_io := r\<rparr>))"

definition read_set :: "TxnIndex \<Rightarrow> ('k, 'ev, 'st, 'e, 'p, 'k ReadDescriptor list option) xprog" where
  "read_set txn_idx = attempt (\<lambda>s. if txn_idx < length (inputs (last_io s))
     then Some (inputs (last_io s) ! txn_idx, s) else None)"

definition modified_keys :: "TxnIndex \<Rightarrow> ('k, 'ev, 'st, 'e, 'p, 'k list) xprog" where
  "modified_keys txn_idx = attempt (\<lambda>s. if txn_idx < length (outputs (last_io s))
     then Some (keys_of (outputs (last_io s) ! txn_idx), s) else None)"

definition store_input :: "TxnIndex \<Rightarrow> 'k ReadDescriptor list \<Rightarrow> ('k, 'ev, 'st, 'e, 'p, unit) xprog" where
  "store_input txn_idx input = attempt (\<lambda>s. if txn_idx < length (inputs (last_io s))
     then Some ((), s\<lparr>last_io := (last_io s)\<lparr>inputs := (inputs (last_io s))[txn_idx := Some input]\<rparr>\<rparr>) else None)"

definition store_output :: "TxnIndex \<Rightarrow> ('k, 'ev, 'st, 'e) TxnOutput \<Rightarrow> ('k, 'ev, 'st, 'e, 'p, unit) xprog" where
  "store_output txn_idx out = attempt (\<lambda>s. if txn_idx < length (outputs (last_io s))
     then Some ((), s\<lparr>last_io := (last_io s)\<lparr>outputs := (outputs (last_io s))[txn_idx := Some out]\<rparr>\<rparr>) else None)"

text \<open>First show, then look.\<close>

fun append_and_check ::
  "'p list \<Rightarrow> ('p \<Rightarrow> ('k, 'ev, 'st, 'e, 'p, unit) xprog) \<Rightarrow> ('p \<Rightarrow> ('k, 'ev, 'st, 'e, 'p, bool) xprog) \<Rightarrow>
     ('k, 'ev, 'st, 'e, 'p, bool) xprog" where
  "append_and_check [] insert_in contained_in = Return False"
| "append_and_check (path # paths) insert_in contained_in =
     pbind (insert_in path) (\<lambda>_.
     pbind (contained_in path) (\<lambda>b.
     if b then Return True else append_and_check paths insert_in contained_in))"

definition append_reads :: "'p list \<Rightarrow> ('k, 'ev, 'st, 'e, 'p, bool) xprog" where
  "append_reads paths = append_and_check paths
     (\<lambda>path. on_record (\<lambda>r. ((), r\<lparr>module_reads := insert path (module_reads r)\<rparr>)))
     (\<lambda>path. on_record (\<lambda>r. (path \<in> module_writes r, r)))"

definition append_writes :: "'p list \<Rightarrow> ('k, 'ev, 'st, 'e, 'p, bool) xprog" where
  "append_writes paths = append_and_check paths
     (\<lambda>path. on_record (\<lambda>r. ((), r\<lparr>module_writes := insert path (module_writes r)\<rparr>)))
     (\<lambda>path. on_record (\<lambda>r. (path \<in> module_reads r, r)))"

definition read_modules :: "('k, 'ev, 'st, 'e, 'p) BlockEnv \<Rightarrow> 'k ReadDescriptor list \<Rightarrow> 'p list" where
  "read_modules E input = List.map_filter (\<lambda>desc. module_path E (access_path desc)) input"

definition written_modules :: "('k, 'ev, 'st, 'e, 'p) BlockEnv \<Rightarrow> ('k, 'ev, 'st, 'e) TxnOutput \<Rightarrow> 'p list" where
  "written_modules E out = (case output_of out of
     None \<Rightarrow> []
   | Some t \<Rightarrow> List.map_filter (\<lambda>(k, _). module_path E k) (get_writes t))"

definition record_io ::
  "('k, 'ev, 'st, 'e, 'p) BlockEnv \<Rightarrow> TxnIndex \<Rightarrow> 'k ReadDescriptor list \<Rightarrow> ('k, 'ev, 'st, 'e) TxnOutput \<Rightarrow>
     ('k, 'ev, 'st, 'e, 'p, unit) xprog" where
  "record_io E txn_idx input out =
     pbind (on_record (\<lambda>r. (module_read_write_intersection r, r))) (\<lambda>known.
     pbind (if known then Return ()
            else pbind (append_reads (read_modules E input)) (\<lambda>b.
                 pbind (if b then Return True else append_writes (written_modules E out)) (\<lambda>b.
                 if b then on_record (\<lambda>r. ((), r\<lparr>module_read_write_intersection := True\<rparr>))
                 else Return ()))) (\<lambda>_.
     pbind (store_input txn_idx input) (\<lambda>_.
     store_output txn_idx out)))"

section \<open>Executing and validating\<close>

text \<open>
  Where a worker is between two calls: it holds a task, it is inside the
  virtual machine with the reads captured so far, it waits for a dependency
  there, or it has left its loop.
\<close>

datatype ('k, 'ev, 'st, 'e) xpoint =
    XHolding SchedulerTask
  | XRunning Version "('k, 'ev, 'st, 'e) vm" "'k ReadDescriptor list"
  | XWaiting Version DependencyCondvar "('k, 'ev, 'st, 'e) vm" "'k ReadDescriptor list"
  | XStopped

type_synonym ('k, 'ev, 'st, 'e, 'p) xcall = "('k, 'ev, 'st, 'e, 'p, ('k, 'ev, 'st, 'e) xpoint) xprog"

text \<open>One iteration of the loop of a read: after a dependency the read is repeated.\<close>

definition view_read ::
  "('k, 'ev, 'st, 'e, 'p) BlockEnv \<Rightarrow> Version \<Rightarrow> 'k \<Rightarrow> (Answer \<Rightarrow> ('k, 'ev, 'st, 'e) vm) \<Rightarrow> 'k ReadDescriptor list \<Rightarrow>
     ('k, 'ev, 'st, 'e, 'p) xcall" where
  "view_read E version key cont captured_reads =
     pbind (map_read E key (fst version)) (\<lambda>r.
     case r of
       Err (Dependency dep_idx) \<Rightarrow>
         pbind (on_sched (wait_for_dependency (fst version) dep_idx)) (\<lambda>w. Return (case w of
           Some dep_condition \<Rightarrow> XWaiting version dep_condition (Ask key cont) captured_reads
         | None \<Rightarrow> XRunning version (Ask key cont) captured_reads))
     | _ \<Rightarrow> (case capture r of
         None \<Rightarrow> Crash
       | Some (k, res) \<Rightarrow> (case get_state_value E key res of
           Panic \<Rightarrow> Crash
         | a \<Rightarrow> Return (XRunning version (cont a) (captured_reads @ [\<lparr>access_path = key, kind = k\<rparr>])))))"

fun apply_writes ::
  "Version \<Rightarrow> 'k list \<Rightarrow> bool \<Rightarrow> ('k \<times> WriteOp) list \<Rightarrow> ('k, 'ev, 'st, 'e, 'p, 'k list \<times> bool) xprog" where
  "apply_writes version prev updates_outside [] = Return (prev, updates_outside)"
| "apply_writes version prev updates_outside ((k, v) # ws) =
     pbind (on_map (add_write k version v)) (\<lambda>_.
     apply_writes version (removeAll k prev) (updates_outside \<or> k \<notin> set prev) ws)"

fun apply_deltas ::
  "Version \<Rightarrow> 'k list \<Rightarrow> bool \<Rightarrow> ('k \<times> DeltaOp) list \<Rightarrow> ('k, 'ev, 'st, 'e, 'p, 'k list \<times> bool) xprog" where
  "apply_deltas version prev updates_outside [] = Return (prev, updates_outside)"
| "apply_deltas version prev updates_outside ((k, d) # ds) =
     pbind (on_map (add_delta k (fst version) d)) (\<lambda>_.
     apply_deltas version (removeAll k prev) (updates_outside \<or> k \<notin> set prev) ds)"

definition apply_updates ::
  "Version \<Rightarrow> 'k list \<Rightarrow> ('k, 'ev, 'st, 'e) TxnOutput \<Rightarrow> ('k, 'ev, 'st, 'e, 'p, 'k list \<times> bool) xprog" where
  "apply_updates version prev status = (case output_of status of
     None \<Rightarrow> Return (prev, False)
   | Some out \<Rightarrow>
       pbind (apply_writes version prev False (get_writes out)) (\<lambda>(prev, updates_outside).
       apply_deltas version prev updates_outside (get_deltas out)))"

fun delete_all :: "TxnIndex \<Rightarrow> 'k list \<Rightarrow> ('k, 'ev, 'st, 'e, 'p, unit) xprog" where
  "delete_all txn_idx [] = Return ()"
| "delete_all txn_idx (k # ks) = pbind (on_map (mv_delete k txn_idx)) (\<lambda>_. delete_all txn_idx ks)"

text \<open>\<open>execute\<close> after the virtual machine has finished.\<close>

definition finish_transaction ::
  "('k, 'ev, 'st, 'e, 'p) BlockEnv \<Rightarrow> Version \<Rightarrow> ('k, 'ev, 'st, 'e) TxnOutput \<Rightarrow> 'k ReadDescriptor list \<Rightarrow>
     ('k, 'ev, 'st, 'e, 'p) xcall" where
  "finish_transaction E version status captured_reads =
     pbind (modified_keys (fst version)) (\<lambda>prev_modified_keys.
     pbind (apply_updates version prev_modified_keys status) (\<lambda>(prev_modified_keys, updates_outside).
     pbind (delete_all (fst version) prev_modified_keys) (\<lambda>_.
     pbind (record_io E (fst version) captured_reads status) (\<lambda>_.
     pbind (on_sched (finish_execution (fst version) (snd version) updates_outside TaskGuard)) (\<lambda>task.
     Return (XHolding task))))))"

fun all_valid ::
  "('k, 'ev, 'st, 'e, 'p) BlockEnv \<Rightarrow> TxnIndex \<Rightarrow> 'k ReadDescriptor list \<Rightarrow> ('k, 'ev, 'st, 'e, 'p, bool) xprog" where
  "all_valid E txn_idx [] = Return True"
| "all_valid E txn_idx (r # rs) =
     pbind (map_read E (access_path r) txn_idx) (\<lambda>res.
     if res = Panic then Crash
     else if validate_read res (kind r) then all_valid E txn_idx rs else Return False)"

fun mark_all :: "TxnIndex \<Rightarrow> 'k list \<Rightarrow> ('k, 'ev, 'st, 'e, 'p, unit) xprog" where
  "mark_all txn_idx [] = Return ()"
| "mark_all txn_idx (k # ks) = pbind (on_map (mark_estimate k txn_idx)) (\<lambda>_. mark_all txn_idx ks)"

definition drop_task :: "('k, 'ev, 'st, 'e, 'p) xcall" where
  "drop_task = pbind (on_sched (drop_guard TaskGuard)) (\<lambda>_. Return (XHolding NoTask))"

definition validate :: "('k, 'ev, 'st, 'e, 'p) BlockEnv \<Rightarrow> Version \<Rightarrow> ('k, 'ev, 'st, 'e, 'p) xcall" where
  "validate E version =
     pbind (read_set (fst version)) (\<lambda>maybe_reads.
     case maybe_reads of
       None \<Rightarrow> Crash
     | Some reads \<Rightarrow>
         pbind (all_valid E (fst version) reads) (\<lambda>valid.
         if valid then drop_task
         else pbind (on_sched (try_abort (fst version) (snd version))) (\<lambda>aborted.
              if aborted
              then pbind (modified_keys (fst version)) (\<lambda>ks.
                   pbind (mark_all (fst version) ks) (\<lambda>_.
                   pbind (on_sched (finish_abort (fst version) (snd version) TaskGuard)) (\<lambda>task.
                   Return (XHolding task))))
              else drop_task)))"

text \<open>The loop of a worker.\<close>

inductive xturn ::
  "('k, 'ev, 'st, 'e, 'p) BlockEnv \<Rightarrow> ('k, 'ev, 'st, 'e, 'p) Shared \<Rightarrow> unit \<Rightarrow> ('k, 'ev, 'st, 'e) xpoint \<Rightarrow>
     (('k, 'ev, 'st, 'e, 'p) Shared, ('k, 'ev, 'st, 'e) xpoint) worker \<Rightarrow> unit \<Rightarrow> bool" for E where
  xturn_next: "xturn E s u (XHolding NoTask)
     (Call (pbind (on_sched next_task_round) (\<lambda>r. Return (XHolding (case r of None \<Rightarrow> NoTask | Some task \<Rightarrow> task))))) u"
| xturn_stop: "xturn E s u (XHolding Done) (At XStopped) u"
| xturn_execute: "xturn E s u (XHolding (ExecutionTask v None guard)) (At (XRunning v (txn E (fst v)) [])) u"
| xturn_resolve: "xturn E s u (XHolding (ExecutionTask v (Some c) guard))
     (Call (pbind (on_sched (notify_resolved c)) (\<lambda>_. drop_task))) u"
| xturn_validate: "xturn E s u (XHolding (ValidationTask v guard)) (Call (validate E v)) u"
| xturn_read: "xturn E s u (XRunning v (Ask k cont) reads) (Call (view_read E v k cont reads)) u"
| xturn_finish: "xturn E s u (XRunning v (Finish status) reads) (Call (finish_transaction E v status reads)) u"
| xturn_wake: "condvars (sched s) ! c \<Longrightarrow> xturn E s u (XWaiting v c tree reads) (At (XRunning v tree reads)) u"

definition shared_new :: "nat \<Rightarrow> ('k, 'ev, 'st, 'e, 'p) Shared" where
  "shared_new num = \<lparr>sched = scheduler_new num, mvmap = mv_new, last_io = last_input_output_new num\<rparr>"

type_synonym ('k, 'ev, 'st, 'e, 'p) xsystem =
  "(('k, 'ev, 'st, 'e, 'p) Shared, ('k, 'ev, 'st, 'e) xpoint, unit) system"

definition xreachable ::
  "('k, 'ev, 'st, 'e, 'p) BlockEnv \<Rightarrow> nat \<Rightarrow> nat \<Rightarrow> ('k, 'ev, 'st, 'e, 'p) xsystem \<Rightarrow> bool" where
  "xreachable E n m x \<longleftrightarrow> (system_step (xturn E))\<^sup>*\<^sup>* (start m (shared_new n) () (XHolding NoTask)) x"

section \<open>The result of a block\<close>

datatype 'e Error2 = ModulePathReadWrite | UserError 'e

text \<open>The loop over the recorded outputs; a missing record panics.\<close>

fun take_outputs ::
  "('o, 'e) ExecutionStatus option list \<Rightarrow> ('e Error2, 'o list) outcome" where
  "take_outputs [] = Ok []"
| "take_outputs (None # rs) = Panic"
| "take_outputs (Some (Success t) # rs) = bind (take_outputs rs) (\<lambda>ts. Ok (t # ts))"
| "take_outputs (Some (SkipRest t) # rs) = Ok [t]"
| "take_outputs (Some (Abort e) # rs) = Err (UserError e)"

definition resize_with :: "nat \<Rightarrow> 'o \<Rightarrow> 'o list \<Rightarrow> 'o list" where
  "resize_with n skip xs = take n xs @ replicate (n - length xs) skip"

text \<open>What \<open>execute_transactions_parallel\<close> returns when its workers have stopped.\<close>

definition parallel_result ::
  "('k, 'ev, 'st) AptosTransactionOutput \<Rightarrow> ('k, 'ev, 'st, 'e, 'p) Shared \<Rightarrow>
     ('e Error2, ('k, 'ev, 'st) AptosTransactionOutput list \<times> ('k, WriteOp) MVHashMap) outcome" where
  "parallel_result skip_output s =
     (if module_read_write_intersection (last_io s) then Err ModulePathReadWrite
      else bind (take_outputs (outputs (last_io s))) (\<lambda>final_results.
           Ok (resize_with (num_txn_to_execute (sched s)) skip_output final_results, mvmap s)))"

end
