(* ===== verification/Parallel_Map.thy ===== *)
theory Parallel_Map
  imports Parallel_Executor
begin

text \<open>
  What the multi-version map holds of one transaction, and which changes of it
  the readers of other transactions cannot see.
\<close>

section \<open>Entries\<close>

definition entry :: "('k, 'v) MVHashMap \<Rightarrow> 'k \<Rightarrow> TxnIndex \<Rightarrow> 'v Entry option" where
  "entry m k j = map_of (tree_of m k) j"

definition estimated :: "('k, 'v) MVHashMap \<Rightarrow> 'k \<Rightarrow> TxnIndex \<Rightarrow> bool" where
  "estimated m k j \<longleftrightarrow> (\<exists>e. entry m k j = Some e \<and> entry_flag e = FLAG_ESTIMATE)"

text \<open>\<open>m'\<close> is \<open>m\<close> with another entry, or none, of transaction \<open>j\<close> at key \<open>k\<close>.\<close>

definition replaced :: "('k, 'v) MVHashMap \<Rightarrow> 'k \<Rightarrow> TxnIndex \<Rightarrow> 'v Entry option \<Rightarrow> ('k, 'v) MVHashMap \<Rightarrow> bool" where
  "replaced m k j e m' \<longleftrightarrow> mv_wf m' \<and> (\<forall>k' j'. entry m' k' j' = (if k' = k \<and> j' = j then e else entry m k' j'))"

text \<open>The entries below a reader as a function of the entries.\<close>

lemma tree_eq_map:
  assumes "tree_wf t"
  shows "t = map (\<lambda>j. (j, the (map_of t j))) (map fst t)"
proof -
  have "distinct (map fst t)"
    using assms by (simp add: tree_wf_def strict_sorted_iff)
  then have "(j, e) \<in> set t \<Longrightarrow> e = the (map_of t j)" for j e by (simp add: map_of_is_SomeI)
  then show ?thesis by (auto simp: comp_def intro!: nth_equalityI) (metis nth_mem prod.collapse)
qed

lemma tree_wf_filter: "tree_wf t \<Longrightarrow> tree_wf (filter P t)"
  unfolding tree_wf_def by (induction t) auto

lemma map_of_below: "map_of (filter (\<lambda>(j, _). j < i) t) j = (if j < i then map_of t j else None)"
  by (induction t) auto

lemma filter_tree_eq:
  assumes "tree_wf t"
  shows "filter (\<lambda>(j, _). j < i) t = map (\<lambda>j. (j, the (map_of t j))) (filter (\<lambda>j. map_of t j \<noteq> None) [0..<i])"
proof -
  let ?f = "filter (\<lambda>(j, _). j < i) t"
  have wf: "tree_wf ?f" by (rule tree_wf_filter [OF assms])
  have "sorted_wrt (<) (map fst ?f)" using wf by (simp add: tree_wf_def)
  moreover have "sorted_wrt (<) (filter (\<lambda>j. map_of t j \<noteq> None) [0..<i])" by (simp add: sorted_wrt_filter)
  moreover have "set (map fst ?f) = set (filter (\<lambda>j. map_of t j \<noteq> None) [0..<i])"
  proof -
    have "set (map fst ?f) = dom (map_of ?f)" by (simp add: dom_map_of_conv_image_fst)
    also have "\<dots> = {j. j < i \<and> map_of t j \<noteq> None}" by (auto simp: map_of_below dom_def split: if_splits)
    finally show ?thesis by auto
  qed
  ultimately have "map fst ?f = filter (\<lambda>j. map_of t j \<noteq> None) [0..<i]"
    by (metis strict_sorted_equal)
  with tree_eq_map [OF wf] show ?thesis by (auto simp: map_of_below)
qed

lemma below_entry:
  assumes "mv_wf m"
  shows "below m k i = rev (map (\<lambda>j. (j, the (entry m k j))) (filter (\<lambda>j. entry m k j \<noteq> None) [0..<i]))"
  unfolding below_def entry_def filter_tree_eq [OF tree_of_wf [OF assms]] ..

lemma below_cong:
  assumes "mv_wf m" "mv_wf m'" "\<And>j. j < i \<Longrightarrow> entry m' k j = entry m k j"
  shows "below m' k i = below m k i"
proof -
  have "filter (\<lambda>j. entry m' k j \<noteq> None) [0..<i] = filter (\<lambda>j. entry m k j \<noteq> None) [0..<i]"
    using assms(3) by (intro filter_cong) auto
  then show ?thesis
    unfolding below_entry [OF assms(1)] below_entry [OF assms(2)] using assms(3) by auto
qed

lemma mv_read_cong:
  assumes "mv_wf m" "mv_wf m'" "\<And>j. j < i \<Longrightarrow> entry m' k j = entry m k j"
  shows "mv_read B data_of m' k i = mv_read B data_of m k i"
  by (simp add: mv_read_below below_cong [OF assms])

lemma mv_read_replaced:
  assumes "mv_wf m" "replaced m k j e m'" "k' \<noteq> k \<or> i \<le> j"
  shows "mv_read B data_of m' k' i = mv_read B data_of m k' i"
  using assms by (intro mv_read_cong) (auto simp: replaced_def)

text \<open>A read that meets no estimate stops above every estimate.\<close>

lemma read_loop_above:
  assumes "entry_flag e = FLAG_ESTIMATE" "\<And>i. read_loop B data_of (hi @ (j, e) # lo) acc \<noteq> Err (Dependency i)"
  shows "read_loop B data_of (hi @ ys) acc = read_loop B data_of (hi @ (j, e) # lo) acc"
  using assms(2)
proof (induction hi arbitrary: acc)
  case (Cons x hi)
  obtain i f where x: "x = (i, f)" by fastforce
  show ?case
  proof (cases "entry_flag f = FLAG_ESTIMATE")
    case False
    show ?thesis
    proof (cases "entry_cell f")
      case (Cell_Delta d)
      show ?thesis
      proof (cases acc)
        case None
        with Cons False Cell_Delta x show ?thesis by simp
      next
        case (Some a)
        with Cons False Cell_Delta x show ?thesis
          by (cases "merge_onto a d") auto
      qed
    qed (use False x in \<open>simp split: option.split\<close>)
  qed (use x in simp)
qed (use assms(1) in \<open>simp, blast\<close>)

lemma below_split:
  assumes "mv_wf m" "j < i" "entry m k j = Some e"
  obtains hi lo where "below m k i = hi @ (j, e) # lo" "\<And>m' x. replaced m k j x m' \<Longrightarrow>
    below m' k i = hi @ (case x of None \<Rightarrow> [] | Some e' \<Rightarrow> [(j, e')]) @ lo"
proof -
  let ?g = "\<lambda>m. \<lambda>xs. rev (map (\<lambda>j. (j, the (entry m k j))) (filter (\<lambda>j. entry m k j \<noteq> None) xs))"
  have u: "[0..<i] = [0..<j] @ j # [Suc j..<i]"
    using assms(2) using upt_add_eq_append [of 0 j "i - j"] by (simp add: upt_conv_Cons)
  have b: "below m k i = ?g m [Suc j..<i] @ (j, e) # ?g m [0..<j]"
    unfolding below_entry [OF assms(1)] u using assms(3) by simp
  have "below m' k i = ?g m [Suc j..<i] @ (case x of None \<Rightarrow> [] | Some e' \<Rightarrow> [(j, e')]) @ ?g m [0..<j]"
    if r: "replaced m k j x m'" for m' x
  proof -
    have e: "entry m' k j' = (if j' = j then x else entry m k j')" for j' using r by (simp add: replaced_def)
    have "?g m' xs = ?g m xs" if "j \<notin> set xs" for xs
      using that by (auto simp: e cong: filter_cong map_cong intro!: arg_cong [where f = rev] map_cong filter_cong)
    then have g: "?g m' [Suc j..<i] = ?g m [Suc j..<i]" "?g m' [0..<j] = ?g m [0..<j]" by simp_all
    have "below m' k i = ?g m' [Suc j..<i] @ ?g m' [j] @ ?g m' [0..<j]"
      using r unfolding replaced_def by (subst below_entry) (auto simp: u)
    then show ?thesis unfolding g by (simp add: e split: option.split)
  qed
  with b that show thesis by blast
qed

lemma mv_read_past_estimate:
  assumes "mv_wf m" "replaced m k j x m'" "estimated m k j"
    and "\<And>d. mv_read B data_of m k' i \<noteq> Err (Dependency d)"
  shows "mv_read B data_of m' k' i = mv_read B data_of m k' i"
proof (cases "k' = k \<and> j < i")
  case True
  obtain e where e: "entry m k j = Some e" "entry_flag e = FLAG_ESTIMATE"
    using assms(3) by (auto simp: estimated_def)
  from True obtain hi lo where b: "below m k i = hi @ (j, e) # lo"
      "below m' k i = hi @ (case x of None \<Rightarrow> [] | Some e' \<Rightarrow> [(j, e')]) @ lo"
    using below_split [OF assms(1) _ e(1), of i] assms(2) by metis
  have r: "read_loop B data_of (hi @ ys) None = read_loop B data_of (hi @ (j, e) # lo) None" for ys
    using read_loop_above [OF e(2), of B data_of hi j lo None] assms(4) True b(1) by (simp add: mv_read_below)
  moreover have "hi \<noteq> []" using assms(4) [of j] True b(1) e(2) by (auto simp: mv_read_below)
  ultimately show ?thesis
    using True b by (simp add: mv_read_below)
qed (use assms in \<open>auto intro!: mv_read_replaced\<close>)

section \<open>The operations\<close>

lemma replaced_insert:
  "mv_wf m \<Longrightarrow> replaced m k j (Some e) (AList.update k (tree_insert j e (tree_of m k)) m)"
  using tree_wf_insert [OF tree_of_wf [of m k], of j e]
  by (auto simp: replaced_def entry_def tree_of_update map_of_tree_insert tree_of_wf intro: mv_wf_update)

lemma add_write_replaces:
  assumes "mv_wf m" "\<And>e i v. entry m k j = Some e \<Longrightarrow> entry_cell e = Cell_Write i v \<Longrightarrow> i < inc"
  obtains m' where "add_write k (j, inc) w m = (Ok (), m')" "replaced m k j (Some (new_write_from FLAG_DONE inc w)) m'"
  using that [OF _ replaced_insert [OF assms(1)]] assms(2)
  by (fastforce simp: add_write_def Let_def entry_def split: option.splits EntryCell.splits)

lemma add_delta_replaces:
  assumes "mv_wf m"
  obtains m' where "add_delta k j d m = (Ok (), m')" "replaced m k j (Some (new_delta_from FLAG_DONE d)) m'"
  using that [OF _ replaced_insert [OF assms]] by (simp add: add_delta_def modify_def)

lemma entry_map_of: "entry m k j = Some e \<Longrightarrow> map_of m k = Some (tree_of m k)"
  by (auto simp: entry_def tree_of_def split: option.splits)

lemma mark_estimate_replaces:
  assumes "mv_wf m" "entry m k j = Some e"
  obtains m' where "mark_estimate k j m = (Ok (), m')" "replaced m k j (Some (entry_mark_estimate e)) m'"
  using that [OF _ replaced_insert [OF assms(1)]] assms(2) entry_map_of [OF assms(2)]
  by (simp add: mark_estimate_def entry_def)

lemma delete_replaces:
  assumes "mv_wf m" "entry m k j = Some e"
  obtains m' where "mv_delete k j m = (Ok (), m')" "replaced m k j None m'"
proof -
  have "replaced m k j None (AList.update k (tree_remove j (tree_of m k)) m)"
    using mv_wf_update [OF assms(1) tree_wf_remove [OF tree_of_wf [OF assms(1)]]]
    by (auto simp: replaced_def entry_def tree_of_update map_of_tree_remove)
  with that entry_map_of [OF assms(2)] show thesis by (simp add: mv_delete_def)
qed

section \<open>What a read returns\<close>

lemma in_below: "mv_wf m \<Longrightarrow> (j, e) \<in> set (below m k i) \<longleftrightarrow> j < i \<and> entry m k j = Some e"
  by (auto simp: below_entry)

lemma mv_read_version:
  assumes "mv_wf m" "mv_read B data_of m k i = Ok (Version (j, inc) w)"
  shows "\<exists>e. j < i \<and> entry m k j = Some e \<and> entry_cell e = Cell_Write inc w"
proof -
  from assms(2) have "read_loop B data_of (below m k i) None = Ok (Version (j, inc) w)"
    by (simp add: mv_read_below split: if_splits)
  from read_loop_version [OF this] in_below [OF assms(1)] show ?thesis by blast
qed

text \<open>One entry of the loop: it is an estimate, the loop goes on, or it ends without a dependency.\<close>

lemma read_loop_entry:
  obtains (estimate) "entry_flag e = FLAG_ESTIMATE" "read_loop B data_of ((i, e) # rest) acc = Err (Dependency i)"
  | (goes) acc' where "read_loop B data_of ((i, e) # rest) acc = read_loop B data_of rest acc'"
      "acc' \<noteq> None" "\<exists>d. entry_cell e = Cell_Delta d"
  | (stops) inc w where "entry_cell e = Cell_Write inc w"
      "\<And>j. read_loop B data_of ((i, e) # rest) acc \<noteq> Err (Dependency j)"
      "read_loop B data_of ((i, e) # rest) acc = Panic \<Longrightarrow> acc \<noteq> None \<and> (\<exists>b. data_of w = Some b \<and> from_bytes B b = None)"
  | (fails) "read_loop B data_of ((i, e) # rest) acc = Err DeltaApplicationFailure"
proof (cases "entry_flag e = FLAG_ESTIMATE")
  case flag: False
  show thesis
  proof (cases "entry_cell e")
    case (Cell_Delta d)
    show thesis
    proof (cases acc)
      case None
      with goes [of "Some d"] flag Cell_Delta show thesis by simp
    next
      case (Some a)
      with goes fails flag Cell_Delta show thesis by (cases rule: merge_onto_cases [of a d]) auto
    qed
  next
    case (Cell_Write inc w)
    show thesis
    proof (cases acc)
      case None
      with stops [OF Cell_Write] flag Cell_Write show thesis by simp
    next
      case (Some a)
      show thesis
      proof (cases "from_write B data_of w :: (MVHashMapError, u128 option) outcome")
        case (Ok r)
        have "apply_to a x \<noteq> Panic" for x using apply_to_neq_Panic .
        then have "bind (map_err (\<lambda>_. DeltaApplicationFailure) (apply_to a x)) (\<lambda>r. Ok (Resolved r)) \<notin> {Panic} \<union> range (Err \<circ> Dependency)" for x
          by (cases "apply_to a x") auto
        with Ok Some flag Cell_Write show thesis
          by (intro stops [OF Cell_Write]) (auto split: option.splits)
      qed (use stops [OF Cell_Write] flag Cell_Write Some in \<open>auto simp: from_write_def deserialize_def outcome_simps split: option.splits\<close>)
    qed
  qed
qed (use estimate in simp)

lemma read_loop_dependency: "read_loop B data_of ents acc = Err (Dependency j) \<Longrightarrow> j \<in> fst ` set ents"
proof (induction ents arbitrary: acc)
  case (Cons x ents)
  obtain i e where x: "x = (i, e)" by fastforce
  from Cons show ?case
    unfolding x by (cases rule: read_loop_entry [of e B data_of i ents acc]) auto
qed (auto split: option.splits)

lemma mv_read_dependency:
  assumes "mv_wf m" "mv_read B data_of m k i = Err (Dependency j)"
  shows "j < i"
proof -
  from assms(2) have "read_loop B data_of (below m k i) None = Err (Dependency j)"
    by (simp add: mv_read_below split: if_splits)
  from read_loop_dependency [OF this] in_below [OF assms(1)] show ?thesis by fastforce
qed

lemma read_loop_neq_Panic:
  assumes "\<And>i e inc w b. (i, e) \<in> set ents \<Longrightarrow> entry_cell e = Cell_Write inc w \<Longrightarrow> agg \<Longrightarrow>
      data_of w = Some b \<Longrightarrow> from_bytes B b \<noteq> None"
    and "\<And>i e d. (i, e) \<in> set ents \<Longrightarrow> entry_cell e = Cell_Delta d \<Longrightarrow> agg" "acc \<noteq> None \<Longrightarrow> agg"
  shows "read_loop B data_of ents acc \<noteq> Panic"
  using assms
proof (induction ents arbitrary: acc)
  case (Cons x ents)
  obtain i e where x: "x = (i, e)" by fastforce
  show ?case
    unfolding x
  proof (cases rule: read_loop_entry [of e B data_of i ents acc])
    case (goes acc')
    moreover have agg using Cons.prems(2) [of i e] goes(3) x by auto
    moreover have "read_loop B data_of ents acc' \<noteq> Panic"
      by (rule Cons.IH) (erule Cons.prems(1) [OF list.set_intros(2)], assumption+, rule \<open>agg\<close>, rule \<open>agg\<close>)
    ultimately show "read_loop B data_of ((i, e) # ents) acc \<noteq> Panic" by simp
  next
    case (stops inc w)
    with Cons.prems(1) [of i e inc w] Cons.prems(3) x show "read_loop B data_of ((i, e) # ents) acc \<noteq> Panic" by auto
  qed simp_all
qed (auto split: option.splits)

lemma mv_read_neq_Panic:
  assumes "mv_wf m"
    and "\<And>j e inc w b. entry m k j = Some e \<Longrightarrow> entry_cell e = Cell_Write inc w \<Longrightarrow> agg \<Longrightarrow>
      data_of w = Some b \<Longrightarrow> from_bytes B b \<noteq> None"
    and "\<And>j e d. entry m k j = Some e \<Longrightarrow> entry_cell e = Cell_Delta d \<Longrightarrow> agg"
  shows "mv_read B data_of m k i \<noteq> Panic"
proof -
  have "read_loop B data_of (below m k i) None \<noteq> Panic"
  proof (rule read_loop_neq_Panic [where agg = agg])
    show "from_bytes B b \<noteq> None"
      if "(j, e) \<in> set (below m k i)" "entry_cell e = Cell_Write inc w" agg "data_of w = Some b" for j e inc w b
      using assms(2) [OF _ that(2-4)] that(1) in_below [OF assms(1)] by blast
    show agg if "(j, e) \<in> set (below m k i)" "entry_cell e = Cell_Delta d" for j e d
      using assms(3) [OF _ that(2)] that(1) in_below [OF assms(1)] by blast
  qed simp
  then show ?thesis by (simp add: mv_read_below)
qed

end
