(* ===== verification/Parallel_Inv.thy ===== *)
theory Parallel_Inv
  imports Parallel_Map
begin

text \<open>
  The invariant of the data of the parallel executor: what the multi-version
  map holds of a transaction in each of its statuses, that a version names one
  value for ever, that a recorded run of a transaction can be replayed, and
  that the recorded reads of an executed transaction are up to date unless it
  is still to be validated, or a lower transaction is about to demand it.
\<close>

section \<open>Runs of the virtual machine\<close>

text \<open>The results a transaction can end with, on any answers of its view.\<close>

primrec leaf :: "('k, 'ev, 'st, 'e) vm \<Rightarrow> ('k, 'ev, 'st, 'e) TxnOutput \<Rightarrow> bool" where
  "leaf (Ask k c) status \<longleftrightarrow> (\<exists>a. leaf (c a) status)"
| "leaf (Finish s) status \<longleftrightarrow> status = s"

type_synonym 'k log = "('k ReadDescriptor \<times> Answer) list"

fun replay :: "('k, 'ev, 'st, 'e) vm \<Rightarrow> 'k log \<Rightarrow> ('k, 'ev, 'st, 'e) vm option" where
  "replay tree [] = Some tree"
| "replay (Ask k c) ((r, a) # log) = (if access_path r = k then replay (c a) log else None)"
| "replay (Finish s) (_ # _) = None"

lemma replay_append: "replay tree (l @ l') = Option.bind (replay tree l) (\<lambda>t. replay t l')"
  by (induction tree l rule: replay.induct) auto

lemma replay_leaf: "replay tree log = Some t \<Longrightarrow> leaf t status \<Longrightarrow> leaf tree status"
  by (induction tree log rule: replay.induct) (auto split: if_splits)

section \<open>What the executor expects of the transactions\<close>

text \<open>
  A key is a counter if some transaction may apply a delta to it.  What is
  stored at a counter, below the block or by a transaction of it, is an
  encoded integer; an output names every key once; the view below the block
  does not panic.
\<close>

definition counter :: "('k, 'ev, 'st, 'e, 'p) BlockEnv \<Rightarrow> 'k \<Rightarrow> bool" where
  "counter E k \<longleftrightarrow> (\<exists>i status out. leaf (txn E i) status \<and> output_of status = Some out \<and> k \<in> fst ` set (get_deltas out))"

definition decodes :: "('k, 'ev, 'st, 'e, 'p) BlockEnv \<Rightarrow> Bytes option \<Rightarrow> bool" where
  "decodes E r \<longleftrightarrow> (\<forall>b. r = Some b \<longrightarrow> from_bytes (codec E) b \<noteq> None)"

definition env_ok :: "('k, 'ev, 'st, 'e, 'p) BlockEnv \<Rightarrow> bool" where
  "env_ok E \<longleftrightarrow>
     (\<forall>k. base_view E k \<noteq> Panic) \<and>
     (\<forall>k b. counter E k \<longrightarrow> base_view E k = Ok b \<longrightarrow> decodes E b) \<and>
     (\<forall>i status out. leaf (txn E i) status \<longrightarrow> output_of status = Some out \<longrightarrow>
        distinct (map fst (get_writes out) @ map fst (get_deltas out)) \<and>
        (\<forall>k w. (k, w) \<in> set (get_writes out) \<longrightarrow> counter E k \<longrightarrow> decodes E (extract_raw_bytes w)))"

section \<open>The parts of the invariant\<close>

text \<open>
  What a worker has in hand: nothing; the reads of a running transaction with
  their answers; the entries a transaction has written so far, with the keys of
  its last incarnation still to be replaced, whether it wrote outside of them,
  and whether its reads are recorded; a transaction whose output is recorded,
  the reads still to be checked in a validation; a validation that failed; the
  keys of an aborted transaction still to be marked.
\<close>

datatype 'k tag =
    Free
  | Reads "'k log"
  | Writes Version "'k \<Rightarrow> WriteOp Entry option" "'k list" bool bool "'k log"
  | Recorded Version bool
  | Checks Version "'k ReadDescriptor list"
  | Rejects Version
  | Marks Version "'k list"

fun tag_txn :: "'k tag \<Rightarrow> TxnIndex option" where
  "tag_txn (Writes v new prev outside stored log) = Some (fst v)"
| "tag_txn (Recorded v outside) = Some (fst v)"
| "tag_txn (Marks v ks) = Some (fst v)"
| "tag_txn _ = None"

text \<open>The values ever written, by key and version.\<close>

type_synonym 'k history = "'k \<Rightarrow> Version \<Rightarrow> WriteOp option"

definition answer_ok :: "('k, 'ev, 'st, 'e, 'p) BlockEnv \<Rightarrow> 'k history \<Rightarrow> 'k ReadDescriptor \<Rightarrow> Answer \<Rightarrow> bool" where
  "answer_ok E H r a = (case kind r of
     Read_Version j inc \<Rightarrow> (\<exists>w. H (access_path r) (j, inc) = Some w \<and> a = get_state_value E (access_path r) (Result_Value w))
   | Read_Resolved v \<Rightarrow> a = get_state_value E (access_path r) (Result_U128 v)
   | Read_Unresolved d \<Rightarrow> a = get_state_value E (access_path r) (Result_Unresolved d)
   | Read_Storage \<Rightarrow> a = get_state_value E (access_path r) Result_None
   | Read_DeltaApplicationFailure \<Rightarrow> a = get_state_value E (access_path r) (Result_U128 0))"

definition agree :: "('k, 'ev, 'st, 'e, 'p) BlockEnv \<Rightarrow> 'k history \<Rightarrow> 'k log \<Rightarrow> bool" where
  "agree E H log \<longleftrightarrow> (\<forall>(r, a) \<in> set log. answer_ok E H r a)"

definition cell_ok :: "('k, 'ev, 'st, 'e, 'p) BlockEnv \<Rightarrow> 'k \<Rightarrow> WriteOp EntryCell \<Rightarrow> bool" where
  "cell_ok E k c = (case c of
     Cell_Write _ w \<Rightarrow> counter E k \<longrightarrow> decodes E (extract_raw_bytes w)
   | Cell_Delta _ \<Rightarrow> counter E k)"

definition cells_ok ::
  "('k, 'ev, 'st, 'e, 'p) BlockEnv \<Rightarrow> nat \<Rightarrow> ('k, WriteOp) MVHashMap \<Rightarrow> 'k history \<Rightarrow> bool" where
  "cells_ok E n m H \<longleftrightarrow> mv_wf m \<and>
     (\<forall>k j e. entry m k j = Some e \<longrightarrow> j < n \<and> cell_ok E k (entry_cell e) \<and>
        (\<forall>inc w. entry_cell e = Cell_Write inc w \<longrightarrow> H k (j, inc) = Some w))"

fun wrote :: "'k tag \<Rightarrow> 'k \<Rightarrow> Version \<Rightarrow> bool" where
  "wrote (Writes v new prev outside stored log) k v' \<longleftrightarrow> v' = v \<and> new k \<noteq> None"
| "wrote (Recorded v outside) k v' \<longleftrightarrow> v' = v"
| "wrote _ k v' \<longleftrightarrow> False"

definition fresh_ok :: "nat \<Rightarrow> TransactionStatus list \<Rightarrow> 'k history \<Rightarrow> (nat \<Rightarrow> 'k tag) \<Rightarrow> bool" where
  "fresh_ok n st H tg \<longleftrightarrow> (\<forall>k j inc w. H k (j, inc) = Some w \<longrightarrow> j < n \<and>
     (inc < incarnation_of (st ! j) \<or>
      inc = incarnation_of (st ! j) \<and> (\<not> live (st ! j) \<or> (\<exists>t. wrote (tg t) k (j, inc)))))"

definition entry_from :: "Incarnation \<Rightarrow> ('k, 'ev, 'st, 'e) TxnOutput option \<Rightarrow> 'k \<Rightarrow> WriteOp Entry option" where
  "entry_from inc r k = (case Option.bind r output_of of
     None \<Rightarrow> None
   | Some out \<Rightarrow> (case map_of (get_deltas out) k of
       Some d \<Rightarrow> Some (new_delta_from FLAG_DONE d)
     | None \<Rightarrow> map_option (new_write_from FLAG_DONE inc) (map_of (get_writes out) k)))"

definition full :: "('k, WriteOp) MVHashMap \<Rightarrow> Incarnation \<Rightarrow> ('k, 'ev, 'st, 'e) TxnOutput option \<Rightarrow> TxnIndex \<Rightarrow> bool" where
  "full m inc r j \<longleftrightarrow> (\<forall>k. entry m k j = entry_from inc r k)"

definition half :: "('k, WriteOp) MVHashMap \<Rightarrow> Incarnation \<Rightarrow> ('k, 'ev, 'st, 'e) TxnOutput option \<Rightarrow> TxnIndex \<Rightarrow> bool" where
  "half m inc r j \<longleftrightarrow> (\<forall>k. entry m k j = entry_from inc r k \<or> k \<in> set (keys_of r) \<and> estimated m k j)"

definition marked :: "('k, WriteOp) MVHashMap \<Rightarrow> 'k list \<Rightarrow> TxnIndex \<Rightarrow> bool" where
  "marked m ks j \<longleftrightarrow> (\<forall>k. if k \<in> set ks then estimated m k j else entry m k j = None)"

definition partial :: "('k, WriteOp) MVHashMap \<Rightarrow> ('k \<Rightarrow> WriteOp Entry option) \<Rightarrow> 'k list \<Rightarrow> TxnIndex \<Rightarrow> bool" where
  "partial m new prev j \<longleftrightarrow> (\<forall>k.
     (new k \<noteq> None \<longrightarrow> entry m k j = new k) \<and>
     (new k = None \<longrightarrow> k \<in> set prev \<longrightarrow> estimated m k j) \<and>
     (new k = None \<longrightarrow> k \<notin> set prev \<longrightarrow> entry m k j = None))"

definition content_ok ::
  "nat \<Rightarrow> TransactionStatus list \<Rightarrow> ('k, WriteOp) MVHashMap \<Rightarrow> ('k, 'ev, 'st, 'e) TxnOutput option list \<Rightarrow>
     (nat \<Rightarrow> 'k tag) \<Rightarrow> bool" where
  "content_ok n st m out tg \<longleftrightarrow> (\<forall>j < n.
     (\<forall>inc. st ! j = Executed inc \<longrightarrow> full m inc (out ! j) j) \<and>
     (\<forall>inc. st ! j = Aborting inc \<longrightarrow> half m inc (out ! j) j) \<and>
     (live (st ! j) \<longrightarrow> (\<forall>t. tag_txn (tg t) \<noteq> Some j) \<longrightarrow> marked m (keys_of (out ! j)) j))"

definition replays ::
  "('k, 'ev, 'st, 'e, 'p) BlockEnv \<Rightarrow> 'k history \<Rightarrow> TxnIndex \<Rightarrow> 'k ReadDescriptor list option \<Rightarrow>
     ('k, 'ev, 'st, 'e) TxnOutput option \<Rightarrow> bool" where
  "replays E H j i r \<longleftrightarrow> (\<exists>log status. i = Some (map fst log) \<and> r = Some status \<and> agree E H log \<and>
     replay (txn E j) log = Some (Finish status))"

definition records_ok ::
  "('k, 'ev, 'st, 'e, 'p) BlockEnv \<Rightarrow> nat \<Rightarrow> TransactionStatus list \<Rightarrow> 'k ReadDescriptor list option list \<Rightarrow>
     ('k, 'ev, 'st, 'e) TxnOutput option list \<Rightarrow> 'k history \<Rightarrow> bool" where
  "records_ok E n st inp out H \<longleftrightarrow> length inp = n \<and> length out = n \<and> (\<forall>j < n.
     (\<not> live (st ! j) \<or> 0 < incarnation_of (st ! j) \<longrightarrow> inp ! j \<noteq> None \<and> out ! j \<noteq> None) \<and>
     (\<forall>inc. st ! j = Executed inc \<longrightarrow> replays E H j (inp ! j) (out ! j)))"

fun tag_ok ::
  "('k, 'ev, 'st, 'e, 'p) BlockEnv \<Rightarrow> ('k, WriteOp) MVHashMap \<Rightarrow> 'k ReadDescriptor list option list \<Rightarrow>
     ('k, 'ev, 'st, 'e) TxnOutput option list \<Rightarrow> 'k history \<Rightarrow> 'k tag \<Rightarrow> bool" where
  "tag_ok E m inp out H (Reads log) \<longleftrightarrow> agree E H log"
| "tag_ok E m inp out H (Writes (j, inc) new prev outside stored log) \<longleftrightarrow> agree E H log \<and>
     partial m new prev j \<and> (stored \<longrightarrow> inp ! j = Some (map fst log))"
| "tag_ok E m inp out H (Recorded (j, inc) outside) \<longleftrightarrow> full m inc (out ! j) j \<and> replays E H j (inp ! j) (out ! j)"
| "tag_ok E m inp out H (Marks (j, inc) ks) \<longleftrightarrow> set ks \<subseteq> set (keys_of (out ! j)) \<and>
     (\<forall>k \<in> set (keys_of (out ! j)). k \<in> set ks \<or> estimated m k j)"
| "tag_ok E m inp out H _ \<longleftrightarrow> True"

definition valid_read :: "('k, 'ev, 'st, 'e, 'p) BlockEnv \<Rightarrow> ('k, WriteOp) MVHashMap \<Rightarrow> TxnIndex \<Rightarrow> 'k ReadDescriptor \<Rightarrow> bool" where
  "valid_read E m i r \<longleftrightarrow> validate_read (mv_read (codec E) extract_raw_bytes m (access_path r) i) (kind r)"

fun disturbs :: "'k tag \<Rightarrow> TxnIndex option" where
  "disturbs (Writes v new prev outside stored log) = (if outside then Some (fst v) else None)"
| "disturbs (Recorded v outside) = (if outside then Some (fst v) else None)"
| "disturbs (Marks v ks) = Some (fst v)"
| "disturbs _ = None"

definition excused :: "(nat \<Rightarrow> 'k tag) \<Rightarrow> TxnIndex \<Rightarrow> bool" where
  "excused tg i \<longleftrightarrow> (\<exists>t j. disturbs (tg t) = Some j \<and> j < i)"

fun awaits :: "'k tag \<Rightarrow> Version \<Rightarrow> 'k ReadDescriptor \<Rightarrow> bool" where
  "awaits (Checks v rs) v' r \<longleftrightarrow> v' = v \<and> r \<in> set rs"
| "awaits (Rejects v) v' r \<longleftrightarrow> v' = v"
| "awaits _ v' r \<longleftrightarrow> False"

definition valid_ok ::
  "('k, 'ev, 'st, 'e, 'p) BlockEnv \<Rightarrow> nat \<Rightarrow> TransactionStatus list \<Rightarrow> ('k, WriteOp) MVHashMap \<Rightarrow>
     'k ReadDescriptor list option list \<Rightarrow> TxnIndex set \<Rightarrow> (nat \<Rightarrow> 'k tag) \<Rightarrow> bool" where
  "valid_ok E n st m inp u tg \<longleftrightarrow> (\<forall>i < n. \<forall>inc rs. st ! i = Executed inc \<longrightarrow> i \<notin> u \<longrightarrow> inp ! i = Some rs \<longrightarrow>
     (\<forall>r \<in> set rs. valid_read E m i r \<or> excused tg i \<or> (\<exists>t. awaits (tg t) (i, inc) r)))"

definition data_ok ::
  "('k, 'ev, 'st, 'e, 'p) BlockEnv \<Rightarrow> nat \<Rightarrow> TransactionStatus list \<Rightarrow> ('k, WriteOp) MVHashMap \<Rightarrow>
     'k ReadDescriptor list option list \<Rightarrow> ('k, 'ev, 'st, 'e) TxnOutput option list \<Rightarrow>
     TxnIndex set \<Rightarrow> 'k history \<Rightarrow> (nat \<Rightarrow> 'k tag) \<Rightarrow> bool" where
  "data_ok E n st m inp out u H tg \<longleftrightarrow>
     cells_ok E n m H \<and> fresh_ok n st H tg \<and> content_ok n st m out tg \<and> records_ok E n st inp out H \<and>
     (\<forall>t. tag_ok E m inp out H (tg t)) \<and> valid_ok E n st m inp u tg"

section \<open>Monotonicity and framing\<close>

definition grows :: "'k history \<Rightarrow> 'k history \<Rightarrow> bool" where
  "grows H H' \<longleftrightarrow> (\<forall>k v w. H k v = Some w \<longrightarrow> H' k v = Some w)"

lemma grows_refl [simp]: "grows H H"
  by (simp add: grows_def)

lemma answer_ok_mono: "answer_ok E H r a \<Longrightarrow> grows H H' \<Longrightarrow> answer_ok E H' r a"
  by (auto simp: answer_ok_def grows_def split: ReadKind.splits)

lemma agree_mono: "agree E H log \<Longrightarrow> grows H H' \<Longrightarrow> agree E H' log"
  by (auto simp: agree_def intro: answer_ok_mono)

lemma replays_mono: "replays E H j i r \<Longrightarrow> grows H H' \<Longrightarrow> replays E H' j i r"
  unfolding replays_def using agree_mono by blast

lemma records_mono: "records_ok E n st inp out H \<Longrightarrow> grows H H' \<Longrightarrow> records_ok E n st inp out H'"
  unfolding records_ok_def using replays_mono by blast

lemma estimated_frame: "entry m' k j = entry m k j \<Longrightarrow> estimated m' k j = estimated m k j"
  by (simp add: estimated_def)

lemma content_frame:
  assumes "\<And>k. entry m' k j = entry m k j"
  shows "full m' inc r j = full m inc r j" "half m' inc r j = half m inc r j" "marked m' ks j = marked m ks j"
    "partial m' new prev j = partial m new prev j"
  using assms by (simp_all add: full_def half_def marked_def partial_def estimated_def)

lemma tag_ok_frame:
  assumes "tag_ok E m inp out H g" "grows H H'"
    and "\<And>j. tag_txn g = Some j \<Longrightarrow> (\<forall>k. entry m' k j = entry m k j) \<and> inp' ! j = inp ! j \<and> out' ! j = out ! j"
  shows "tag_ok E m' inp' out' H' g"
proof (cases "tag_txn g")
  case (Some j)
  then have e: "\<And>k. entry m' k j = entry m k j" "inp' ! j = inp ! j" "out' ! j = out ! j" using assms(3) by auto
  note frame = content_frame [of m' j m, OF e(1)]
  from Some assms(1) show ?thesis
    by (cases "(E, m, inp, out, H, g)" rule: tag_ok.cases)
      (auto simp: frame e estimated_def intro: agree_mono [OF _ assms(2)] replays_mono [OF _ assms(2)])
qed (use assms(1) in \<open>cases g; auto intro: agree_mono [OF _ assms(2)]\<close>)

lemma replaced_other: "replaced m k j x m' \<Longrightarrow> j' \<noteq> j \<Longrightarrow> entry m' k' j' = entry m k' j'"
  by (simp add: replaced_def)

lemma cells_replaced:
  assumes "cells_ok E n m H" "replaced m k j x m'" "grows H H'" "j < n"
    and "\<And>e. x = Some e \<Longrightarrow> cell_ok E k (entry_cell e) \<and>
      (\<forall>inc w. entry_cell e = Cell_Write inc w \<longrightarrow> H' k (j, inc) = Some w)"
  shows "cells_ok E n m' H'"
  using assms unfolding cells_ok_def replaced_def grows_def by (auto split: if_splits)

text \<open>One lemma for every step: what may have changed for the executed transactions.\<close>

lemma valid_step:
  assumes "valid_ok E n st m inp u tg"
    and "\<And>i inc. i < n \<Longrightarrow> st' ! i = Executed inc \<Longrightarrow> i \<notin> u' \<Longrightarrow> st ! i = Executed inc \<and> i \<notin> u \<and> inp' ! i = inp ! i"
    and "\<And>i inc r. i < n \<Longrightarrow> st' ! i = Executed inc \<Longrightarrow> i \<notin> u' \<Longrightarrow> valid_read E m i r \<Longrightarrow> valid_read E m' i r \<or> excused tg' i"
    and "\<And>i inc. i < n \<Longrightarrow> st' ! i = Executed inc \<Longrightarrow> i \<notin> u' \<Longrightarrow> excused tg i \<Longrightarrow> excused tg' i"
    and "\<And>i inc r t. i < n \<Longrightarrow> st' ! i = Executed inc \<Longrightarrow> i \<notin> u' \<Longrightarrow> awaits (tg t) (i, inc) r \<Longrightarrow>
      (\<exists>t. awaits (tg' t) (i, inc) r) \<or> valid_read E m' i r"
  shows "valid_ok E n st' m' inp' u' tg'"
  unfolding valid_ok_def
proof (intro allI impI ballI)
  fix i inc rs r
  assume i: "i < n" "st' ! i = Executed inc" "i \<notin> u'" "inp' ! i = Some rs" "r \<in> set rs"
  note old = assms(2) [OF i(1-3)]
  from assms(1) i(1,4,5) old consider "valid_read E m i r" | "excused tg i" | t where "awaits (tg t) (i, inc) r"
    unfolding valid_ok_def by metis
  then show "valid_read E m' i r \<or> excused tg' i \<or> (\<exists>t. awaits (tg' t) (i, inc) r)"
    by cases (use assms(3-5) i in blast)+
qed

text \<open>The steps of a worker that leave the map and the records alone.\<close>

lemma excused_upd: "excused tg i \<Longrightarrow> (\<And>j. disturbs (tg t) = Some j \<Longrightarrow> j < i \<Longrightarrow> disturbs g = Some j) \<Longrightarrow> excused (tg(t := g)) i"
  unfolding excused_def by (metis fun_upd_apply)

lemma awaits_upd:
  "awaits (tg t') v r \<Longrightarrow> (awaits (tg t) v r \<Longrightarrow> awaits g v r \<or> P) \<Longrightarrow> (\<exists>t'. awaits ((tg(t := g)) t') v r) \<or> P"
  by (metis fun_upd_apply)

end
