(* ===== verification/Parallel_Steps.thy ===== *)
theory Parallel_Steps
  imports Parallel_Inv
begin

text \<open>
  Every action of a worker of the parallel executor keeps the invariant of the
  data, given what the scheduler guarantees of its owner.
\<close>

section \<open>Steps that leave the map alone\<close>

lemma data_parts:
  assumes "data_ok E n st m inp out u H tg"
  shows "cells_ok E n m H" "fresh_ok n st H tg" "content_ok n st m out tg" "records_ok E n st inp out H"
    "tag_ok E m inp out H (tg t)" "valid_ok E n st m inp u tg"
  using assms by (simp_all add: data_ok_def)

text \<open>Statuses move among ready, executing and suspended.\<close>

lemma data_calm:
  assumes d: "data_ok E n st m inp out u H tg"
    and c: "\<And>j. j < n \<Longrightarrow> st' ! j = st ! j \<or> live (st ! j) \<and> live (st' ! j)"
    and i: "\<And>j. j < n \<Longrightarrow> incarnation_of (st' ! j) = incarnation_of (st ! j)"
  shows "data_ok E n st' m inp out u H tg"
proof -
  have l: "live (st' ! j) = live (st ! j)" if "j < n" for j using c [OF that] by auto
  have e: "st' ! j = x \<longleftrightarrow> st ! j = x" if "j < n" "\<not> live x" for j x using c [OF that(1)] that(2) by auto
  have "fresh_ok n st' H tg"
    using data_parts(2) [OF d] i l unfolding fresh_ok_def by metis
  moreover have "content_ok n st' m out tg"
    using data_parts(3) [OF d] by (simp add: content_ok_def l e)
  moreover have "records_ok E n st' inp out H"
    using data_parts(4) [OF d] by (simp add: records_ok_def l e i)
  moreover have "valid_ok E n st' m inp u tg"
    using data_parts(6) [OF d] by (simp add: valid_ok_def e)
  ultimately show ?thesis using d by (simp add: data_ok_def)
qed

lemma wrote_txn: "wrote g k (j, inc) \<Longrightarrow> tag_txn g = Some j"
  by (cases g) auto

lemma disturbs_txn: "disturbs g = Some j \<Longrightarrow> tag_txn g = Some j"
  by (cases g) (auto split: if_splits)

lemma awaits_txn: "awaits g v r \<Longrightarrow> tag_txn g = None"
  by (cases g) auto

lemma content_untagged:
  assumes "content_ok n st m out tg" "tag_txn (tg t) = None"
  shows "content_ok n st m out (tg(t := g))"
  using assms unfolding content_ok_def by (metis fun_upd_apply option.distinct(1))

lemma fresh_untagged:
  assumes "fresh_ok n st H tg" "tag_txn (tg t) = None"
  shows "fresh_ok n st H (tg(t := g))"
proof -
  have "\<not> wrote (tg t) k (j, inc)" for k j inc using assms(2) wrote_txn by force
  then show ?thesis using assms(1) unfolding fresh_ok_def by (metis fun_upd_apply)
qed

text \<open>A worker that answers for no transaction takes another tag.\<close>

lemma data_untagged:
  assumes d: "data_ok E n st m inp out u H tg" and t: "tag_txn (tg t) = None"
    and g: "tag_ok E m inp out H g"
    and a: "\<And>i inc r. i < n \<Longrightarrow> st ! i = Executed inc \<Longrightarrow> awaits (tg t) (i, inc) r \<Longrightarrow>
      awaits g (i, inc) r \<or> valid_read E m i r"
  shows "data_ok E n st m inp out u H (tg(t := g))"
proof -
  have "valid_ok E n st m inp u (tg(t := g))"
  proof (rule valid_step [OF data_parts(6) [OF d]])
    show "excused (tg(t := g)) i" if "excused tg i" for i
      by (rule excused_upd [OF that]) (use t disturbs_txn in force)
    show "(\<exists>t'. awaits ((tg(t := g)) t') (i, inc) r) \<or> valid_read E m i r"
      if "i < n" "st ! i = Executed inc" "awaits (tg t') (i, inc) r" for i inc r t'
      by (rule awaits_upd [of tg t', OF that(3)]) (use a that in blast)
  qed auto
  then show ?thesis
    using d t g by (simp add: data_ok_def fresh_untagged content_untagged)
qed

text \<open>A validation starts: the transaction no longer needs one, its reads are to be checked.\<close>

lemma data_check:
  assumes d: "data_ok E n st m inp out u H tg" and t: "tg t = Free" and r: "inp ! i = Some rs"
  shows "data_ok E n st m inp out (if st ! i = Executed inc then u - {i} else u) H (tg(t := Checks (i, inc) rs))"
proof -
  let ?tg = "tg(t := Checks (i, inc) rs)" and ?u = "if st ! i = Executed inc then u - {i} else u"
  have d': "data_ok E n st m inp out u H ?tg"
    by (rule data_untagged [OF d]) (simp_all add: t)
  have "valid_ok E n st m inp ?u ?tg"
    unfolding valid_ok_def
  proof (intro allI impI ballI)
    fix i' inc' rs' r'
    assume a: "i' < n" "st ! i' = Executed inc'" "i' \<notin> ?u" "inp ! i' = Some rs'" "r' \<in> set rs'"
    show "valid_read E m i' r' \<or> excused ?tg i' \<or> (\<exists>t'. awaits (?tg t') (i', inc') r')"
    proof (cases "i' = i \<and> st ! i = Executed inc")
      case True
      then have "awaits (?tg t) (i', inc') r'" using a r by simp
      then show ?thesis by blast
    next
      case False
      with a have "i' \<notin> u" by (auto split: if_splits)
      with data_parts(6) [OF d'] a show ?thesis unfolding valid_ok_def by blast
    qed
  qed
  with d' show ?thesis by (simp add: data_ok_def)
qed

section \<open>The steps of an execution\<close>

definition alone :: "(nat \<Rightarrow> 'k tag) \<Rightarrow> nat \<Rightarrow> TxnIndex \<Rightarrow> bool" where
  "alone tg t j \<longleftrightarrow> (\<forall>t'. t' \<noteq> t \<longrightarrow> tag_txn (tg t') \<noteq> Some j)"

lemma data_write_start:
  assumes d: "data_ok E n st m inp out u H tg" and t: "tag_txn (tg t) = None" "\<And>v r. \<not> awaits (tg t) v r"
    and j: "j < n" "live (st ! j)" "alone tg t j" and g: "agree E H log"
  shows "data_ok E n st m inp out u H (tg(t := Writes (j, inc) (\<lambda>_. None) (keys_of (out ! j)) False False log))"
proof (rule data_untagged [OF d t(1)])
  have "marked m (keys_of (out ! j)) j"
    using data_parts(3) [OF d] j t(1) unfolding content_ok_def alone_def by (metis option.distinct(1))
  with g show "tag_ok E m inp out H (Writes (j, inc) (\<lambda>_. None) (keys_of (out ! j)) False False log)"
    by (auto simp: marked_def partial_def split: if_splits)
qed (use t in blast)

text \<open>The owner of a live transaction changes one of its entries.\<close>

lemma content_owner:
  assumes "content_ok n st m out tg" "replaced m k j x m'" "live (st ! j)" "alone tg t j"
    and "tag_txn (tg t) = Some j" "tag_txn g = Some j"
  shows "content_ok n st m' out (tg(t := g))"
  unfolding content_ok_def
proof (intro allI impI conjI)
  fix i assume i: "i < n"
  have old: "entry m' k' i = entry m k' i" if "i \<noteq> j" for k' using assms(2) that by (simp add: replaced_def)
  show "full m' inc (out ! i) i" if "st ! i = Executed inc" for inc
    using assms(1,3) i that content_frame(1) [OF old, of inc "out ! i"] by (cases "i = j") (auto simp: content_ok_def)
  show "half m' inc (out ! i) i" if "st ! i = Aborting inc" for inc
    using assms(1,3) i that content_frame(2) [OF old, of inc "out ! i"] by (cases "i = j") (auto simp: content_ok_def)
  assume l: "live (st ! i)" and no: "\<forall>t'. tag_txn ((tg(t := g)) t') \<noteq> Some i"
  from no assms(6) have "i \<noteq> j" by (metis fun_upd_same)
  moreover from no assms(5) have "\<forall>t'. tag_txn (tg t') \<noteq> Some i"
    using \<open>i \<noteq> j\<close> by (metis fun_upd_apply option.inject)
  ultimately show "marked m' (keys_of (out ! i)) i"
    using assms(1) i l content_frame(3) [OF old, of "keys_of (out ! i)"] by (simp add: content_ok_def)
qed

lemma tags_owner:
  assumes "\<And>t. tag_ok E m inp out H (tg t)" "replaced m k j x m'" "alone tg t j" "grows H H'"
    and "tag_ok E m' inp out H' g"
  shows "tag_ok E m' inp out H' ((tg(t := g)) t')"
proof (cases "t' = t")
  case False
  with assms have "tag_txn (tg t') \<noteq> Some j" by (simp add: alone_def)
  with False assms(1) [of t'] replaced_other [OF assms(2)] show ?thesis
    by (auto intro!: tag_ok_frame [OF assms(1) [of t'] assms(4)])
qed (use assms(5) in simp)

lemma valid_owner:
  assumes d: "valid_ok E n st m inp u tg" and r: "replaced m k j x m'" and wf: "mv_wf m"
    and t: "tag_txn (tg t) = Some j" "disturbs (tg t) \<noteq> None \<Longrightarrow> disturbs g = Some j"
    and seen: "estimated m k j \<or> disturbs g = Some j"
  shows "valid_ok E n st m' inp u (tg(t := g))"
proof (rule valid_step [OF d])
  fix i inc r' assume v: "valid_read E m i r'"
  show "valid_read E m' i r' \<or> excused (tg(t := g)) i"
  proof (cases "estimated m k j \<or> i \<le> j")
    case True
    then have "mv_read (codec E) extract_raw_bytes m' (access_path r') i = mv_read (codec E) extract_raw_bytes m (access_path r') i"
    proof
      assume "estimated m k j"
      moreover have "mv_read (codec E) extract_raw_bytes m (access_path r') i \<noteq> Err (Dependency d)" for d
        using v by (auto simp: valid_read_def)
      ultimately show ?thesis by (rule mv_read_past_estimate [OF wf r])
    qed (auto intro: mv_read_replaced [OF wf r])
    with v show ?thesis by (simp add: valid_read_def)
  next
    case False
    with seen have "disturbs ((tg(t := g)) t) = Some j" "j < i" by simp_all
    then show ?thesis unfolding excused_def by blast
  qed
next
  show "excused (tg(t := g)) i" if "excused tg i" for i
    by (rule excused_upd [OF that]) (use t disturbs_txn in force)
  show "(\<exists>t'. awaits ((tg(t := g)) t') (i, inc) r') \<or> valid_read E m' i r'" if "awaits (tg t') (i, inc) r'" for i inc r' t'
    by (rule awaits_upd [of tg t', OF that]) (use t(1) awaits_txn in force)
qed auto

lemma data_write:
  assumes d: "data_ok E n st m inp out u H tg" and t: "tg t = Writes (j, inc) new prev outside False log"
    and j: "j < n" "live (st ! j)" "incarnation_of (st ! j) = inc" "alone tg t j" and k: "new k = None"
    and r: "replaced m k j (Some e) m'" and e: "cell_ok E k (entry_cell e)"
    and w: "\<And>i v. entry_cell e = Cell_Write i v \<Longrightarrow> i = inc"
  shows "\<exists>H'. data_ok E n st m' inp out u H'
    (tg(t := Writes (j, inc) (new(k := Some e)) (removeAll k prev) (outside \<or> k \<notin> set prev) False log))"
proof -
  let ?g = "Writes (j, inc) (new(k := Some e)) (removeAll k prev) (outside \<or> k \<notin> set prev) False log"
  define H' where "H' = (case entry_cell e of Cell_Write _ v \<Rightarrow> H(k := (H k)((j, inc) := Some v)) | Cell_Delta _ \<Rightarrow> H)"
  note p = data_parts [OF d]
  have wf: "mv_wf m" using p(1) by (simp add: cells_ok_def)
  have "H k (j, inc) = None"
  proof (rule ccontr)
    assume "H k (j, inc) \<noteq> None"
    then obtain t' where "wrote (tg t') k (j, inc)" using p(2) j(2,3) by (fastforce simp: fresh_ok_def)
    with j(4) wrote_txn have "t' = t" by (fastforce simp: alone_def)
    with \<open>wrote (tg t') k (j, inc)\<close> t k show False by simp
  qed
  then have gr: "grows H H'" by (auto simp: grows_def H'_def split: EntryCell.splits)
  have f: "fresh_ok n st H' (tg(t := ?g))"
    unfolding fresh_ok_def
  proof (intro allI impI)
    fix k' j' inc' v assume h: "H' k' (j', inc') = Some v"
    show "j' < n \<and> (inc' < incarnation_of (st ! j') \<or> inc' = incarnation_of (st ! j') \<and>
        (\<not> live (st ! j') \<or> (\<exists>t'. wrote ((tg(t := ?g)) t') k' (j', inc'))))"
    proof (cases "k' = k \<and> (j', inc') = (j, inc)")
      case True
      then have "wrote ((tg(t := ?g)) t) k' (j', inc')" by simp
      with True j show ?thesis by blast
    next
      case False
      with h have "H k' (j', inc') = Some v" by (auto simp: H'_def split: EntryCell.splits if_splits)
      moreover have "wrote (tg t') k' (j', inc') \<Longrightarrow> \<exists>t'. wrote ((tg(t := ?g)) t') k' (j', inc')" for t'
        using t by (cases "t' = t") (auto intro: exI [of _ t] exI [of _ t'])
      ultimately show ?thesis using p(2) unfolding fresh_ok_def by blast
    qed
  qed
  have g: "tag_ok E m' inp out H' ?g"
    using p(5) [of t] t r agree_mono [OF _ gr]
    by (auto simp: partial_def replaced_def estimated_def)
  have "cells_ok E n m' H'"
    by (rule cells_replaced [OF p(1) r gr j(1)]) (use e w in \<open>auto simp: H'_def\<close>)
  moreover have "content_ok n st m' out (tg(t := ?g))"
    by (rule content_owner [OF p(3) r j(2,4)]) (simp_all add: t)
  moreover have "records_ok E n st inp out H'"
    by (rule records_mono [OF p(4) gr])
  moreover have "valid_ok E n st m' inp u (tg(t := ?g))"
    using p(5) [of t] by (intro valid_owner [OF p(6) r wf]) (auto simp: t partial_def k split: if_splits)
  ultimately show ?thesis
    using f tags_owner [OF p(5) r j(4) gr g] unfolding data_ok_def by blast
qed

lemma content_upd:
  assumes "content_ok n st m out tg" "tag_txn (tg t) = tag_txn g"
  shows "content_ok n st m out (tg(t := g))"
proof -
  have "tag_txn ((tg(t := g)) t') = tag_txn (tg t')" for t' using assms(2) by simp
  with assms(1) show ?thesis by (simp add: content_ok_def del: fun_upd_apply)
qed

lemma content_out:
  assumes "content_ok n st m out tg" "live (st ! j)" "tag_txn (tg t) = Some j"
  shows "content_ok n st m (out[j := x]) tg"
  unfolding content_ok_def
proof (intro allI impI)
  fix i assume i: "i < n"
  show "(\<forall>inc. st ! i = Executed inc \<longrightarrow> full m inc (out[j := x] ! i) i) \<and>
     (\<forall>inc. st ! i = Aborting inc \<longrightarrow> half m inc (out[j := x] ! i) i) \<and>
     (live (st ! i) \<longrightarrow> (\<forall>t'. tag_txn (tg t') \<noteq> Some i) \<longrightarrow> marked m (keys_of (out[j := x] ! i)) i)"
    using assms i by (cases "i = j") (auto simp: content_ok_def)
qed

lemma fresh_upd:
  assumes "fresh_ok n st H tg" "\<And>k v. wrote (tg t) k v \<Longrightarrow> wrote g k v"
  shows "fresh_ok n st H (tg(t := g))"
proof -
  have "\<exists>t'. wrote ((tg(t := g)) t') k v" if "wrote (tg t') k v" for t' k v
    using that assms(2) by (cases "t' = t") (auto intro: exI [of _ t] exI [of _ t'])
  with assms(1) show ?thesis unfolding fresh_ok_def by blast
qed

lemma data_delete:
  assumes d: "data_ok E n st m inp out u H tg" and t: "tg t = Writes (j, inc) new prev outside False log"
    and j: "j < n" "live (st ! j)" "alone tg t j" and k: "k \<in> set prev" "new k = None"
    and r: "replaced m k j None m'"
  shows "data_ok E n st m' inp out u H (tg(t := Writes (j, inc) new (removeAll k prev) outside False log))"
proof -
  let ?g = "Writes (j, inc) new (removeAll k prev) outside False log"
  note p = data_parts [OF d]
  have wf: "mv_wf m" using p(1) by (simp add: cells_ok_def)
  have f: "fresh_ok n st H (tg(t := ?g))"
    by (rule fresh_upd [OF p(2)]) (simp add: t)
  have g: "tag_ok E m' inp out H ?g"
    using p(5) [of t] t r k by (auto simp: partial_def replaced_def estimated_def)
  have "cells_ok E n m' H"
    by (rule cells_replaced [OF p(1) r grows_refl j(1)]) simp
  moreover have "content_ok n st m' out (tg(t := ?g))"
    by (rule content_owner [OF p(3) r j(2,3)]) (simp_all add: t)
  moreover have "valid_ok E n st m' inp u (tg(t := ?g))"
    using p(5) [of t] by (intro valid_owner [OF p(6) r wf]) (auto simp: t partial_def k split: if_splits)
  ultimately show ?thesis
    using f p(4) tags_owner [OF p(5) r j(3) grows_refl g] unfolding data_ok_def by blast
qed

text \<open>The records of the reads and of the output.\<close>

lemma tags_record:
  assumes "\<And>t. tag_ok E m inp out H (tg t)" "alone tg t j" "tag_ok E m inp' out' H g"
    and "\<And>i. i \<noteq> j \<Longrightarrow> inp' ! i = inp ! i \<and> out' ! i = out ! i"
  shows "tag_ok E m inp' out' H ((tg(t := g)) t')"
proof (cases "t' = t")
  case False
  with assms(2) have "tag_txn (tg t') \<noteq> Some j" by (simp add: alone_def)
  with False assms(4) show ?thesis
    by (auto intro!: tag_ok_frame [OF assms(1) [of t'] grows_refl])
qed (use assms(3) in simp)

lemma data_store_input:
  assumes d: "data_ok E n st m inp out u H tg" and t: "tg t = Writes (j, inc) new prev outside False log"
    and j: "j < n" "live (st ! j)" "alone tg t j"
  shows "data_ok E n st m (inp[j := Some (map fst log)]) out u H (tg(t := Writes (j, inc) new prev outside True log))"
proof -
  let ?g = "Writes (j, inc) new prev outside True log" and ?inp = "inp[j := Some (map fst log)]"
  note p = data_parts [OF d]
  have l: "length inp = n" using p(4) by (simp add: records_ok_def)
  have same: "disturbs (tg t) = disturbs ?g" "tag_txn (tg t) = tag_txn ?g"
    by (simp_all add: t)
  have "fresh_ok n st H (tg(t := ?g))"
    by (rule fresh_upd [OF p(2)]) (simp add: t)
  moreover have "content_ok n st m out (tg(t := ?g))"
    by (rule content_upd [OF p(3) same(2)])
  moreover have "records_ok E n st ?inp out H"
    using p(4) j by (auto simp: records_ok_def nth_list_update)
  moreover have "tag_ok E m ?inp out H ((tg(t := ?g)) t')" for t'
  proof (rule tags_record [OF p(5) j(3)])
    show "tag_ok E m ?inp out H ?g" using p(5) [of t] t l j(1) by simp
  qed simp
  moreover have "valid_ok E n st m ?inp u (tg(t := ?g))"
  proof (rule valid_step [OF p(6)])
    show "excused (tg(t := ?g)) i" if "excused tg i" for i
      by (rule excused_upd [OF that]) (simp add: same)
    show "(\<exists>t'. awaits ((tg(t := ?g)) t') (i, inc) r') \<or> valid_read E m i r'" if "awaits (tg t') (i, inc) r'" for i inc r' t'
      by (rule awaits_upd [of tg t', OF that]) (use t in simp)
    show "st ! i = Executed inc \<and> i \<notin> u \<and> ?inp ! i = inp ! i" if "st ! i = Executed inc" "i \<notin> u" for i inc
      using that j(2) by (cases "i = j") auto
  qed auto
  ultimately show ?thesis using p(1) by (simp add: data_ok_def)
qed

lemma data_store_output:
  assumes d: "data_ok E n st m inp out u H tg" and t: "tg t = Writes (j, inc) new [] outside True log"
    and j: "j < n" "live (st ! j)" "alone tg t j"
    and o: "\<And>k. entry_from inc (Some status) k = new k" "replay (txn E j) log = Some (Finish status)"
  shows "data_ok E n st m inp (out[j := Some status]) u H (tg(t := Recorded (j, inc) outside))"
proof -
  let ?g = "Recorded (j, inc) outside" and ?out = "out[j := Some status]"
  note p = data_parts [OF d]
  have l: "length out = n" using p(4) by (simp add: records_ok_def)
  have same: "disturbs (tg t) = disturbs ?g" "tag_txn (tg t) = tag_txn ?g"
    by (simp_all add: t)
  have "fresh_ok n st H (tg(t := ?g))"
    by (rule fresh_upd [OF p(2)]) (simp add: t)
  moreover have "content_ok n st m ?out (tg(t := ?g))"
    by (rule content_out [OF content_upd [OF p(3) same(2)] j(2), of t]) simp
  moreover have "records_ok E n st inp ?out H"
    using p(4) j by (auto simp: records_ok_def nth_list_update)
  moreover have "tag_ok E m inp ?out H ((tg(t := ?g)) t')" for t'
  proof (rule tags_record [OF p(5) j(3)])
    have k: "partial m new [] j" "agree E H log" "inp ! j = Some (map fst log)" using p(5) [of t] t by simp_all
    then have "full m inc (Some status) j" by (auto simp: full_def partial_def o(1)) (metis option.exhaust)
    with k o(2) l j(1) show "tag_ok E m inp ?out H ?g" by (auto simp: replays_def)
  qed simp
  moreover have "valid_ok E n st m inp u (tg(t := ?g))"
  proof (rule valid_step [OF p(6)])
    show "excused (tg(t := ?g)) i" if "excused tg i" for i
      by (rule excused_upd [OF that]) (use same(1) in simp)
    show "(\<exists>t'. awaits ((tg(t := ?g)) t') (i, inc) r') \<or> valid_read E m i r'" if "awaits (tg t') (i, inc) r'" for i inc r' t'
      by (rule awaits_upd [of tg t', OF that]) (use t in simp)
  qed auto
  ultimately show ?thesis using p(1) by (simp add: data_ok_def)
qed

section \<open>The steps that change a status\<close>

lemma entry_from_keys: "entry_from inc r k = None \<longleftrightarrow> k \<notin> set (keys_of r)"
  by (auto simp: entry_from_def keys_of_def map_of_eq_None_iff split: option.splits dest: map_of_SomeD)
    (metis fst_conv image_eqI map_of_SomeD)+

text \<open>The owner of a transaction changes its status and answers no longer for it.\<close>

lemma fresh_release:
  assumes "fresh_ok n st H tg" "tag_txn (tg t) = Some j" "length st = n"
    and "\<And>inc. inc \<le> incarnation_of (st ! j) \<Longrightarrow> inc < incarnation_of x \<or> inc = incarnation_of x \<and> \<not> live x"
  shows "fresh_ok n (st[j := x]) H (tg(t := g))"
  unfolding fresh_ok_def
proof (intro allI impI)
  fix k i inc w assume "H k (i, inc) = Some w"
  with assms(1) have i: "i < n" "inc < incarnation_of (st ! i) \<or> inc = incarnation_of (st ! i) \<and> (\<not> live (st ! i) \<or> (\<exists>t. wrote (tg t) k (i, inc)))"
    unfolding fresh_ok_def by blast+
  show "i < n \<and> (inc < incarnation_of (st[j := x] ! i) \<or> inc = incarnation_of (st[j := x] ! i) \<and>
     (\<not> live (st[j := x] ! i) \<or> (\<exists>t'. wrote ((tg(t := g)) t') k (i, inc))))"
  proof (cases "i = j")
    case True
    with i assms(3) assms(4) [of inc] show ?thesis by auto
  next
    case False
    then have "\<not> wrote (tg t) k (i, inc)" using assms(2) wrote_txn by force
    then have "wrote (tg t') k (i, inc) \<Longrightarrow> wrote ((tg(t := g)) t') k (i, inc)" for t' by auto
    with i False show ?thesis by (metis nth_list_update_neq)
  qed
qed

lemma content_status:
  assumes "content_ok n st m out tg" "j < n" "length st = n" "tag_txn (tg t) \<in> {None, Some j}"
    and "\<And>inc. x = Executed inc \<Longrightarrow> full m inc (out ! j) j" "\<And>inc. x = Aborting inc \<Longrightarrow> half m inc (out ! j) j"
    and "live x \<Longrightarrow> marked m (keys_of (out ! j)) j"
  shows "content_ok n (st[j := x]) m out (tg(t := g))"
  unfolding content_ok_def
proof (intro allI impI)
  fix i assume i: "i < n"
  show "(\<forall>inc. st[j := x] ! i = Executed inc \<longrightarrow> full m inc (out ! i) i) \<and>
     (\<forall>inc. st[j := x] ! i = Aborting inc \<longrightarrow> half m inc (out ! i) i) \<and>
     (live (st[j := x] ! i) \<longrightarrow> (\<forall>t'. tag_txn ((tg(t := g)) t') \<noteq> Some i) \<longrightarrow> marked m (keys_of (out ! i)) i)"
  proof (cases "i = j")
    case False
    have "tag_txn ((tg(t := g)) t') \<noteq> Some i \<Longrightarrow> tag_txn (tg t') \<noteq> Some i" for t'
      using assms(4) False by (cases "t' = t") auto
    then show ?thesis using assms(1) i False unfolding content_ok_def by auto
  qed (use assms i in auto)
qed

lemma data_conclude:
  assumes d: "data_ok E n st m inp out u H tg" and t: "tg t = Recorded (j, inc) outside"
    and j: "j < n" "st ! j = Executing inc" "length st = n"
  shows "data_ok E n (st[j := Executed inc]) m inp out (disturbed j outside n u) H (tg(t := Free))"
proof -
  note p = data_parts [OF d]
  have k: "full m inc (out ! j) j" "replays E H j (inp ! j) (out ! j)" using p(5) [of t] t by simp_all
  have "fresh_ok n (st[j := Executed inc]) H (tg(t := Free))"
    by (rule fresh_release [OF p(2) _ j(3)]) (auto simp: t j(2))
  moreover have "content_ok n (st[j := Executed inc]) m out (tg(t := Free))"
    by (rule content_status [OF p(3) j(1,3)]) (use k t in auto)
  moreover have "records_ok E n (st[j := Executed inc]) inp out H"
    using p(4) k(2) j by (auto simp: records_ok_def nth_list_update replays_def)
  moreover have "valid_ok E n (st[j := Executed inc]) m inp (disturbed j outside n u) (tg(t := Free))"
  proof (rule valid_step [OF p(6)])
    fix i i' assume i: "i < n" "st[j := Executed inc] ! i = Executed i'" "i \<notin> disturbed j outside n u"
    then show "st ! i = Executed i' \<and> i \<notin> u \<and> inp ! i = inp ! i"
      by (cases "i = j") (auto simp: disturbed_def)
    show "excused (tg(t := Free)) i" if "excused tg i"
      by (rule excused_upd [OF that]) (use i t in \<open>auto simp: disturbed_def split: if_splits\<close>)
    show "(\<exists>t'. awaits ((tg(t := Free)) t') (i, i') r) \<or> valid_read E m i r" if "awaits (tg t') (i, i') r" for r t'
      by (rule awaits_upd [of tg t', OF that]) (simp add: t)
  qed auto
  ultimately show ?thesis using p(1,5) by (auto simp: data_ok_def)
qed

lemma data_abort:
  assumes d: "data_ok E n st m inp out u H tg" and t: "tg t = Rejects (j, inc)"
    and j: "j < n" "st ! j = Executed inc" "length st = n"
  shows "data_ok E n (st[j := Aborting inc]) m inp out u H (tg(t := Marks (j, inc) (keys_of (out ! j))))"
proof -
  let ?g = "Marks (j, inc) (keys_of (out ! j))"
  note p = data_parts [OF d]
  have k: "full m inc (out ! j) j" using p(3) j by (simp add: content_ok_def)
  have "fresh_ok n (st[j := Aborting inc]) H (tg(t := ?g))"
  proof -
    have "fresh_ok n (st[j := Aborting inc]) H tg"
      using p(2) j unfolding fresh_ok_def by (metis incarnation_of.simps(4,5) live.simps(1,2) nth_list_update)
    then show ?thesis by (rule fresh_untagged) (simp add: t)
  qed
  moreover have "content_ok n (st[j := Aborting inc]) m out (tg(t := ?g))"
    by (rule content_status [OF p(3) j(1,3)]) (use k t in \<open>auto simp: full_def half_def\<close>)
  moreover have "records_ok E n (st[j := Aborting inc]) inp out H"
    using p(4) j by (auto simp: records_ok_def nth_list_update)
  moreover have "valid_ok E n (st[j := Aborting inc]) m inp u (tg(t := ?g))"
  proof (rule valid_step [OF p(6)])
    fix i i' assume i: "i < n" "st[j := Aborting inc] ! i = Executed i'" "i \<notin> u"
    then have ne: "i \<noteq> j" using j by auto
    with i show "st ! i = Executed i' \<and> i \<notin> u \<and> inp ! i = inp ! i" by simp
    show "excused (tg(t := ?g)) i" if "excused tg i"
      by (rule excused_upd [OF that]) (simp add: t)
    show "(\<exists>t'. awaits ((tg(t := ?g)) t') (i, i') r) \<or> valid_read E m i r" if "awaits (tg t') (i, i') r" for r t'
      by (rule awaits_upd [of tg t', OF that]) (use t ne in simp)
  qed auto
  ultimately show ?thesis using p(1,5) by (auto simp: data_ok_def)
qed

lemma data_mark_entry:
  assumes d: "data_ok E n st m inp out u H tg" and t: "tg t = Marks (j, inc) (k # ks)"
    and j: "j < n" "st ! j = Aborting inc"
  shows "\<exists>e. entry m k j = Some e"
proof -
  note p = data_parts [OF d]
  have "half m inc (out ! j) j" using p(3) j by (simp add: content_ok_def)
  moreover have "k \<in> set (keys_of (out ! j))" using p(5) [of t] t by simp
  ultimately show ?thesis
    using entry_from_keys [of inc "out ! j" k] unfolding half_def estimated_def by (metis not_None_eq)
qed

lemma data_mark:
  assumes d: "data_ok E n st m inp out u H tg" and t: "tg t = Marks (j, inc) (k # ks)"
    and j: "j < n" "st ! j = Aborting inc" "length st = n" "alone tg t j" and e: "entry m k j = Some e"
    and r: "replaced m k j (Some (entry_mark_estimate e)) m'"
  shows "data_ok E n st m' inp out u H (tg(t := Marks (j, inc) ks))"
proof -
  let ?g = "Marks (j, inc) ks"
  note p = data_parts [OF d]
  have wf: "mv_wf m" using p(1) by (simp add: cells_ok_def)
  have other: "entry m' k' i = entry m k' i" if "i \<noteq> j" for k' i using r that by (simp add: replaced_def)
  have k: "k \<in> set (keys_of (out ! j))" using p(5) [of t] t by simp
  have new: "estimated m' k j" using r by (simp add: estimated_def replaced_def entry_mark_estimate_def)
  have old: "estimated m k' j \<Longrightarrow> estimated m' k' j" for k'
    using r new by (cases "k' = k") (simp_all add: estimated_def replaced_def)
  have "half m inc (out ! j) j" using p(3) j by (simp add: content_ok_def)
  then have half: "half m' inc (out ! j) j"
    using r k new old by (auto simp: half_def replaced_def)
  have "content_ok n st m' out tg"
    unfolding content_ok_def
  proof (intro allI impI)
    fix i assume i: "i < n"
    show "(\<forall>inc. st ! i = Executed inc \<longrightarrow> full m' inc (out ! i) i) \<and> (\<forall>inc. st ! i = Aborting inc \<longrightarrow> half m' inc (out ! i) i) \<and>
       (live (st ! i) \<longrightarrow> (\<forall>t'. tag_txn (tg t') \<noteq> Some i) \<longrightarrow> marked m' (keys_of (out ! i)) i)"
    proof (cases "i = j")
      case False
      with p(3) i show ?thesis
        unfolding content_frame [of m' i m, OF other [OF False]] by (simp add: content_ok_def)
    qed (use j(2) half in simp)
  qed
  then have "content_ok n st m' out (tg(t := ?g))" by (rule content_upd) (simp add: t)
  moreover have "cells_ok E n m' H"
    by (rule cells_replaced [OF p(1) r grows_refl j(1)])
      (use p(1) e in \<open>auto simp: cells_ok_def entry_mark_estimate_def\<close>)
  moreover have "fresh_ok n st H (tg(t := ?g))" by (rule fresh_upd [OF p(2)]) (simp add: t)
  moreover have "tag_ok E m' inp out H ?g" using p(5) [of t] t new old by auto
  then have "tag_ok E m' inp out H ((tg(t := ?g)) t')" for t'
    by (rule tags_owner [OF p(5) r j(4) grows_refl])
  moreover have "valid_ok E n st m' inp u (tg(t := ?g))"
    by (rule valid_owner [OF p(6) r wf]) (simp_all add: t)
  ultimately show ?thesis using p(4) by (simp add: data_ok_def)
qed

lemma data_abort_end:
  assumes d: "data_ok E n st m inp out u H tg" and t: "tg t = Marks (j, inc) []"
    and j: "j < n" "st ! j = Aborting inc" "length st = n"
  shows "data_ok E n (st[j := ReadyToExecute (inc + 1) None]) m inp out (u \<union> {j<..<n}) H (tg(t := Free))"
proof -
  let ?st = "st[j := ReadyToExecute (inc + 1) None]"
  note p = data_parts [OF d]
  have "half m inc (out ! j) j" using p(3) j by (simp add: content_ok_def)
  then have "marked m (keys_of (out ! j)) j"
    using p(5) [of t] entry_from_keys [of inc "out ! j"] unfolding t half_def marked_def tag_ok.simps
    by (metis empty_iff empty_set)
  then have "content_ok n ?st m out (tg(t := Free))"
    by (intro content_status [OF p(3) j(1,3)]) (auto simp: t)
  moreover have "fresh_ok n ?st H (tg(t := Free))"
    by (rule fresh_release [OF p(2) _ j(3)]) (auto simp: t j(2))
  moreover have "records_ok E n ?st inp out H"
    using p(4) j by (auto simp: records_ok_def nth_list_update)
  moreover have "valid_ok E n ?st m inp (u \<union> {j<..<n}) (tg(t := Free))"
  proof (rule valid_step [OF p(6)])
    fix i i' assume i: "i < n" "?st ! i = Executed i'" "i \<notin> u \<union> {j<..<n}"
    then show "st ! i = Executed i' \<and> i \<notin> u \<and> inp ! i = inp ! i"
      using j by (cases "i = j") auto
    show "excused (tg(t := Free)) i" if "excused tg i"
      by (rule excused_upd [OF that]) (use i t in auto)
    show "(\<exists>t'. awaits ((tg(t := Free)) t') (i, i') r) \<or> valid_read E m i r" if "awaits (tg t') (i, i') r" for r t'
      by (rule awaits_upd [of tg t', OF that]) (simp add: t)
  qed auto
  ultimately show ?thesis using p(1,5) by (auto simp: data_ok_def)
qed

end
