(* ===== verification/Parallel_Safety.thy ===== *)
theory Parallel_Safety
  imports Parallel_Steps
begin

text \<open>
  The workers of the parallel executor, with the data, against their invariant.
  A worker of the executor is followed by a worker of the scheduler: the token
  of a worker is the point or call of its counterpart, and what it has in hand
  of the data.
\<close>

section \<open>Tokens\<close>

record 'k xtoken =
  tok_abs :: "(Scheduler, point) worker"
  tok_tag :: "'k tag"

abbreviation tok :: "(Scheduler, point) worker \<Rightarrow> 'k tag \<Rightarrow> 'k xtoken" where
  "tok w g \<equiv> \<lparr>tok_abs = w, tok_tag = g\<rparr>"

abbreviation idle_token :: "'k xtoken" where
  "idle_token \<equiv> tok (At (Holding NoTask)) Free"

fun settle :: "(Scheduler, point) prog \<Rightarrow> (Scheduler, point) worker" where
  "settle (Return p) = At p"
| "settle c = Call c"

text \<open>Whoever answers for a transaction is running it or aborting it.\<close>

fun link :: "(Scheduler, point) worker \<Rightarrow> 'k tag \<Rightarrow> bool" where
  "link w (Writes v new prev outside stored log) \<longleftrightarrow> w = At (Running v)"
| "link w (Recorded v outside) \<longleftrightarrow> w = At (Running v)"
| "link w (Marks v ks) \<longleftrightarrow> w = At (Aborted v)"
| "link w g \<longleftrightarrow> True"

lemma link_untagged: "tag_txn g = None \<Longrightarrow> link w g"
  by (cases g) auto

lemma link_executes: "link w g \<Longrightarrow> tag_txn g = Some j \<Longrightarrow> \<exists>p. w = At p \<and> executes p = Some j"
  by (cases g) auto

text \<open>The state of the executor, with the state of the scheduler's workers that follow its own.\<close>

definition follows ::
  "('k, 'ev, 'st, 'e, 'p) BlockEnv \<Rightarrow> nat \<Rightarrow> nat \<Rightarrow> ('k, 'ev, 'st, 'e, 'p) Shared \<Rightarrow> (nat \<Rightarrow> 'k xtoken) \<Rightarrow>
     executor \<Rightarrow> 'k history \<Rightarrow> bool" where
  "follows E n m s \<gamma> e H \<longleftrightarrow> reachable n m e \<and> shared e = sched s \<and> workers e = map (tok_abs \<circ> \<gamma>) [0..<m] \<and>
     (\<forall>t \<ge> m. \<gamma> t = idle_token) \<and> (\<forall>t. link (tok_abs (\<gamma> t)) (tok_tag (\<gamma> t))) \<and>
     data_ok E n (txn_status (sched s)) (mvmap s) (inputs (last_io s)) (outputs (last_io s)) (ghost e) H (tok_tag \<circ> \<gamma>)"

definition XInv ::
  "('k, 'ev, 'st, 'e, 'p) BlockEnv \<Rightarrow> nat \<Rightarrow> nat \<Rightarrow> ('k, 'ev, 'st, 'e, 'p) Shared \<Rightarrow> unit \<Rightarrow> (nat \<Rightarrow> 'k xtoken) \<Rightarrow> bool" where
  "XInv E n m s u \<gamma> \<longleftrightarrow> (\<exists>e H. follows E n m s \<gamma> e H)"

definition XW :: "('k, 'ev, 'st, 'e, 'p) Shared \<Rightarrow> 'k xtoken \<Rightarrow> bool" where
  "XW s k \<longleftrightarrow> (\<exists>f. tok_abs k = Call (Act f) \<and> f (sched s) = None)"

lemma follows_worker: "follows E n m s \<gamma> e H \<Longrightarrow> t < m \<Longrightarrow> t < length (workers e) \<and> workers e ! t = tok_abs (\<gamma> t)"
  by (simp add: follows_def)

lemma follows_update:
  assumes "follows E n m s \<gamma> e H" "t < m" "reachable n m e'" "shared e' = sched s'" "workers e' = (workers e)[t := w]" "link w g"
    and "data_ok E n (txn_status (sched s')) (mvmap s') (inputs (last_io s')) (outputs (last_io s')) (ghost e') H' ((tok_tag \<circ> \<gamma>)(t := g))"
  shows "follows E n m s' (\<gamma>(t := tok w g)) e' H'"
proof -
  have "(tok_tag \<circ> \<gamma>(t := tok w g)) = (tok_tag \<circ> \<gamma>)(t := g)" by auto
  moreover have "workers e' = map (tok_abs \<circ> \<gamma>(t := tok w g)) [0..<m]"
    using assms(1,5) by (auto simp: follows_def intro!: nth_equalityI simp: nth_list_update)
  ultimately show ?thesis using assms by (simp add: follows_def)
qed

text \<open>A step that the worker of the scheduler does not see.\<close>

lemma follows_alone:
  assumes "follows E n m s \<gamma> e H" "t < m" "tok_abs (\<gamma> t) = w" "sched s' = sched s" "link w g"
    and "data_ok E n (txn_status (sched s)) (mvmap s') (inputs (last_io s')) (outputs (last_io s')) (ghost e) H' ((tok_tag \<circ> \<gamma>)(t := g))"
  shows "follows E n m s' (\<gamma>(t := tok w g)) e H'"
proof -
  have "workers e = (workers e)[t := w]" using follows_worker [OF assms(1,2)] assms(3) by (metis list_update_id)
  with assms show ?thesis by (intro follows_update [OF assms(1,2)]) (auto simp: follows_def)
qed

section \<open>Steps of the worker of the scheduler\<close>

lemma reach_turn:
  assumes "reachable n m e" "t < length (workers e)" "workers e ! t = At p" "turn (shared e) (ghost e) p w u"
  obtains e' where "reachable n m e'" "shared e' = shared e" "ghost e' = u" "workers e' = (workers e)[t := w]"
proof (rule that)
  let ?e = "e\<lparr>workers := (workers e)[t := w], ghost := u\<rparr>"
  have "worker_step e ?e" using step_turn [of t e p turn w u] assms(2-4) by simp
  with assms(1) show "reachable n m ?e" unfolding reachable_def by (meson rtranclp.rtrancl_into_rtrancl)
qed simp_all

lemma reach_act:
  assumes "reachable n m e" "t < length (workers e)" "workers e ! t = Call (Act f)" "f (shared e) = Some (p, s)"
  obtains e' where "reachable n m e'" "shared e' = s" "ghost e' = ghost e" "workers e' = (workers e)[t := settle p]"
proof -
  let ?e = "e\<lparr>shared := s, workers := (workers e)[t := Call p]\<rparr>"
  have r: "reachable n m ?e"
    using step_act [OF assms(2-4)] assms(1) unfolding reachable_def by (meson rtranclp.rtrancl_into_rtrancl)
  show thesis
  proof (cases p)
    case (Return q)
    let ?e' = "?e\<lparr>workers := (workers ?e)[t := At q]\<rparr>"
    have "worker_step ?e ?e'" by (rule step_return) (use assms(2) Return in simp_all)
    with r have "reachable n m ?e'" unfolding reachable_def by (meson rtranclp.rtrancl_into_rtrancl)
    then show thesis by (rule that) (simp_all add: Return)
  qed (use that [OF r] in simp_all)
qed

lemma reach_no_crash: "reachable n m e \<Longrightarrow> t < length (workers e) \<Longrightarrow> workers e ! t \<noteq> Call Crash"
  using workers.no_crash unfolding reachable_def executor_new_def by blast


section \<open>Calls of the scheduler\<close>

lemma on_sched_act: "on_sched (Act f) = Act (\<lambda>s. case f (sched s) of None \<Rightarrow> None | Some (p, c) \<Rightarrow> Some (on_sched p, s\<lparr>sched := c\<rparr>))"
  by (auto simp: fun_eq_iff split: option.split)

lemma on_sched_bind:
  "(on_sched (pbind p c) :: ('k, 'ev, 'st, 'e, 'p, 'b) xprog) = pbind (on_sched p) (\<lambda>x. on_sched (c x))"
proof (induction p)
  case (Act f)
  have "(on_sched (pbind p c) :: ('k, 'ev, 'st, 'e, 'p, 'b) xprog) = pbind (on_sched p) (\<lambda>x. on_sched (c x))" if "f s = Some (p, s')" for s p s'
    by (rule Act.IH [OF rangeI [of f s], of "(p, s')"]) (simp_all add: that)
  then have "map_option (map_prod id (\<lambda>c. x\<lparr>sched := c\<rparr>)) (map_option
      (map_prod (on_sched :: _ \<Rightarrow> ('k, 'ev, 'st, 'e, 'p, 'b) xprog) id)
      (map_option (map_prod (\<lambda>p. pbind p c) id) (f (sched x)))) =
    map_option (map_prod (\<lambda>p. pbind p (\<lambda>x. on_sched (c x))) id) (map_option (map_prod id (\<lambda>c. x\<lparr>sched := c\<rparr>))
      (map_option (map_prod on_sched id) (f (sched x))))" for x :: "('k, 'ev, 'st, 'e, 'p) Shared"
    by (cases "f (sched x)") auto
  then show ?case by (simp add: fun_eq_iff)
qed auto

text \<open>Actions that move the transactions only among ready, executing and suspended.\<close>

lemma data_calm_step:
  assumes "follows E n m s \<gamma> e H" "calm (sched s) c" "tok_tag (\<gamma> t) = g"
  shows "data_ok E n (txn_status c) (mvmap s) (inputs (last_io s)) (outputs (last_io s)) (ghost e) H ((tok_tag \<circ> \<gamma>)(t := g))"
proof -
  have e: "reachable n m e" "shared e = sched s"
    "data_ok E n (txn_status (sched s)) (mvmap s) (inputs (last_io s)) (outputs (last_io s)) (ghost e) H (tok_tag \<circ> \<gamma>)"
    using assms(1) by (simp_all add: follows_def)
  have n: "length (txn_status (sched s)) = n" using reachable_size(2) [OF e(1)] e(2) by simp
  have same: "incarnation_of y = incarnation_of x" if "y = x \<or> transition x y \<and> live x \<and> live y" for x y
    using that by (cases "(x, y)" rule: transition.cases) auto
  have st: "txn_status c ! j = txn_status (sched s) ! j \<or> transition (txn_status (sched s) ! j) (txn_status c ! j) \<and>
      live (txn_status (sched s) ! j) \<and> live (txn_status c ! j)" if "j < n" for j
    using assms(2) that n by (auto simp: calm_def diagram_def)
  have "(tok_tag \<circ> \<gamma>)(t := g) = tok_tag \<circ> \<gamma>" using assms(3) by auto
  moreover have "data_ok E n (txn_status c) (mvmap s) (inputs (last_io s)) (outputs (last_io s)) (ghost e) H (tok_tag \<circ> \<gamma>)"
    by (rule data_calm [OF e(3)]) (use st same [OF st] in auto)
  ultimately show ?thesis by simp
qed

lemma ok_on_sched:
  fixes E :: "('k, 'ev, 'st, 'e, 'p) BlockEnv" and p :: "(Scheduler, 'a) prog"
  assumes "t < m" "obeys calm p" "p \<noteq> Crash" "tag_txn g = None"
  shows "ok_prog (on_sched p) (XInv E n m) XW t (\<lambda>k x. k = tok (settle (c x)) g) (tok (settle (pbind p c)) g)"
  using assms(2,3)
proof (induction p)
  case (Act f)
  let ?f = "map_option (map_prod (\<lambda>p. pbind p c) id) \<circ> f" and ?k = "tok (settle (pbind (Act f) c)) g"
  show ?case
    unfolding on_sched_act
  proof (rule ok_prog_Act)
    fix s u \<gamma> s' and q :: "('k, 'ev, 'st, 'e, 'p, 'a) xprog"
    assume I: "XInv E n m s u \<gamma>" and t: "\<gamma> t = ?k"
      and q: "(case f (sched s) of None \<Rightarrow> None | Some (p, c) \<Rightarrow> Some (on_sched p, s\<lparr>sched := c\<rparr>)) = Some (q, s')"
    obtain p s1 where r: "f (sched s) = Some (p, s1)" "q = on_sched p" "s' = s\<lparr>sched := s1\<rparr>"
      using q by (auto split: option.splits)
    obtain e H where e: "follows E n m s \<gamma> e H" using I by (auto simp: XInv_def)
    note w = follows_worker [OF e assms(1)]
    have sh: "reachable n m e" "shared e = sched s" using e by (simp_all add: follows_def)
    have "workers e ! t = Call (Act ?f)" "?f (shared e) = Some (pbind p c, s1)" using w t r sh by simp_all
    from reach_act [OF sh(1) conjunct1 [OF w] this]
    obtain e' where e': "reachable n m e'" "shared e' = s1" "ghost e' = ghost e" "workers e' = (workers e)[t := settle (pbind p c)]"
      by blast
    have "p \<noteq> Crash" using reach_no_crash [OF e'(1), of t] e'(4) w by auto
    moreover have oc: "calm (sched s) s1" "obeys calm p" using obeys_act [OF Act.prems(1) r(1)] by simp_all
    ultimately have "ok_prog q (XInv E n m) XW t (\<lambda>k x. k = tok (settle (c x)) g) (tok (settle (pbind p c)) g)"
      unfolding r(2) by (intro Act.IH [OF rangeI [of f "sched s"], of "(p, s1)"]) (simp_all add: r(1))
    moreover have "follows E n m s' (\<gamma>(t := tok (settle (pbind p c)) g)) e' H"
      by (rule follows_update [OF e assms(1) e'(1)])
        (use e' t r(3) data_calm_step [OF e oc(1), of t g] link_untagged [OF assms(4)] in simp_all)
    ultimately show "\<exists>k'. XInv E n m s' u (\<gamma>(t := k')) \<and> ok_prog q (XInv E n m) XW t (\<lambda>k x. k = tok (settle (c x)) g) k'"
      unfolding XInv_def by blast
  qed (auto simp: XW_def split: option.splits)
qed auto


section \<open>Points\<close>

fun xpt :: "('k, 'ev, 'st, 'e, 'p) BlockEnv \<Rightarrow> ('k, 'ev, 'st, 'e) xpoint \<Rightarrow> 'k xtoken \<Rightarrow> bool" where
  "xpt E (XHolding task) k \<longleftrightarrow> k = tok (At (Holding task)) Free"
| "xpt E (XRunning v tree reads) k \<longleftrightarrow> (\<exists>log. k = tok (At (Running v)) (Reads log) \<and> reads = map fst log \<and>
     replay (txn E (fst v)) log = Some tree)"
| "xpt E (XWaiting v c tree reads) k \<longleftrightarrow> (\<exists>log. k = tok (At (Waiting v c)) (Reads log) \<and> reads = map fst log \<and>
     replay (txn E (fst v)) log = Some tree)"
| "xpt E XStopped k \<longleftrightarrow> k = tok (At Stopped) Free"

abbreviation safe ::
  "('k, 'ev, 'st, 'e, 'p) BlockEnv \<Rightarrow> nat \<Rightarrow> nat \<Rightarrow> nat \<Rightarrow> ('k, 'ev, 'st, 'e, 'p) xcall \<Rightarrow> 'k xtoken \<Rightarrow> bool" where
  "safe E n m t c k \<equiv> ok_prog c (XInv E n m) XW t (\<lambda>k p. xpt E p k) k"

text \<open>A turn of the worker of the scheduler that only changes what the worker has in hand.\<close>

lemma XInv_turn:
  assumes "t < m" "XInv E n m s u \<gamma>" "\<gamma> t = tok (At p) g" "\<And>u. turn (sched s) u p w u" "tag_txn g = None" "tag_txn g' = None"
    and "\<And>M inp out H. tag_ok E M inp out H g \<Longrightarrow> tag_ok E M inp out H g'" "\<And>v r. awaits g v r \<Longrightarrow> awaits g' v r"
  shows "XInv E n m s u (\<gamma>(t := tok w g'))"
proof -
  obtain e H where e: "follows E n m s \<gamma> e H" using assms(2) by (auto simp: XInv_def)
  then have r: "reachable n m e" "shared e = sched s"
    and d: "data_ok E n (txn_status (sched s)) (mvmap s) (inputs (last_io s)) (outputs (last_io s)) (ghost e) H (tok_tag \<circ> \<gamma>)"
    by (simp_all add: follows_def)
  have "workers e ! t = At p" "t < length (workers e)" using follows_worker [OF e assms(1)] assms(3) by simp_all
  then obtain e' where e': "reachable n m e'" "shared e' = shared e" "ghost e' = ghost e" "workers e' = (workers e)[t := w]"
    using reach_turn [OF r(1), of t p w "ghost e"] assms(4) r(2) by metis
  have "data_ok E n (txn_status (sched s)) (mvmap s) (inputs (last_io s)) (outputs (last_io s)) (ghost e) H ((tok_tag \<circ> \<gamma>)(t := g'))"
    using assms(3,5,7,8) data_parts(5) [OF d, of t] by (intro data_untagged [OF d]) simp_all
  then have "follows E n m s (\<gamma>(t := tok w g')) e' H"
    using e' r(2) link_untagged [OF assms(6)] by (intro follows_update [OF e assms(1)]) simp_all
  then show ?thesis unfolding XInv_def by blast
qed

lemma settle_call: "(\<And>x. c \<noteq> Return x) \<Longrightarrow> settle c = Call c"
  by (cases c) auto

lemma ok_call:
  assumes "t < m" "obeys calm p" "p \<noteq> Crash" "tag_txn g = None" "\<And>x. safe E n m t (d x) (tok (settle (c x)) g)"
  shows "safe E n m t (pbind (on_sched p) d) (tok (settle (pbind p c)) g)"
  by (rule ok_prog_seq [OF ok_on_sched [OF assms(1-4)]]) (use assms(5) in simp)

lemma acts_call: "acts p \<Longrightarrow> p \<noteq> Crash" "acts c \<Longrightarrow> settle c = Call c"
  by auto

lemma acts_drop_guard: "acts (drop_guard guard)"
  unfolding drop_guard_def by (rule acts_rules)

lemma ok_drop_task:
  assumes "t < m"
  shows "safe E n m t drop_task (tok (settle (give_up guard)) Free)"
proof -
  have "guard = TaskGuard" by (cases guard)
  then show ?thesis
    unfolding drop_task_def give_up_def using acts_call(1) [OF acts_drop_guard]
    by (simp only:, intro ok_call [OF assms] calm_quiet_methods(3)) simp_all
qed

section \<open>Validations\<close>

lemma ok_read_set:
  fixes E :: "('k, 'ev, 'st, 'e, 'p) BlockEnv"
  assumes "t < m"
  shows "ok_prog (read_set (fst v)) (XInv E n m) XW t (\<lambda>k x. \<exists>rs. x = Some rs \<and> k = tok (At (Validating v)) (Checks v rs))
    (tok (At (Holding (ValidationTask v guard))) Free)"
  unfolding read_set_def
proof (rule ok_prog_attempt)
  fix s :: "('k, 'ev, 'st, 'e, 'p) Shared" and u \<gamma>
  assume I: "XInv E n m s u \<gamma>" and t: "\<gamma> t = tok (At (Holding (ValidationTask v guard))) Free"
  let ?i = "fst v" and ?inp = "inputs (last_io s)"
  obtain e H where e: "follows E n m s \<gamma> e H" using I by (auto simp: XInv_def)
  then have r: "reachable n m e" "shared e = sched s"
    and d: "data_ok E n (txn_status (sched s)) (mvmap s) ?inp (outputs (last_io s)) (ghost e) H (tok_tag \<circ> \<gamma>)"
    by (simp_all add: follows_def)
  have w: "workers e ! t = At (Holding (ValidationTask (?i, snd v) guard))" "t < length (workers e)"
    using follows_worker [OF e assms] t by simp_all
  from validation_once [OF r(1) w(2,1)] reachable_size(2) [OF r(1)] r(2) data_parts(4) [OF d]
  obtain rs where rs: "?i < n" "?i < length ?inp" "?inp ! ?i = Some rs"
    by (auto simp: once_def records_ok_def)
  obtain e' where e': "reachable n m e'" "shared e' = shared e" "ghost e' = checked (shared e) v (ghost e)"
    "workers e' = (workers e)[t := At (Validating v)]"
    using reach_turn [OF r(1) w(2), of "Holding (ValidationTask v guard)"] w(1) turn_validate by (metis prod.collapse)
  have "follows E n m s (\<gamma>(t := tok (At (Validating v)) (Checks v rs))) e' H"
    using e' r(2) data_check [OF d _ rs(3), of t "snd v"] t
    by (intro follows_update [OF e assms]) (simp_all add: checked_def)
  with rs show "\<exists>x s' k'. (if ?i < length ?inp then Some (?inp ! ?i, s) else None) = Some (x, s') \<and>
      XInv E n m s' u (\<gamma>(t := k')) \<and> (\<exists>rs. x = Some rs \<and> k' = tok (At (Validating v)) (Checks v rs))"
    unfolding XInv_def by auto
qed


text \<open>A step of the worker on the data.\<close>

abbreviation shared_ok ::
  "('k, 'ev, 'st, 'e, 'p) BlockEnv \<Rightarrow> nat \<Rightarrow> ('k, 'ev, 'st, 'e, 'p) Shared \<Rightarrow> TxnIndex set \<Rightarrow> 'k history \<Rightarrow> (nat \<Rightarrow> 'k tag) \<Rightarrow> bool" where
  "shared_ok E n s u H tg \<equiv> data_ok E n (txn_status (sched s)) (mvmap s) (inputs (last_io s)) (outputs (last_io s)) u H tg"

lemma follows_data: "follows E n m s \<gamma> e H \<Longrightarrow> shared_ok E n s (ghost e) H (tok_tag \<circ> \<gamma>)"
  by (simp add: follows_def)

lemma XInv_local:
  assumes "t < m" "XInv E n m s u \<gamma>" "\<gamma> t = tok w g" "sched s' = sched s" "link w g'"
    and "\<And>e H. follows E n m s \<gamma> e H \<Longrightarrow> \<exists>H'. shared_ok E n s' (ghost e) H' ((tok_tag \<circ> \<gamma>)(t := g'))"
  shows "XInv E n m s' u (\<gamma>(t := tok w g'))"
proof -
  obtain e H where e: "follows E n m s \<gamma> e H" using assms(2) by (auto simp: XInv_def)
  with assms(6) obtain H' where "shared_ok E n s' (ghost e) H' ((tok_tag \<circ> \<gamma>)(t := g'))" by blast
  then have "follows E n m s' (\<gamma>(t := tok w g')) e H'"
    using assms(3-5) by (intro follows_alone [OF e assms(1)]) simp_all
  then show ?thesis unfolding XInv_def by blast
qed

lemma read_neq_Panic: "shared_ok E n s u H tg \<Longrightarrow> mv_read (codec E) extract_raw_bytes (mvmap s) k i \<noteq> Panic"
  using data_parts(1) [of E n "txn_status (sched s)" "mvmap s"]
  by (intro mv_read_neq_Panic [where agg = "counter E k"]) (fastforce simp: cells_ok_def cell_ok_def decodes_def)+

lemma XInv_read_neq_Panic: "XInv E n m s u \<gamma> \<Longrightarrow> mv_read (codec E) extract_raw_bytes (mvmap s) k i \<noteq> Panic"
  unfolding XInv_def by (elim exE) (rule read_neq_Panic [OF follows_data])

lemma ok_all_valid:
  fixes E :: "('k, 'ev, 'st, 'e, 'p) BlockEnv"
  assumes "t < m"
  shows "ok_prog (all_valid E (fst v) rs) (XInv E n m) XW t
    (\<lambda>k valid. k = tok (At (Validating v)) (if valid then Checks v [] else Rejects v)) (tok (At (Validating v)) (Checks v rs))"
proof (induction rs)
  case (Cons r rs)
  let ?res = "\<lambda>s :: ('k, 'ev, 'st, 'e, 'p) Shared. mv_read (codec E) extract_raw_bytes (mvmap s) (access_path r) (fst v)"
  let ?g = "\<lambda>s. if validate_read (?res s) (kind r) then Checks v rs else Rejects v"
  show ?case
    unfolding all_valid.simps map_read_def
  proof (rule ok_prog_bind, rule ok_prog_atomic)
    fix s :: "('k, 'ev, 'st, 'e, 'p) Shared" and u \<gamma>
    assume I: "XInv E n m s u \<gamma>" and t: "\<gamma> t = tok (At (Validating v)) (Checks v (r # rs))"
    have "XInv E n m s u (\<gamma>(t := tok (At (Validating v)) (?g s)))"
    proof (rule XInv_local [OF assms I t])
      fix e H assume "follows E n m s \<gamma> e H"
      from follows_data [OF this] t have "shared_ok E n s (ghost e) H ((tok_tag \<circ> \<gamma>)(t := ?g s))"
        by (intro data_untagged) (auto simp: valid_read_def)
      then show "\<exists>H'. shared_ok E n s (ghost e) H' ((tok_tag \<circ> \<gamma>)(t := ?g s))" by blast
    qed simp_all
    then show "\<exists>k'. XInv E n m (snd (?res s, s)) u (\<gamma>(t := k')) \<and>
       ok_prog (if fst (?res s, s) = Panic then Crash
          else if validate_read (fst (?res s, s)) (kind r) then all_valid E (fst v) rs else Return False) (XInv E n m) XW t
        (\<lambda>k valid. k = tok (At (Validating v)) (if valid then Checks v [] else Rejects v)) k'"
      using Cons XInv_read_neq_Panic [OF I] by (intro exI [of _ "tok (At (Validating v)) (?g s)"]) simp
  qed
qed simp


section \<open>Calls that start with a change of a status\<close>

lemma XInv_call:
  assumes "t < m" "XInv E n m s u \<gamma>" "\<gamma> t = tok (At p) g"
    and "\<And>u. turn (sched s) u p (Call (pbind (Act f) c)) (U u)" "f (sched s) = Some (q, s1)" "link (settle (pbind q c)) g'"
    and "\<And>e H. follows E n m s \<gamma> e H \<Longrightarrow>
      data_ok E n (txn_status s1) (mvmap s) (inputs (last_io s)) (outputs (last_io s)) (U (ghost e)) H ((tok_tag \<circ> \<gamma>)(t := g'))"
  shows "XInv E n m (s\<lparr>sched := s1\<rparr>) u (\<gamma>(t := tok (settle (pbind q c)) g'))"
proof -
  let ?f = "map_option (map_prod (\<lambda>p. pbind p c) id) \<circ> f"
  obtain e H where e: "follows E n m s \<gamma> e H" using assms(2) by (auto simp: XInv_def)
  then have r: "reachable n m e" "shared e = sched s" by (simp_all add: follows_def)
  have w: "t < length (workers e)" "workers e ! t = At p" using follows_worker [OF e assms(1)] assms(3) by simp_all
  obtain e1 where e1: "reachable n m e1" "shared e1 = sched s" "ghost e1 = U (ghost e)" "workers e1 = (workers e)[t := Call (Act ?f)]"
    using reach_turn [OF r(1) w] assms(4) r(2) by (metis pbind.simps(3))
  have "t < length (workers e1)" "workers e1 ! t = Call (Act ?f)" "?f (shared e1) = Some (pbind q c, s1)"
    using e1 w assms(5) by simp_all
  from reach_act [OF e1(1) this]
  obtain e2 where e2: "reachable n m e2" "shared e2 = s1" "ghost e2 = ghost e1" "workers e2 = (workers e1)[t := settle (pbind q c)]"
    by blast
  have "follows E n m (s\<lparr>sched := s1\<rparr>) (\<gamma>(t := tok (settle (pbind q c)) g')) e2 H"
    by (rule follows_update [OF e assms(1) e2(1)]) (use e1 e2 assms(6,7) e in simp_all)
  then show ?thesis unfolding XInv_def by blast
qed

lemma XInv_no_crash: "t < m \<Longrightarrow> XInv E n m s u \<gamma> \<Longrightarrow> \<gamma> t \<noteq> tok (Call Crash) g"
  unfolding XInv_def using follows_worker reach_no_crash by (metis follows_def xtoken.select_convs(1))

text \<open>The worker that answers for a transaction is the only one.\<close>

lemma follows_owner:
  assumes "follows E n m s \<gamma> e H" "t < m"
  shows "tok_abs (\<gamma> t) = At (Running (j, inc)) \<Longrightarrow>
      j < n \<and> txn_status (sched s) ! j = Executing inc \<and> alone (tok_tag \<circ> \<gamma>) t j"
    "tok_abs (\<gamma> t) = At (Aborted (j, inc)) \<Longrightarrow>
      j < n \<and> txn_status (sched s) ! j = Aborting inc \<and> alone (tok_tag \<circ> \<gamma>) t j"
proof -
  have r: "reachable n m e" "shared e = sched s" using assms(1) by (simp_all add: follows_def)
  note w = follows_worker [OF assms]
  have alone: "alone (tok_tag \<circ> \<gamma>) t j" if "tok_abs (\<gamma> t) = At p" "executes p = Some j" for p
    unfolding alone_def
  proof (intro allI impI notI)
    fix t' assume t': "t' \<noteq> t" "tag_txn ((tok_tag \<circ> \<gamma>) t') = Some j"
    then have m: "t' < m" using assms(1) by (cases "t' < m") (auto simp: follows_def)
    have "link (tok_abs (\<gamma> t')) (tok_tag (\<gamma> t'))" using assms(1) by (simp add: follows_def)
    with t'(2) obtain p' where "tok_abs (\<gamma> t') = At p'" "executes p' = Some j" using link_executes by fastforce
    then have "t' = t"
      using executes_unique [OF r(1), of t p j t' p'] w follows_worker [OF assms(1) m] that by simp
    with t'(1) show False by simp
  qed
  show "j < n \<and> txn_status (sched s) ! j = Executing inc \<and> alone (tok_tag \<circ> \<gamma>) t j" if "tok_abs (\<gamma> t) = At (Running (j, inc))"
    using owner_status(1) [OF r(1), of t j inc] w r(2) that alone [of "Running (j, inc)"] by simp
  show "j < n \<and> txn_status (sched s) ! j = Aborting inc \<and> alone (tok_tag \<circ> \<gamma>) t j" if "tok_abs (\<gamma> t) = At (Aborted (j, inc))"
    using owner_status(2) [OF r(1), of t j inc] w r(2) that alone [of "Aborted (j, inc)"] by simp
qed


definition section_of :: "TxnIndex \<Rightarrow> (TransactionStatus \<Rightarrow> ('a \<times> TransactionStatus) option) \<Rightarrow> Scheduler \<Rightarrow> ('a sprog \<times> Scheduler) option" where
  "section_of i f s = (if i < length (txn_status s)
     then (case f (txn_status s ! i) of
       Some (x, st) \<Rightarrow> Some (Return x, s\<lparr>txn_status := (txn_status s)[i := st]\<rparr>) | None \<Rightarrow> Some (Crash, s))
     else Some (Crash, s))"

lemma with_status_Act: "with_status i f = Act (section_of i f)"
  by (auto simp: with_status_def attempt_def section_of_def fun_eq_iff split: option.split)

lemma ok_status_call:
  fixes E :: "('k, 'ev, 'st, 'e, 'p) BlockEnv" and rest :: "'a \<Rightarrow> 'b sprog"
  assumes "\<And>s u \<gamma>. XInv E n m s u \<gamma> \<Longrightarrow> \<gamma> t = k \<Longrightarrow> \<exists>x s1 k'. section_of i f (sched s) = Some (Return x, s1) \<and>
      XInv E n m (s\<lparr>sched := s1\<rparr>) u (\<gamma>(t := k')) \<and> ok_prog (on_sched (rest x)) (XInv E n m) XW t Q k'"
  shows "ok_prog (on_sched (pbind (with_status i f) rest)) (XInv E n m) XW t Q k"
  unfolding on_sched_bind
proof (rule ok_prog_bind, unfold with_status_Act on_sched_act, rule ok_prog_Act)
  fix s u \<gamma> s' and q :: "('k, 'ev, 'st, 'e, 'p, 'a) xprog"
  assume I: "XInv E n m s u \<gamma>" "\<gamma> t = k"
    and q: "(case section_of i f (sched s) of None \<Rightarrow> None | Some (p, c) \<Rightarrow> Some (on_sched p, s\<lparr>sched := c\<rparr>)) = Some (q, s')"
  obtain x s1 k' where "section_of i f (sched s) = Some (Return x, s1)" "XInv E n m (s\<lparr>sched := s1\<rparr>) u (\<gamma>(t := k'))"
    "ok_prog (on_sched (rest x)) (XInv E n m) XW t Q k'" using assms [OF I] by blast
  with q show "\<exists>k'. XInv E n m s' u (\<gamma>(t := k')) \<and>
      ok_prog q (XInv E n m) XW t (\<lambda>k x. ok_prog (on_sched (rest x)) (XInv E n m) XW t Q k) k'" by (intro exI [of _ k']) auto
qed (use assms in \<open>fastforce split: option.splits\<close>)

lemma follows_size: "follows E n m s \<gamma> e H \<Longrightarrow> num_txns (sched s) = n \<and> length (txn_status (sched s)) = n"
  using reachable_size by (metis follows_def)

lemma finish_execution_split:
  obtains rest where "finish_execution i inc suffix guard = pbind (set_executed_status i inc) rest"
    "\<And>x. obeys calm (rest x)" "\<And>x. acts (rest x)"
  by (rule that [OF finish_execution_def]) (intro obeys_rules, auto simp: take_dependencies_def)

lemma finish_abort_split:
  obtains rest where "finish_abort i inc guard = pbind (set_aborted_status i inc) rest"
    "\<And>x. obeys calm (rest x)" "\<And>x. acts (rest x)"
  by (rule that [OF finish_abort_def]) (intro obeys_rules, auto simp: decrease_validation_idx_def atomic_def)

lemma ok_holding:
  assumes "t < m" "obeys calm p" "acts p"
  shows "ok_prog (on_sched p) (XInv E n m) XW t (\<lambda>k task. k = tok (At (Holding task)) Free)
    (tok (settle (pbind p (\<lambda>task. Return (Holding task)))) Free)"
  by (rule ok_prog_mono [OF ok_on_sched [OF assms(1,2) acts_call(1) [OF assms(3)]]]) simp_all

lemma ok_finish_execution:
  assumes "t < m"
  shows "ok_prog (on_sched (finish_execution j inc outside TaskGuard)) (XInv E n m) XW t
    (\<lambda>k task. k = tok (At (Holding task)) Free) (tok (At (Running (j, inc))) (Recorded (j, inc) outside))"
proof -
  obtain rest where rest: "finish_execution j inc outside TaskGuard = pbind (set_executed_status j inc) rest"
    "\<And>x. obeys calm (rest x)" "\<And>x. acts (rest x)" using finish_execution_split [of j inc outside TaskGuard] by blast
  let ?c = "\<lambda>x. pbind (rest x) (\<lambda>task. Return (Holding task))"
  let ?f = "\<lambda>st. if st = Executing inc then Some ((), Executed inc) else None"
  have c: "conclude (j, inc) outside = pbind (Act (section_of j ?f)) ?c"
    unfolding conclude_def fst_conv snd_conv rest(1) pbind_assoc set_executed_status_def with_status_Act ..
  show ?thesis
    unfolding rest(1) set_executed_status_def
  proof (rule ok_status_call)
    fix s u \<gamma> assume I: "XInv E n m s u \<gamma>" and t: "\<gamma> t = tok (At (Running (j, inc))) (Recorded (j, inc) outside)"
    obtain e0 H0 where e0: "follows E n m s \<gamma> e0 H0" using I by (auto simp: XInv_def)
    have own: "j < n" "txn_status (sched s) ! j = Executing inc"
      using follows_owner(1) [OF e0 assms, of j inc] t by simp_all
    note size = follows_size [OF e0]
    let ?s = "(sched s)\<lparr>txn_status := (txn_status (sched s))[j := Executed inc]\<rparr>"
    have f: "section_of j ?f (sched s) = Some (Return (), ?s)" using own size by (simp add: section_of_def)
    have "XInv E n m (s\<lparr>sched := ?s\<rparr>) u (\<gamma>(t := tok (settle (pbind (Return ()) ?c)) Free))"
    proof (rule XInv_call [OF assms I t, where f = "section_of j ?f" and U = "disturbed j outside n"])
      show "turn (sched s) u (Running (j, inc)) (Call (pbind (Act (section_of j ?f)) ?c)) (disturbed j outside n u)" for u
        using turn_conclude [of "sched s" u "(j, inc)" outside] size unfolding c by simp
      show "data_ok E n (txn_status ?s) (mvmap s) (inputs (last_io s)) (outputs (last_io s)) (disturbed j outside n (ghost e)) H
          ((tok_tag \<circ> \<gamma>)(t := Free))" if "follows E n m s \<gamma> e H" for e H
        using data_conclude [OF follows_data [OF that], of t j inc outside] t own size by simp
    qed (simp_all add: f)
    then show "\<exists>x s1 k'. section_of j ?f (sched s) = Some (Return x, s1) \<and> XInv E n m (s\<lparr>sched := s1\<rparr>) u (\<gamma>(t := k')) \<and>
        ok_prog (on_sched (rest x)) (XInv E n m) XW t (\<lambda>k task. k = tok (At (Holding task)) Free) k'"
      using f ok_holding [OF assms rest(2,3)] by (metis pbind.simps(1))
  qed
qed


lemma ok_finish_abort:
  assumes "t < m"
  shows "ok_prog (on_sched (finish_abort j inc TaskGuard)) (XInv E n m) XW t
    (\<lambda>k task. k = tok (At (Holding task)) Free) (tok (At (Aborted (j, inc))) (Marks (j, inc) []))"
proof -
  obtain rest where rest: "finish_abort j inc TaskGuard = pbind (set_aborted_status j inc) rest"
    "\<And>x. obeys calm (rest x)" "\<And>x. acts (rest x)" using finish_abort_split [of j inc TaskGuard] by blast
  let ?c = "\<lambda>x. pbind (rest x) (\<lambda>task. Return (Holding task))"
  let ?f = "\<lambda>st. if st = Aborting inc then Some ((), ReadyToExecute (inc + 1) None) else None"
  have c: "abort (j, inc) = pbind (Act (section_of j ?f)) ?c"
    unfolding abort_def fst_conv snd_conv rest(1) pbind_assoc set_aborted_status_def with_status_Act ..
  show ?thesis
    unfolding rest(1) set_aborted_status_def
  proof (rule ok_status_call)
    fix s u \<gamma> assume I: "XInv E n m s u \<gamma>" and t: "\<gamma> t = tok (At (Aborted (j, inc))) (Marks (j, inc) [])"
    obtain e0 H0 where e0: "follows E n m s \<gamma> e0 H0" using I by (auto simp: XInv_def)
    have own: "j < n" "txn_status (sched s) ! j = Aborting inc"
      using follows_owner(2) [OF e0 assms, of j inc] t by simp_all
    note size = follows_size [OF e0]
    let ?s = "(sched s)\<lparr>txn_status := (txn_status (sched s))[j := ReadyToExecute (inc + 1) None]\<rparr>"
    have f: "section_of j ?f (sched s) = Some (Return (), ?s)" using own size by (simp add: section_of_def)
    have "XInv E n m (s\<lparr>sched := ?s\<rparr>) u (\<gamma>(t := tok (settle (pbind (Return ()) ?c)) Free))"
    proof (rule XInv_call [OF assms I t, where f = "section_of j ?f" and U = "\<lambda>u. u \<union> {j<..<n}"])
      show "turn (sched s) u (Aborted (j, inc)) (Call (pbind (Act (section_of j ?f)) ?c)) (u \<union> {j<..<n})" for u
        using turn_abort [of "sched s" u "(j, inc)"] size unfolding c by simp
      show "data_ok E n (txn_status ?s) (mvmap s) (inputs (last_io s)) (outputs (last_io s)) (ghost e \<union> {j<..<n}) H
          ((tok_tag \<circ> \<gamma>)(t := Free))" if "follows E n m s \<gamma> e H" for e H
        using data_abort_end [OF follows_data [OF that], of t j inc] t own size by simp
    qed (simp_all add: f)
    then show "\<exists>x s1 k'. section_of j ?f (sched s) = Some (Return x, s1) \<and> XInv E n m (s\<lparr>sched := s1\<rparr>) u (\<gamma>(t := k')) \<and>
        ok_prog (on_sched (rest x)) (XInv E n m) XW t (\<lambda>k task. k = tok (At (Holding task)) Free) k'"
      using f ok_holding [OF assms rest(2,3)] by (metis pbind.simps(1))
  qed
qed

lemma follows_validating: "follows E n m s \<gamma> e H \<Longrightarrow> t < m \<Longrightarrow> tok_abs (\<gamma> t) = At (Validating (j, inc)) \<Longrightarrow> j < n"
proof -
  assume e: "follows E n m s \<gamma> e H" and t: "t < m" "tok_abs (\<gamma> t) = At (Validating (j, inc))"
  have "reachable n m e" using e by (simp add: follows_def)
  from reachable_points [OF this] obtain \<gamma>' where
    "\<And>t p. t < length (workers e) \<Longrightarrow> workers e ! t = At p \<Longrightarrow> pt n p (\<gamma>' t)" by blast
  from this [of t "Validating (j, inc)"] follows_worker [OF e t(1)] t(2) show "j < n" by simp
qed

lemma ok_lose_claim:
  assumes "t < m"
  shows "ok_prog (on_sched (try_abort j inc)) (XInv E n m) XW t
    (\<lambda>k aborted. if aborted then \<exists>ks. k = tok (At (Aborted (j, inc))) (Marks (j, inc) ks) else k = tok (settle (give_up TaskGuard)) Free)
    (tok (At (Validating (j, inc))) (Rejects (j, inc)))"
proof -
  let ?f = "\<lambda>st. if st = Executed inc then Some (True, Aborting inc) else Some (False, st)"
  let ?c = "\<lambda>aborted. if aborted then Return (Aborted (j, inc)) else give_up TaskGuard"
  have c: "reject (j, inc) = pbind (Act (section_of j ?f)) ?c"
    unfolding reject_def fst_conv snd_conv try_abort_def with_status_Act ..
  have p: "try_abort j inc = pbind (with_status j ?f) Return" unfolding try_abort_def pbind_Return ..
  show ?thesis
    unfolding p
  proof (rule ok_status_call)
    fix s u \<gamma> assume I: "XInv E n m s u \<gamma>" and t: "\<gamma> t = tok (At (Validating (j, inc))) (Rejects (j, inc))"
    obtain e0 H0 where e0: "follows E n m s \<gamma> e0 H0" using I by (auto simp: XInv_def)
    have j: "j < n" using follows_validating [OF e0 assms] t by simp
    note size = follows_size [OF e0]
    let ?hit = "txn_status (sched s) ! j = Executed inc"
    let ?s = "(sched s)\<lparr>txn_status := (txn_status (sched s))[j := if ?hit then Aborting inc else txn_status (sched s) ! j]\<rparr>"
    let ?g = "if ?hit then Marks (j, inc) (keys_of (outputs (last_io s) ! j)) else Free"
    have f: "section_of j ?f (sched s) = Some (Return ?hit, ?s)" using j size by (simp add: section_of_def)
    have "XInv E n m (s\<lparr>sched := ?s\<rparr>) u (\<gamma>(t := tok (settle (pbind (Return ?hit) ?c)) ?g))"
    proof (rule XInv_call [OF assms I t, where f = "section_of j ?f" and U = "\<lambda>u. u"])
      show "turn (sched s) u (Validating (j, inc)) (Call (pbind (Act (section_of j ?f)) ?c)) u" for u
        using turn_reject [of "sched s" u "(j, inc)"] unfolding c .
      show "data_ok E n (txn_status ?s) (mvmap s) (inputs (last_io s)) (outputs (last_io s)) (ghost e) H
          ((tok_tag \<circ> \<gamma>)(t := ?g))" if "follows E n m s \<gamma> e H" for e H
      proof (cases ?hit)
        case True
        then show ?thesis using data_abort [OF follows_data [OF that], of t j inc] t j size by simp
      next
        case False
        have "shared_ok E n s (ghost e) H ((tok_tag \<circ> \<gamma>)(t := Free))"
          by (rule data_untagged [OF follows_data [OF that]]) (use t False in auto)
        then show ?thesis using False by simp
      qed
    qed (simp_all add: f)
    then show "\<exists>x s1 k'. section_of j ?f (sched s) = Some (Return x, s1) \<and> XInv E n m (s\<lparr>sched := s1\<rparr>) u (\<gamma>(t := k')) \<and>
        ok_prog (on_sched (Return x)) (XInv E n m) XW t (\<lambda>k aborted. if aborted then \<exists>ks. k = tok (At (Aborted (j, inc))) (Marks (j, inc) ks)
          else k = tok (settle (give_up TaskGuard)) Free) k'"
      using f by (intro exI [of _ ?hit] exI [of _ ?s] exI [of _ "tok (settle (pbind (Return ?hit) ?c)) ?g"]) (simp split: if_splits)
  qed
qed


lemma data_retag:
  assumes d: "data_ok E n st M inp out u H tg" and "tag_txn (tg t) = tag_txn g" "disturbs (tg t) = disturbs g"
    and "\<And>k v. wrote (tg t) k v \<Longrightarrow> wrote g k v" "\<And>v r. \<not> awaits (tg t) v r" "tag_ok E M inp out H g"
  shows "data_ok E n st M inp out u H (tg(t := g))"
proof -
  note p = data_parts [OF d]
  have "valid_ok E n st M inp u (tg(t := g))"
  proof (rule valid_step [OF p(6)])
    show "excused (tg(t := g)) i" if "excused tg i" for i
      by (rule excused_upd [OF that]) (simp add: assms(3))
    show "(\<exists>t'. awaits ((tg(t := g)) t') (i, inc) r) \<or> valid_read E M i r" if "awaits (tg t') (i, inc) r" for i inc r t'
      by (rule awaits_upd [of tg t', OF that]) (use assms(5) in blast)
  qed auto
  then show ?thesis
    using p(1,4,5) fresh_upd [OF p(2) assms(4)] content_upd [OF p(3) assms(2)] assms(6) by (simp add: data_ok_def)
qed

lemma ok_on_map:
  fixes E :: "('k, 'ev, 'st, 'e, 'p) BlockEnv"
  assumes "\<And>s u \<gamma>. XInv E n m s u \<gamma> \<Longrightarrow> \<gamma> t = k \<Longrightarrow>
    \<exists>x M k'. f (mvmap s) = (Ok x, M) \<and> XInv E n m (s\<lparr>mvmap := M\<rparr>) u (\<gamma>(t := k')) \<and> Q k' x"
  shows "ok_prog (on_map f) (XInv E n m) XW t Q k"
  unfolding on_map_def
proof (rule ok_prog_Act)
  fix s u \<gamma> s' and p :: "('k, 'ev, 'st, 'e, 'p, 'a) xprog"
  assume I: "XInv E n m s u \<gamma>" "\<gamma> t = k" and f: "(case f (mvmap s) of (Ok x, M) \<Rightarrow> Some (Return x, s\<lparr>mvmap := M\<rparr>) | (_, M) \<Rightarrow> Some (Crash, s\<lparr>mvmap := M\<rparr>)) = Some (p, s')"
  obtain x M k' where "f (mvmap s) = (Ok x, M)" "XInv E n m (s\<lparr>mvmap := M\<rparr>) u (\<gamma>(t := k'))" "Q k' x" using assms [OF I] by blast
  with f show "\<exists>k'. XInv E n m s' u (\<gamma>(t := k')) \<and> ok_prog p (XInv E n m) XW t Q k'" by (intro exI [of _ k']) auto
qed (auto split: prod.splits outcome.splits)

lemma ok_modified_keys:
  assumes "\<And>s u \<gamma>. XInv E n m s u \<gamma> \<Longrightarrow> \<gamma> t = k \<Longrightarrow> j < n \<and>
    (\<exists>k'. XInv E n m s u (\<gamma>(t := k')) \<and> Q k' (keys_of (outputs (last_io s) ! j)))"
  shows "ok_prog (modified_keys j) (XInv E n m) XW t Q k"
  unfolding modified_keys_def
proof (rule ok_prog_attempt)
  fix s u \<gamma> assume I: "XInv E n m s u \<gamma>" "\<gamma> t = k"
  then obtain e H where "follows E n m s \<gamma> e H" by (auto simp: XInv_def)
  from data_parts(4) [OF follows_data [OF this]] have "length (outputs (last_io s)) = n" by (simp add: records_ok_def)
  with assms [OF I] show "\<exists>x s' k'. (if j < length (outputs (last_io s)) then Some (keys_of (outputs (last_io s) ! j), s) else None) =
      Some (x, s') \<and> XInv E n m s' u (\<gamma>(t := k')) \<and> Q k' x" by auto
qed

lemma ok_mark_keys:
  assumes "t < m"
  shows "ok_prog (modified_keys j) (XInv E n m) XW t (\<lambda>k ks. k = tok (At (Aborted (j, inc))) (Marks (j, inc) ks))
    (tok (At (Aborted (j, inc))) (Marks (j, inc) ks0))"
proof (rule ok_modified_keys)
  fix s u \<gamma> assume I: "XInv E n m s u \<gamma>" and t: "\<gamma> t = tok (At (Aborted (j, inc))) (Marks (j, inc) ks0)"
  let ?g = "Marks (j, inc) (keys_of (outputs (last_io s) ! j))"
  have "XInv E n m s u (\<gamma>(t := tok (At (Aborted (j, inc))) ?g))"
  proof (rule XInv_local [OF assms I t])
    fix e H assume "follows E n m s \<gamma> e H"
    from data_retag [OF follows_data [OF this], of t ?g] t
    show "\<exists>H'. shared_ok E n s (ghost e) H' ((tok_tag \<circ> \<gamma>)(t := ?g))" by auto
  qed simp_all
  moreover have "j < n"
    using I follows_owner(2) [OF _ assms, of E n s \<gamma> _ _ j inc] t unfolding XInv_def by fastforce
  ultimately show "j < n \<and> (\<exists>k'. XInv E n m s u (\<gamma>(t := k')) \<and>
     k' = tok (At (Aborted (j, inc))) (Marks (j, inc) (keys_of (outputs (last_io s) ! j))))" by blast
qed

lemma ok_mark_all:
  assumes "t < m"
  shows "ok_prog (mark_all j ks) (XInv E n m) XW t (\<lambda>k _. k = tok (At (Aborted (j, inc))) (Marks (j, inc) []))
    (tok (At (Aborted (j, inc))) (Marks (j, inc) ks))"
proof (induction ks)
  case (Cons k ks)
  have "ok_prog (on_map (mark_estimate k j)) (XInv E n m) XW t (\<lambda>k' _. k' = tok (At (Aborted (j, inc))) (Marks (j, inc) ks))
    (tok (At (Aborted (j, inc))) (Marks (j, inc) (k # ks)))"
  proof (rule ok_on_map)
    fix s u \<gamma> assume I: "XInv E n m s u \<gamma>" and t: "\<gamma> t = tok (At (Aborted (j, inc))) (Marks (j, inc) (k # ks))"
    obtain e0 H0 where e0: "follows E n m s \<gamma> e0 H0" using I by (auto simp: XInv_def)
    have own: "j < n" "txn_status (sched s) ! j = Aborting inc" "alone (tok_tag \<circ> \<gamma>) t j"
      using follows_owner(2) [OF e0 assms, of j inc] t by simp_all
    have wf: "mv_wf (mvmap s)" using data_parts(1) [OF follows_data [OF e0]] by (simp add: cells_ok_def)
    obtain en where en: "entry (mvmap s) k j = Some en"
      using data_mark_entry [OF follows_data [OF e0], of t j inc k ks] t own by auto
    obtain M where M: "mark_estimate k j (mvmap s) = (Ok () :: (unit, unit) outcome, M)"
      "replaced (mvmap s) k j (Some (entry_mark_estimate en)) M" using mark_estimate_replaces [OF wf en] by metis
    have "XInv E n m (s\<lparr>mvmap := M\<rparr>) u (\<gamma>(t := tok (At (Aborted (j, inc))) (Marks (j, inc) ks)))"
    proof (rule XInv_local [OF assms I t])
      fix e H assume e: "follows E n m s \<gamma> e H"
      from data_mark [OF follows_data [OF e], of t j inc k ks en M] t own follows_size [OF e] en M(2)
      show "\<exists>H'. shared_ok E n (s\<lparr>mvmap := M\<rparr>) (ghost e) H' ((tok_tag \<circ> \<gamma>)(t := Marks (j, inc) ks))" by auto
    qed simp_all
    with M(1) show "\<exists>x M k'. mark_estimate k j (mvmap s) = (Ok x :: (unit, unit) outcome, M) \<and> XInv E n m (s\<lparr>mvmap := M\<rparr>) u (\<gamma>(t := k')) \<and>
        k' = tok (At (Aborted (j, inc))) (Marks (j, inc) ks)" by blast
  qed
  from ok_prog_seq [OF this] Cons show ?case by simp
qed simp

lemma acts_drop_task: "acts drop_task"
  unfolding drop_task_def drop_guard_def attempt_def by (intro acts_rules(3)) (simp add: on_sched_act)

lemma never_waits:
  "\<exists>f. on_sched (attempt g) = Act f \<and> (\<forall>s. f s \<noteq> None)"
  "\<exists>f. on_sched (atomic h) = Act f \<and> (\<forall>s. f s \<noteq> None)"
  "\<exists>f. p = Act f \<and> (\<forall>s. f s \<noteq> None) \<Longrightarrow> \<exists>f. pbind p c = Act f \<and> (\<forall>s. f s \<noteq> None)"
proof -
  assume "\<exists>f. p = Act f \<and> (\<forall>s. f s \<noteq> None)"
  then obtain f where "p = Act f" "\<And>s. f s \<noteq> None" by blast
  then show "\<exists>f. pbind p c = Act f \<and> (\<forall>s. f s \<noteq> None)" by (simp del: not_None_eq)
qed (auto simp: attempt_def atomic_def on_sched_act split: option.split prod.split)

lemma settle_give_up: "settle (give_up guard) = Call (give_up guard)"
  unfolding give_up_def by (rule acts_call(2) [OF acts_rules(3) [OF acts_drop_guard]])

lemma ok_turn_call:
  assumes "t < m" "\<exists>f. c = Act f \<and> (\<forall>s. f s \<noteq> None)" "\<And>s u. turn s u p w u" "tag_txn g = None" "tag_txn g' = None"
    and "\<And>M inp out H. tag_ok E M inp out H g \<Longrightarrow> tag_ok E M inp out H g'" "\<And>v r. awaits g v r \<Longrightarrow> awaits g' v r"
    and "ok_prog c (XInv E n m) XW t Q (tok w g')"
  shows "ok_prog c (XInv E n m) XW t Q (tok (At p) g)"
proof -
  obtain f where f: "c = Act f" "\<And>s. f s \<noteq> None" using assms(2) by blast
  show ?thesis
    unfolding f(1)
  proof (rule ok_prog_ghost)
    show "XInv E n m s u (\<gamma>(t := tok w g'))" if "XInv E n m s u \<gamma>" "\<gamma> t = tok (At p) g" for s u \<gamma>
      by (rule XInv_turn [OF assms(1) that assms(3)]) (use assms in auto)
  qed (use f assms(8) in auto)
qed

lemma ok_validate:
  fixes E :: "('k, 'ev, 'st, 'e, 'p) BlockEnv"
  assumes "t < m"
  shows "safe E n m t (validate E v) (tok (At (Holding (ValidationTask v guard))) Free)"
proof -
  have accept: "safe E n m t drop_task (tok (At (Validating v)) (Checks v []))"
  proof (rule ok_turn_call [OF assms, where w = "Call (give_up TaskGuard)" and g' = Free])
    show "\<exists>f. drop_task = Act f \<and> (\<forall>s. f s \<noteq> None)"
      unfolding drop_task_def drop_guard_def by (intro never_waits)
    show "safe E n m t drop_task (tok (Call (give_up TaskGuard)) Free)"
      using ok_drop_task [OF assms, of E n TaskGuard] by (simp only: settle_give_up)
  qed (auto intro: turn_accept)
  obtain j inc where v: "v = (j, inc)" by (cases v)
  have fail: "safe E n m t (pbind (on_sched (try_abort j inc)) (\<lambda>aborted.
      if aborted then pbind (modified_keys j) (\<lambda>ks. pbind (mark_all j ks) (\<lambda>_.
        pbind (on_sched (finish_abort j inc TaskGuard)) (\<lambda>task. Return (XHolding task)))) else drop_task))
    (tok (At (Validating v)) (Rejects v))"
    unfolding v
  proof (rule ok_prog_seq [OF ok_lose_claim [OF assms]])
    fix k :: "'k xtoken" and aborted
    assume k: "if aborted then \<exists>ks. k = tok (At (Aborted (j, inc))) (Marks (j, inc) ks) else k = tok (settle (give_up TaskGuard)) Free"
    have finish: "safe E n m t (pbind (on_sched (finish_abort j inc TaskGuard)) (\<lambda>task. Return (XHolding task)))
        (tok (At (Aborted (j, inc))) (Marks (j, inc) []))"
      by (rule ok_prog_seq [OF ok_finish_abort [OF assms]]) simp
    have "safe E n m t (pbind (modified_keys j) (\<lambda>ks. pbind (mark_all j ks) (\<lambda>_.
        pbind (on_sched (finish_abort j inc TaskGuard)) (\<lambda>task. Return (XHolding task)))))
      (tok (At (Aborted (j, inc))) (Marks (j, inc) ks))" for ks
      by (rule ok_prog_seq [OF ok_mark_keys [OF assms]], simp only:, rule ok_prog_seq [OF ok_mark_all [OF assms]]) (simp only: finish)
    with k ok_drop_task [OF assms] show "safe E n m t (if aborted then pbind (modified_keys j) (\<lambda>ks. pbind (mark_all j ks) (\<lambda>_.
        pbind (on_sched (finish_abort j inc TaskGuard)) (\<lambda>task. Return (XHolding task)))) else drop_task) k"
      by (cases aborted) (auto simp del: ok_prog.simps(3))
  qed
  show ?thesis
    unfolding v validate_def fst_conv snd_conv
  proof (rule ok_prog_seq [OF ok_read_set [OF assms, of "(j, inc)", unfolded fst_conv]])
    fix k :: "'k xtoken" and x assume "\<exists>rs. x = Some rs \<and> k = tok (At (Validating (j, inc))) (Checks (j, inc) rs)"
    then obtain rs where x: "x = Some rs" "k = tok (At (Validating v)) (Checks v rs)" unfolding v by blast
    show "safe E n m t (case x of None \<Rightarrow> Crash | Some reads \<Rightarrow> pbind (all_valid E j reads) (\<lambda>valid.
         if valid then drop_task
         else pbind (on_sched (try_abort j inc)) (\<lambda>aborted.
              if aborted then pbind (modified_keys j) (\<lambda>ks. pbind (mark_all j ks) (\<lambda>_.
                   pbind (on_sched (finish_abort j inc TaskGuard)) (\<lambda>task. Return (XHolding task))))
              else drop_task))) k"
      unfolding x option.case
      by (rule ok_prog_seq [OF ok_all_valid [OF assms, of _ v, unfolded v fst_conv, folded v]])
        (use accept fail in \<open>auto simp del: ok_prog.simps(3)\<close>)
  qed
qed


section \<open>Reads\<close>

lemma read_loop_unresolved:
  "read_loop B data_of ents acc = Err (Unresolved d) \<Longrightarrow> acc = None \<Longrightarrow> \<exists>i e d. (i, e) \<in> set ents \<and> entry_cell e = Cell_Delta d"
  by (cases ents) (auto split: EntryCell.splits if_splits, blast)

lemma mv_read_unresolved:
  assumes "mv_wf M" "mv_read B data_of M k i = Err (Unresolved d)"
  shows "\<exists>j e d. entry M k j = Some e \<and> entry_cell e = Cell_Delta d"
proof -
  have "read_loop B data_of (below M k i) None = Err (Unresolved d)"
    using assms(2) by (simp add: mv_read_below split: if_splits)
  from read_loop_unresolved [OF this refl] in_below [OF assms(1)] show ?thesis by blast
qed

lemma capture_unresolved: "capture r = Some (kd, Result_Unresolved d) \<Longrightarrow> r = Err (Unresolved d)"
  by (cases r rule: capture.cases) auto

lemma get_state_neq_Panic:
  assumes "env_ok E" "shared_ok E n s u H tg" "capture (mv_read (codec E) extract_raw_bytes (mvmap s) key i) = Some (kd, res)"
  shows "get_state_value E key res \<noteq> Panic"
proof (cases res)
  case (Result_Unresolved d)
  note c = data_parts(1) [OF assms(2)]
  from capture_unresolved [OF assms(3) [unfolded Result_Unresolved]] mv_read_unresolved c obtain j e d'
    where "entry (mvmap s) key j = Some e" "entry_cell e = Cell_Delta d'" by (metis cells_ok_def)
  with c have "counter E key" by (fastforce simp: cells_ok_def cell_ok_def)
  then have "from_bytes (codec E) b \<noteq> None" if "base_view E key = Ok (Some b)" for b
    using assms(1) that unfolding env_ok_def decodes_def by blast
  moreover have "bind (map_err (\<lambda>_. ()) (apply_to d x)) (\<lambda>y. Ok (Some (to_bytes (codec E) y))) \<noteq> Panic" for x
    using apply_to_neq_Panic [of d x] by (cases "apply_to d x") auto
  moreover have "base_view E key \<noteq> Panic" using assms(1) by (simp add: env_ok_def)
  ultimately show ?thesis
    unfolding Result_Unresolved get_state_value_def ReadResult.case deserialize_def
    by (cases "base_view E key") (auto split: option.splits)
qed (use assms(1) in \<open>simp_all add: get_state_value_def env_ok_def\<close>)

lemma captured_answer:
  assumes "shared_ok E n s u H tg" "capture (mv_read (codec E) extract_raw_bytes (mvmap s) key i) = Some (kd, res)"
  shows "answer_ok E H \<lparr>access_path = key, kind = kd\<rparr> (get_state_value E key res)"
proof -
  note c = data_parts(1) [OF assms(1)]
  have "H key (j, inc) = Some w" if "mv_read (codec E) extract_raw_bytes (mvmap s) key i = Ok (Version (j, inc) w)" for j inc w
    using mv_read_version [OF _ that] c by (auto simp: cells_ok_def)
  with assms(2) show ?thesis
    by (cases "mv_read (codec E) extract_raw_bytes (mvmap s) key i" rule: capture.cases) (auto simp: answer_ok_def)
qed

definition seen :: "('k, 'ev, 'st, 'e, 'p) BlockEnv \<Rightarrow> 'k \<Rightarrow> ReadKind \<times> ReadResult \<Rightarrow> 'k ReadDescriptor \<times> Answer" where
  "seen E key c = (\<lparr>access_path = key, kind = fst c\<rparr>, get_state_value E key (snd c))"

lemma ok_map_read:
  assumes "t < m" "env_ok E"
  shows "ok_prog (map_read E key j) (XInv E n m) XW t (\<lambda>k r.
      (\<exists>dep. r = Err (Dependency dep) \<and> dep < j \<and> k = tok (At (Running (j, inc))) (Reads log)) \<or>
      (\<exists>c. capture r = Some c \<and> get_state_value E key (snd c) \<noteq> Panic \<and>
         k = tok (At (Running (j, inc))) (Reads (log @ [seen E key c]))))
    (tok (At (Running (j, inc))) (Reads log))" (is "ok_prog _ _ _ _ ?Q _")
  unfolding map_read_def
proof (rule ok_prog_atomic)
  fix s u \<gamma> assume I: "XInv E n m s u \<gamma>" and t: "\<gamma> t = tok (At (Running (j, inc))) (Reads log)"
  let ?r = "mv_read (codec E) extract_raw_bytes (mvmap s) key j"
  obtain e0 H0 where e0: "follows E n m s \<gamma> e0 H0" using I by (auto simp: XInv_def)
  note d0 = follows_data [OF e0]
  have ne: "?r \<noteq> Panic" by (rule read_neq_Panic [OF d0])
  show "\<exists>k'. XInv E n m (snd (?r, s)) u (\<gamma>(t := k')) \<and> ?Q k' (fst (?r, s))"
  proof (cases "capture ?r")
    case None
    with ne obtain dep where r: "?r = Err (Dependency dep)" by (cases ?r rule: capture.cases) auto
    have "dep < j" using mv_read_dependency [OF _ r] data_parts(1) [OF d0] by (simp add: cells_ok_def)
    with r I t show ?thesis by (intro exI [of _ "tok (At (Running (j, inc))) (Reads log)"]) (simp add: fun_upd_idem)
  next
    case (Some c)
    let ?g = "Reads (log @ [seen E key c])"
    have "XInv E n m s u (\<gamma>(t := tok (At (Running (j, inc))) ?g))"
    proof (rule XInv_local [OF assms(1) I t])
      fix e H assume "follows E n m s \<gamma> e H"
      note d = follows_data [OF this]
      have "agree E H (log @ [seen E key c])"
        using data_parts(5) [OF d, of t] t captured_answer [OF d, of key j "fst c" "snd c"] Some
        by (auto simp: agree_def seen_def)
      with data_untagged [OF d, of t ?g] t show "\<exists>H'. shared_ok E n s (ghost e) H' ((tok_tag \<circ> \<gamma>)(t := ?g))" by auto
    qed simp_all
    with get_state_neq_Panic [OF assms(2) d0, of key j "fst c" "snd c"] Some show ?thesis
      by (intro exI [of _ "tok (At (Running (j, inc))) ?g"]) simp
  qed
qed


lemma acts_wait: "acts (wait_for_dependency j dep)" "\<exists>f. on_sched (wait_for_dependency j dep) = Act f \<and> (\<forall>s. f s \<noteq> None)"
  unfolding wait_for_dependency_def new_condvar_def
  by (intro acts_rules, unfold on_sched_bind, intro never_waits)

lemma ok_dependency:
  assumes "t < m" "dep < j" "replay (txn E j) log = Some (Ask key cont)"
  shows "safe E n m t (pbind (on_sched (wait_for_dependency j dep)) (\<lambda>w. Return (case w of
       Some dep_condition \<Rightarrow> XWaiting (j, inc) dep_condition (Ask key cont) (map fst log)
     | None \<Rightarrow> XRunning (j, inc) (Ask key cont) (map fst log)))) (tok (At (Running (j, inc))) (Reads log))"
proof (rule ok_turn_call [OF assms(1), where w = "Call (depend (j, inc) dep)" and g' = "Reads log"])
  let ?c = "\<lambda>r. Return (case r of None \<Rightarrow> Running (j, inc) | Some c \<Rightarrow> Waiting (j, inc) c)"
  have s: "Call (depend (j, inc) dep) = settle (pbind (wait_for_dependency j dep) ?c)"
    using acts_call(2) [OF acts_rules(3) [OF acts_wait(1)], of j dep ?c] by (simp add: depend_def)
  show "safe E n m t (pbind (on_sched (wait_for_dependency j dep)) (\<lambda>w. Return (case w of
       Some dep_condition \<Rightarrow> XWaiting (j, inc) dep_condition (Ask key cont) (map fst log)
     | None \<Rightarrow> XRunning (j, inc) (Ask key cont) (map fst log)))) (tok (Call (depend (j, inc) dep)) (Reads log))"
    unfolding s
    by (rule ok_call [OF assms(1) calm_methods(4) acts_call(1) [OF acts_wait(1)]]) (use assms(3) in \<open>auto split: option.split\<close>)
qed (rule never_waits(3) [OF acts_wait(2)], simp_all add: turn_depend assms(2))

lemma ok_view_read:
  fixes E :: "('k, 'ev, 'st, 'e, 'p) BlockEnv"
  assumes "t < m" "env_ok E" "replay (txn E j) log = Some (Ask key cont)"
  shows "safe E n m t (view_read E (j, inc) key cont (map fst log)) (tok (At (Running (j, inc))) (Reads log))"
  unfolding view_read_def fst_conv
proof (rule ok_prog_seq [OF ok_map_read [OF assms(1,2)]])
  let ?next = "\<lambda>r. case r of
       Err (Dependency dep) \<Rightarrow> pbind (on_sched (wait_for_dependency j dep)) (\<lambda>w. Return (case w of
           Some dep_condition \<Rightarrow> XWaiting (j, inc) dep_condition (Ask key cont) (map fst log)
         | None \<Rightarrow> XRunning (j, inc) (Ask key cont) (map fst log)))
     | _ \<Rightarrow> (case capture r of
         None \<Rightarrow> Crash
       | Some (k, res) \<Rightarrow> (case get_state_value E key res of
           Panic \<Rightarrow> Crash
         | a \<Rightarrow> Return (XRunning (j, inc) (cont a) (map fst log @ [\<lparr>access_path = key, kind = k\<rparr>]))))"
  fix k :: "'k xtoken" and r
  assume "(\<exists>dep. r = Err (Dependency dep) \<and> dep < j \<and> k = tok (At (Running (j, inc))) (Reads log)) \<or>
      (\<exists>c. capture r = Some c \<and> get_state_value E key (snd c) \<noteq> Panic \<and>
         k = tok (At (Running (j, inc))) (Reads (log @ [seen E key c])))"
  then show "safe E n m t (?next r) k"
  proof (elim disjE exE conjE)
    fix dep assume "r = Err (Dependency dep)" "dep < j" "k = tok (At (Running (j, inc))) (Reads log)"
    then show ?thesis using ok_dependency [OF assms(1) _ assms(3)] by (simp del: ok_prog.simps(3))
  next
    fix c assume c: "capture r = Some c" "get_state_value E key (snd c) \<noteq> Panic"
      "k = tok (At (Running (j, inc))) (Reads (log @ [seen E key c]))"
    obtain kd res where kd: "c = (kd, res)" by (cases c)
    have "?next r = (case capture r of None \<Rightarrow> Crash
       | Some (k, res) \<Rightarrow> (case get_state_value E key res of Panic \<Rightarrow> Crash
         | a \<Rightarrow> Return (XRunning (j, inc) (cont a) (map fst log @ [\<lparr>access_path = key, kind = k\<rparr>]))))"
      using c(1) by (cases r rule: capture.cases) simp_all
    then have eq: "?next r = Return (XRunning (j, inc) (cont (get_state_value E key res)) (map fst log @ [\<lparr>access_path = key, kind = kd\<rparr>]))"
      using c kd by (auto split: outcome.splits)
    have "replay (txn E j) (log @ [seen E key c]) = Some (cont (get_state_value E key res))"
      using assms(3) by (simp add: replay_append seen_def kd)
    then have "xpt E (XRunning (j, inc) (cont (get_state_value E key res)) (map fst log @ [\<lparr>access_path = key, kind = kd\<rparr>])) k"
      using c(3) by (auto simp: kd seen_def)
    then show ?thesis unfolding eq by simp
  qed
qed

end
