(* ===== verification/Parallel_Finish.thy ===== *)
theory Parallel_Finish
  imports Parallel_Safety
begin

text \<open>
  The end of an execution, from the first write to the call of the scheduler,
  and the turns of a worker: each of them keeps the invariant of the executor.
\<close>

section \<open>The end of an execution\<close>

text \<open>The transaction is being written.\<close>

abbreviation writing ::
  "TxnIndex \<Rightarrow> Incarnation \<Rightarrow> 'k log \<Rightarrow> ('k \<Rightarrow> WriteOp Entry option) \<Rightarrow> 'k list \<Rightarrow> bool \<Rightarrow> 'k xtoken" where
  "writing j inc log new prev outside \<equiv> tok (At (Running (j, inc))) (Writes (j, inc) new prev outside False log)"

definition clean :: "('k \<Rightarrow> WriteOp Entry option) \<Rightarrow> 'k list \<Rightarrow> bool" where
  "clean new prev \<longleftrightarrow> distinct prev \<and> (\<forall>k \<in> set prev. new k = None)"

lemma ok_write_start:
  assumes "t < m"
  shows "ok_prog (modified_keys j) (XInv E n m) XW t (\<lambda>k prev. k = writing j inc log (\<lambda>_. None) prev False \<and> distinct prev)
    (tok (At (Running (j, inc))) (Reads log))"
proof (rule ok_modified_keys)
  fix s u \<gamma> assume I: "XInv E n m s u \<gamma>" and t: "\<gamma> t = tok (At (Running (j, inc))) (Reads log)"
  let ?prev = "keys_of (outputs (last_io s) ! j)"
  have own: "j < n \<and> txn_status (sched s) ! j = Executing inc \<and> alone (tok_tag \<circ> \<gamma>) t j" if "follows E n m s \<gamma> e H" for e H
    using follows_owner(1) [OF that assms, of j inc] t by simp
  have "XInv E n m s u (\<gamma>(t := writing j inc log (\<lambda>_. None) ?prev False))"
  proof (rule XInv_local [OF assms I t])
    fix e H assume e: "follows E n m s \<gamma> e H"
    from data_parts(5) [OF follows_data [OF e], of t] t have "agree E H log" by simp
    with data_write_start [OF follows_data [OF e], of t j log inc] own [OF e] t
    show "\<exists>H'. shared_ok E n s (ghost e) H' ((tok_tag \<circ> \<gamma>)(t := Writes (j, inc) (\<lambda>_. None) ?prev False False log))"
      by auto
  qed simp_all
  moreover have "distinct ?prev" by (auto simp: keys_of_def split: option.split)
  moreover have "j < n" using I own unfolding XInv_def by blast
  ultimately show "j < n \<and> (\<exists>k'. XInv E n m s u (\<gamma>(t := k')) \<and> k' = writing j inc log (\<lambda>_. None) ?prev False \<and> distinct ?prev)"
    by blast
qed

lemma old_incarnation:
  assumes d: "data_ok E n st M inp out u H tg" and t: "tg t = Writes (j, inc) new prev outside stored log"
    and j: "st ! j = Executing inc" "alone tg t j" and k: "new k = None" and e: "entry M k j = Some e" "entry_cell e = Cell_Write i v"
  shows "i < inc"
proof (rule ccontr)
  assume "\<not> i < inc"
  moreover have "H k (j, i) = Some v" using data_parts(1) [OF d] e by (simp add: cells_ok_def)
  ultimately obtain t' where t': "wrote (tg t') k (j, inc)"
    using data_parts(2) [OF d] j(1) by (fastforce simp: fresh_ok_def)
  have "t' = t" using j(2) wrote_txn [OF t'] by (auto simp: alone_def)
  with t' t k show False by simp
qed

lemma ok_put:
  fixes E :: "('k, 'ev, 'st, 'e, 'p) BlockEnv"
  assumes "t < m" "new k = None" "cell_ok E k (entry_cell e)" "\<And>i v. entry_cell e = Cell_Write i v \<Longrightarrow> i = inc"
    and f: "\<And>M. mv_wf M \<Longrightarrow> (\<And>e i v. entry M k j = Some e \<Longrightarrow> entry_cell e = Cell_Write i v \<Longrightarrow> i < inc) \<Longrightarrow>
      \<exists>M'. f M = (Ok (), M') \<and> replaced M k j (Some e) M'"
  shows "ok_prog (on_map f) (XInv E n m) XW t
    (\<lambda>k' _. k' = writing j inc log (new(k := Some e)) (removeAll k prev) (outside \<or> k \<notin> set prev)) (writing j inc log new prev outside)"
proof (rule ok_on_map)
  fix s :: "('k, 'ev, 'st, 'e, 'p) Shared" and u \<gamma> assume I: "XInv E n m s u \<gamma>" and t: "\<gamma> t = writing j inc log new prev outside"
  let ?g = "Writes (j, inc) (new(k := Some e)) (removeAll k prev) (outside \<or> k \<notin> set prev) False log"
  let ?k = "tok (At (Running (j, inc))) ?g"
  have own: "j < n \<and> txn_status (sched s) ! j = Executing inc \<and> alone (tok_tag \<circ> \<gamma>) t j" if "follows E n m s \<gamma> e H" for e H
    using follows_owner(1) [OF that assms(1), of j inc] t by simp
  obtain e0 H0 where e0: "follows E n m s \<gamma> e0 H0" using I by (auto simp: XInv_def)
  have "mv_wf (mvmap s)" using data_parts(1) [OF follows_data [OF e0]] by (simp add: cells_ok_def)
  moreover have "i < inc" if "entry (mvmap s) k j = Some e" "entry_cell e = Cell_Write i v" for e i v
    using old_incarnation [OF follows_data [OF e0], of t j inc new prev outside False log k] own [OF e0] t assms(2) that by simp
  ultimately obtain M where M: "f (mvmap s) = (Ok (), M)" "replaced (mvmap s) k j (Some e) M" using f by blast
  have "XInv E n m (s\<lparr>mvmap := M\<rparr>) u (\<gamma>(t := ?k))"
  proof (rule XInv_local [OF assms(1) I t])
    fix e1 H assume e1: "follows E n m s \<gamma> e1 H"
    show "\<exists>H'. shared_ok E n (s\<lparr>mvmap := M\<rparr>) (ghost e1) H' ((tok_tag \<circ> \<gamma>)(t := ?g))"
      using data_write [OF follows_data [OF e1], of t j inc new prev outside log k e M] own [OF e1] t assms(2-4) M(2) by simp
  qed simp_all
  with M(1) show "\<exists>x M k'. f (mvmap s) = (Ok x, M) \<and> XInv E n m (s\<lparr>mvmap := M\<rparr>) u (\<gamma>(t := k')) \<and> k' = ?k" by blast
qed

lemma ok_add_write:
  assumes "t < m" "new k = None" "cell_ok E k (Cell_Write inc w)"
  shows "ok_prog (on_map (add_write k (j, inc) w)) (XInv E n m) XW t
    (\<lambda>k' _. k' = writing j inc log (new(k := Some (new_write_from FLAG_DONE inc w))) (removeAll k prev) (outside \<or> k \<notin> set prev))
    (writing j inc log new prev outside)"
proof (rule ok_put [where new = new, OF assms(1,2)])
  show "\<exists>M'. add_write k (j, inc) w M = (Ok (), M') \<and> replaced M k j (Some (new_write_from FLAG_DONE inc w)) M'"
    if "mv_wf M" "\<And>e i v. entry M k j = Some e \<Longrightarrow> entry_cell e = Cell_Write i v \<Longrightarrow> i < inc" for M
    using add_write_replaces [of M k j inc w] that by metis
qed (use assms(3) in \<open>simp_all add: new_write_from_def\<close>)

lemma ok_add_delta:
  assumes "t < m" "new k = None" "counter E k"
  shows "ok_prog (on_map (add_delta k j d)) (XInv E n m) XW t
    (\<lambda>k' _. k' = writing j inc log (new(k := Some (new_delta_from FLAG_DONE d))) (removeAll k prev) (outside \<or> k \<notin> set prev))
    (writing j inc log new prev outside)"
proof (rule ok_put [where new = new, OF assms(1,2)])
  show "\<exists>M'. add_delta k j d M = (Ok (), M') \<and> replaced M k j (Some (new_delta_from FLAG_DONE d)) M'" if "mv_wf M" for M
    using add_delta_replaces [of M k j d] that by metis
qed (use assms(3) in \<open>simp_all add: new_delta_from_def cell_ok_def\<close>)


text \<open>The loops over the writes and the deltas of an output.\<close>

definition put_all :: "('v \<Rightarrow> WriteOp Entry) \<Rightarrow> ('k \<times> 'v) list \<Rightarrow> 'k \<Rightarrow> WriteOp Entry option" where
  "put_all f kvs k = map_option f (map_of kvs k)"

lemma put_all_Cons: "k \<notin> fst ` set kvs \<Longrightarrow> new(k := Some (f v)) ++ put_all f kvs = new ++ put_all f ((k, v) # kvs)"
  by (rule ext) (auto simp: put_all_def map_add_def map_of_eq_None_iff [symmetric] split: option.split)

lemma put_all_Nil [simp]: "new ++ put_all f [] = new"
  by (rule ext) (simp add: put_all_def map_add_def)

lemma ok_apply_writes:
  assumes "t < m" "distinct (map fst ws)" "\<forall>k \<in> fst ` set ws. new k = None" "\<forall>(k, w) \<in> set ws. cell_ok E k (Cell_Write inc w)"
    and "clean new prev"
  shows "ok_prog (apply_writes (j, inc) prev outside ws) (XInv E n m) XW t
    (\<lambda>k x. k = writing j inc log (new ++ put_all (new_write_from FLAG_DONE inc) ws) (fst x) (snd x) \<and>
       clean (new ++ put_all (new_write_from FLAG_DONE inc) ws) (fst x)) (writing j inc log new prev outside)"
  using assms(2-5)
proof (induction ws arbitrary: new prev outside)
  case (Cons kw ws)
  obtain k w where kw: "kw = (k, w)" by (cases kw)
  let ?new = "new(k := Some (new_write_from FLAG_DONE inc w))"
  have "ok_prog (apply_writes (j, inc) (removeAll k prev) (outside \<or> k \<notin> set prev) ws) (XInv E n m) XW t
    (\<lambda>k x. k = writing j inc log (?new ++ put_all (new_write_from FLAG_DONE inc) ws) (fst x) (snd x) \<and>
       clean (?new ++ put_all (new_write_from FLAG_DONE inc) ws) (fst x))
    (writing j inc log ?new (removeAll k prev) (outside \<or> k \<notin> set prev))"
    by (rule Cons.IH) (use Cons.prems kw in \<open>auto simp: clean_def distinct_removeAll\<close>)
  moreover have k: "k \<notin> fst ` set ws" using Cons.prems(1) kw by simp
  moreover note put_all_Cons [OF k, of new "new_write_from FLAG_DONE inc" w]
  ultimately show ?case
    unfolding kw apply_writes.simps
    by (intro ok_prog_seq [OF ok_add_write [OF assms(1)]]) (use Cons.prems kw in auto)
qed simp

lemma ok_apply_deltas:
  assumes "t < m" "distinct (map fst ds)" "\<forall>k \<in> fst ` set ds. new k = None" "\<forall>k \<in> fst ` set ds. counter E k"
    and "clean new prev"
  shows "ok_prog (apply_deltas (j, inc) prev outside ds) (XInv E n m) XW t
    (\<lambda>k x. k = writing j inc log (new ++ put_all (new_delta_from FLAG_DONE) ds) (fst x) (snd x) \<and>
       clean (new ++ put_all (new_delta_from FLAG_DONE) ds) (fst x)) (writing j inc log new prev outside)"
  using assms(2-5)
proof (induction ds arbitrary: new prev outside)
  case (Cons kd ds)
  obtain k d where kd: "kd = (k, d)" by (cases kd)
  let ?new = "new(k := Some (new_delta_from FLAG_DONE d))"
  have "ok_prog (apply_deltas (j, inc) (removeAll k prev) (outside \<or> k \<notin> set prev) ds) (XInv E n m) XW t
    (\<lambda>k x. k = writing j inc log (?new ++ put_all (new_delta_from FLAG_DONE) ds) (fst x) (snd x) \<and>
       clean (?new ++ put_all (new_delta_from FLAG_DONE) ds) (fst x))
    (writing j inc log ?new (removeAll k prev) (outside \<or> k \<notin> set prev))"
    by (rule Cons.IH) (use Cons.prems kd in \<open>auto simp: clean_def distinct_removeAll\<close>)
  moreover have k: "k \<notin> fst ` set ds" using Cons.prems(1) kd by simp
  moreover note put_all_Cons [OF k, of new "new_delta_from FLAG_DONE" d]
  ultimately show ?case
    unfolding kd apply_deltas.simps fst_conv
    by (intro ok_prog_seq [OF ok_add_delta [OF assms(1)]]) (use Cons.prems kd in auto)
qed simp

lemma env_output:
  assumes "env_ok E" "leaf (txn E j) status" "output_of status = Some out"
  shows "distinct (map fst (get_writes out))" "distinct (map fst (get_deltas out))"
    "fst ` set (get_writes out) \<inter> fst ` set (get_deltas out) = {}"
    "\<forall>(k, w) \<in> set (get_writes out). cell_ok E k (Cell_Write inc w)" "\<forall>k \<in> fst ` set (get_deltas out). counter E k"
proof -
  have "distinct (map fst (get_writes out) @ map fst (get_deltas out))"
    "\<forall>(k, w) \<in> set (get_writes out). counter E k \<longrightarrow> decodes E (extract_raw_bytes w)"
    using assms unfolding env_ok_def by blast+
  then show "distinct (map fst (get_writes out))" "distinct (map fst (get_deltas out))"
    "fst ` set (get_writes out) \<inter> fst ` set (get_deltas out) = {}"
    "\<forall>(k, w) \<in> set (get_writes out). cell_ok E k (Cell_Write inc w)" by (auto simp: cell_ok_def)
  show "\<forall>k \<in> fst ` set (get_deltas out). counter E k" using assms(2,3) unfolding counter_def by blast
qed

lemma ok_apply_updates:
  assumes "t < m" "env_ok E" "leaf (txn E j) status" "distinct prev"
  shows "ok_prog (apply_updates (j, inc) prev status) (XInv E n m) XW t
    (\<lambda>k x. k = writing j inc log (entry_from inc (Some status)) (fst x) (snd x) \<and> clean (entry_from inc (Some status)) (fst x))
    (writing j inc log (\<lambda>_. None) prev False)"
proof (cases "output_of status")
  case None
  then have "entry_from inc (Some status) = (\<lambda>_. None)" by (simp add: entry_from_def fun_eq_iff)
  with None assms(4) show ?thesis by (simp add: apply_updates_def clean_def)
next
  case (Some out)
  note ok = env_output [OF assms(2,3) Some]
  let ?w = "(\<lambda>_. None) ++ put_all (new_write_from FLAG_DONE inc) (get_writes out)"
  have all: "?w ++ put_all (new_delta_from FLAG_DONE) (get_deltas out) = entry_from inc (Some status)"
    by (auto simp: fun_eq_iff entry_from_def Some put_all_def map_add_def split: option.split)
  have free: "\<forall>k \<in> fst ` set (get_deltas out). ?w k = None"
    using ok(3) by (auto simp: put_all_def map_add_def map_of_eq_None_iff disjoint_iff split: option.split)
  have start: "clean (\<lambda>_. None) prev" using assms(4) by (simp add: clean_def)
  show ?thesis
    unfolding apply_updates_def Some option.case
  proof (rule ok_prog_seq [OF ok_apply_writes [OF assms(1) ok(1) _ ok(4) start]])
    fix k and x :: "'a list \<times> bool"
    assume "k = writing j inc log ?w (fst x) (snd x) \<and> clean ?w (fst x)"
    then show "ok_prog (case x of (prev, updates_outside) \<Rightarrow> apply_deltas (j, inc) prev updates_outside (get_deltas out)) (XInv E n m) XW t
        (\<lambda>k x. k = writing j inc log (entry_from inc (Some status)) (fst x) (snd x) \<and> clean (entry_from inc (Some status)) (fst x)) k"
      using ok_apply_deltas [OF assms(1) ok(2) free ok(5), of "fst x" j inc "snd x" n log] unfolding all by (simp add: split_beta)
  qed simp
qed


lemma ok_delete_all:
  fixes E :: "('k, 'ev, 'st, 'e, 'p) BlockEnv"
  assumes "t < m" "clean new prev"
  shows "ok_prog (delete_all j prev) (XInv E n m) XW t (\<lambda>k _. k = writing j inc log new [] outside) (writing j inc log new prev outside)"
  using assms(2)
proof (induction prev)
  case (Cons k ks)
  have rest: "removeAll k (k # ks) = ks" "new k = None" "clean new ks" using Cons.prems by (auto simp: clean_def)
  have "ok_prog (on_map (mv_delete k j)) (XInv E n m) XW t (\<lambda>k' _. k' = writing j inc log new ks outside)
    (writing j inc log new (k # ks) outside)"
  proof (rule ok_on_map)
    fix s :: "('k, 'ev, 'st, 'e, 'p) Shared" and u \<gamma>
    assume I: "XInv E n m s u \<gamma>" and t: "\<gamma> t = writing j inc log new (k # ks) outside"
    have own: "j < n \<and> txn_status (sched s) ! j = Executing inc \<and> alone (tok_tag \<circ> \<gamma>) t j" if "follows E n m s \<gamma> e H" for e H
      using follows_owner(1) [OF that assms(1), of j inc] t by simp
    obtain e0 H0 where e0: "follows E n m s \<gamma> e0 H0" using I by (auto simp: XInv_def)
    have wf: "mv_wf (mvmap s)" using data_parts(1) [OF follows_data [OF e0]] by (simp add: cells_ok_def)
    have "estimated (mvmap s) k j" using data_parts(5) [OF follows_data [OF e0], of t] t rest(2) by (simp add: partial_def)
    then obtain en where "entry (mvmap s) k j = Some en" by (auto simp: estimated_def)
    from delete_replaces [OF wf this] obtain M where M: "mv_delete k j (mvmap s) = (Ok () :: (unit, unit) outcome, M)"
      "replaced (mvmap s) k j None M" by metis
    have "XInv E n m (s\<lparr>mvmap := M\<rparr>) u (\<gamma>(t := writing j inc log new ks outside))"
    proof (rule XInv_local [OF assms(1) I t])
      fix e1 H assume e1: "follows E n m s \<gamma> e1 H"
      show "\<exists>H'. shared_ok E n (s\<lparr>mvmap := M\<rparr>) (ghost e1) H' ((tok_tag \<circ> \<gamma>)(t := Writes (j, inc) new ks outside False log))"
        using data_delete [OF follows_data [OF e1], of t j inc new "k # ks" outside log k M] own [OF e1] t rest(1,2) M(2)
        by (auto simp del: removeAll.simps)
    qed simp_all
    with M(1) show "\<exists>x M k'. mv_delete k j (mvmap s) = (Ok x :: (unit, unit) outcome, M) \<and>
        XInv E n m (s\<lparr>mvmap := M\<rparr>) u (\<gamma>(t := k')) \<and> k' = writing j inc log new ks outside" by blast
  qed
  from ok_prog_seq [OF this] Cons.IH [OF rest(3)] show ?case by simp
qed simp

section \<open>The records\<close>

lemma XInv_records:
  assumes "XInv E n m s u \<gamma>" "inputs r = inputs (last_io s)" "outputs r = outputs (last_io s)"
  shows "XInv E n m (s\<lparr>last_io := r\<rparr>) u \<gamma>"
  using assms unfolding XInv_def follows_def by simp

lemma ok_on_record:
  assumes "\<And>r. inputs (snd (f r)) = inputs r \<and> outputs (snd (f r)) = outputs r"
  shows "ok_prog (on_record f) (XInv E n m) XW t (\<lambda>k' _. k' = k) k"
  unfolding on_record_def
proof (rule ok_prog_atomic)
  fix s u \<gamma> assume I: "XInv E n m s u \<gamma>" and t: "\<gamma> t = k"
  have "\<gamma>(t := k) = \<gamma>" using t by auto
  with XInv_records [OF I, of "snd (f (last_io s))"] assms
  show "\<exists>k'. XInv E n m (snd (case f (last_io s) of (x, r) \<Rightarrow> (x, s\<lparr>last_io := r\<rparr>))) u (\<gamma>(t := k')) \<and> k' = k"
    by (intro exI [of _ k]) (simp add: split_beta)
qed

lemma ok_append_and_check:
  assumes "\<And>p. ok_prog (ins p) (XInv E n m) XW t (\<lambda>k' _. k' = k) k" "\<And>p. ok_prog (has p) (XInv E n m) XW t (\<lambda>k' _. k' = k) k"
  shows "ok_prog (append_and_check paths ins has) (XInv E n m) XW t (\<lambda>k' _. k' = k) k"
proof (induction paths)
  case (Cons p ps)
  then show ?case
    unfolding append_and_check.simps
    by (intro ok_prog_seq [OF assms(1)]) (simp only:, intro ok_prog_seq [OF assms(2)], simp)
qed simp

lemma ok_append: "ok_prog (append_reads ps) (XInv E n m) XW t (\<lambda>k' _. k' = k) k"
  "ok_prog (append_writes ps) (XInv E n m) XW t (\<lambda>k' _. k' = k) k"
  unfolding append_reads_def append_writes_def by (rule ok_append_and_check; rule ok_on_record; simp)+

lemma ok_store_input:
  assumes "t < m"
  shows "ok_prog (store_input j (map fst log)) (XInv E n m) XW t
    (\<lambda>k _. k = tok (At (Running (j, inc))) (Writes (j, inc) new prev outside True log)) (writing j inc log new prev outside)"
  unfolding store_input_def
proof (rule ok_prog_attempt)
  fix s u \<gamma> assume I: "XInv E n m s u \<gamma>" and t: "\<gamma> t = writing j inc log new prev outside"
  let ?s = "s\<lparr>last_io := (last_io s)\<lparr>inputs := (inputs (last_io s))[j := Some (map fst log)]\<rparr>\<rparr>"
  have own: "j < n \<and> txn_status (sched s) ! j = Executing inc \<and> alone (tok_tag \<circ> \<gamma>) t j" if "follows E n m s \<gamma> e H" for e H
    using follows_owner(1) [OF that assms(1), of j inc] t by simp
  obtain e0 H0 where e0: "follows E n m s \<gamma> e0 H0" using I by (auto simp: XInv_def)
  have "j < length (inputs (last_io s))" using data_parts(4) [OF follows_data [OF e0]] own [OF e0] by (simp add: records_ok_def)
  moreover have "XInv E n m ?s u (\<gamma>(t := tok (At (Running (j, inc))) (Writes (j, inc) new prev outside True log)))"
  proof (rule XInv_local [OF assms(1) I t])
    fix e1 H assume e1: "follows E n m s \<gamma> e1 H"
    show "\<exists>H'. shared_ok E n ?s (ghost e1) H' ((tok_tag \<circ> \<gamma>)(t := Writes (j, inc) new prev outside True log))"
      using data_store_input [OF follows_data [OF e1], of t j inc new prev outside log] own [OF e1] t by auto
  qed simp_all
  ultimately show "\<exists>x s' k'. (if j < length (inputs (last_io s)) then Some ((), ?s) else None) = Some (x, s') \<and>
      XInv E n m s' u (\<gamma>(t := k')) \<and> k' = tok (At (Running (j, inc))) (Writes (j, inc) new prev outside True log)" by auto
qed

lemma ok_store_output:
  assumes "t < m" "replay (txn E j) log = Some (Finish status)"
  shows "ok_prog (store_output j status) (XInv E n m) XW t
    (\<lambda>k _. k = tok (At (Running (j, inc))) (Recorded (j, inc) outside))
    (tok (At (Running (j, inc))) (Writes (j, inc) (entry_from inc (Some status)) [] outside True log))"
  unfolding store_output_def
proof (rule ok_prog_attempt)
  fix s u \<gamma> assume I: "XInv E n m s u \<gamma>"
    and t: "\<gamma> t = tok (At (Running (j, inc))) (Writes (j, inc) (entry_from inc (Some status)) [] outside True log)"
  let ?s = "s\<lparr>last_io := (last_io s)\<lparr>outputs := (outputs (last_io s))[j := Some status]\<rparr>\<rparr>"
  have own: "j < n \<and> txn_status (sched s) ! j = Executing inc \<and> alone (tok_tag \<circ> \<gamma>) t j" if "follows E n m s \<gamma> e H" for e H
    using follows_owner(1) [OF that assms(1), of j inc] t by simp
  obtain e0 H0 where e0: "follows E n m s \<gamma> e0 H0" using I by (auto simp: XInv_def)
  have "j < length (outputs (last_io s))" using data_parts(4) [OF follows_data [OF e0]] own [OF e0] by (simp add: records_ok_def)
  moreover have "XInv E n m ?s u (\<gamma>(t := tok (At (Running (j, inc))) (Recorded (j, inc) outside)))"
  proof (rule XInv_local [OF assms(1) I t])
    fix e1 H assume e1: "follows E n m s \<gamma> e1 H"
    show "\<exists>H'. shared_ok E n ?s (ghost e1) H' ((tok_tag \<circ> \<gamma>)(t := Recorded (j, inc) outside))"
      using data_store_output [OF follows_data [OF e1], of t j inc "entry_from inc (Some status)" outside log status]
        own [OF e1] t assms(2) by auto
  qed simp_all
  ultimately show "\<exists>x s' k'. (if j < length (outputs (last_io s)) then Some ((), ?s) else None) = Some (x, s') \<and>
      XInv E n m s' u (\<gamma>(t := k')) \<and> k' = tok (At (Running (j, inc))) (Recorded (j, inc) outside)" by auto
qed


lemma ok_record_io:
  assumes "t < m" "replay (txn E j) log = Some (Finish status)"
  shows "ok_prog (record_io E j (map fst log) status) (XInv E n m) XW t
    (\<lambda>k _. k = tok (At (Running (j, inc))) (Recorded (j, inc) outside)) (writing j inc log (entry_from inc (Some status)) [] outside)"
proof -
  let ?k = "writing j inc log (entry_from inc (Some status)) [] outside"
  let ?same = "\<lambda>p. ok_prog p (XInv E n m) XW t (\<lambda>k' _. k' = ?k) ?k"
  have get: "?same (on_record (\<lambda>r. (module_read_write_intersection r, r)))"
    and put: "?same (on_record (\<lambda>r. ((), r\<lparr>module_read_write_intersection := True\<rparr>)))"
    by (rule ok_on_record; simp)+
  have second: "?same (pbind (if b then Return True else append_writes (written_modules E status)) (\<lambda>b.
       if b then on_record (\<lambda>r. ((), r\<lparr>module_read_write_intersection := True\<rparr>)) else Return ()))" for b
    by (rule ok_prog_seq [where R = "\<lambda>k' _. k' = ?k"]) (use ok_append(2) put in \<open>auto simp del: ok_prog.simps(3)\<close>)
  have flags: "?same (if known then Return ()
      else pbind (append_reads (read_modules E (map fst log))) (\<lambda>b.
           pbind (if b then Return True else append_writes (written_modules E status)) (\<lambda>b.
           if b then on_record (\<lambda>r. ((), r\<lparr>module_read_write_intersection := True\<rparr>)) else Return ())))" for known
    by (cases known) (simp, simp only: if_False, rule ok_prog_seq [OF ok_append(1)], simp only: second)
  show ?thesis
    unfolding record_io_def
    by (rule ok_prog_seq [OF get], simp only:, rule ok_prog_seq [OF flags], simp only:,
        rule ok_prog_seq [OF ok_store_input [OF assms(1)]], simp only:, rule ok_store_output [OF assms])
qed

lemma ok_finish_transaction:
  fixes E :: "('k, 'ev, 'st, 'e, 'p) BlockEnv"
  assumes "t < m" "env_ok E" "replay (txn E j) log = Some (Finish status)"
  shows "safe E n m t (finish_transaction E (j, inc) status (map fst log)) (tok (At (Running (j, inc))) (Reads log))"
  unfolding finish_transaction_def fst_conv snd_conv
proof (rule ok_prog_seq [OF ok_write_start [OF assms(1)]])
  fix k :: "'k xtoken" and prev
  assume k: "k = writing j inc log (\<lambda>_. None) prev False \<and> distinct prev"
  have leaf: "leaf (txn E j) status" using replay_leaf [OF assms(3)] by simp
  have conclude: "safe E n m t (pbind (on_sched (finish_execution j inc outside TaskGuard)) (\<lambda>task. Return (XHolding task)))
      (tok (At (Running (j, inc))) (Recorded (j, inc) outside))" for outside
    by (rule ok_prog_seq [OF ok_finish_execution [OF assms(1)]]) simp
  have "safe E n m t (pbind (delete_all j (fst x)) (\<lambda>_. pbind (record_io E j (map fst log) status) (\<lambda>_.
       pbind (on_sched (finish_execution j inc (snd x) TaskGuard)) (\<lambda>task. Return (XHolding task)))))
      (writing j inc log (entry_from inc (Some status)) (fst x) (snd x))" if "clean (entry_from inc (Some status)) (fst x)" for x
    by (rule ok_prog_seq [OF ok_delete_all [OF assms(1) that]], simp only:,
        rule ok_prog_seq [OF ok_record_io [OF assms(1,3)]], simp only: conclude)
  then show "safe E n m t (pbind (apply_updates (j, inc) prev status) (\<lambda>(prev_modified_keys, updates_outside).
       pbind (delete_all j prev_modified_keys) (\<lambda>_. pbind (record_io E j (map fst log) status) (\<lambda>_.
       pbind (on_sched (finish_execution j inc updates_outside TaskGuard)) (\<lambda>task. Return (XHolding task)))))) k"
    using k by (simp only: split_beta, intro ok_prog_seq [OF ok_apply_updates [OF assms(1,2) leaf]]) (auto simp del: ok_prog.simps(3))
qed

section \<open>Every turn\<close>

lemma xturn_keeps:
  fixes E :: "('k, 'ev, 'st, 'e, 'p) BlockEnv"
  assumes "env_ok E" "t < m" "XInv E n m s u \<gamma>" "xpt E p (\<gamma> t)" "xturn E s u p w u'"
  shows "\<exists>k. XInv E n m s u' (\<gamma>(t := k)) \<and> ok_worker (XInv E n m) XW (xpt E) t w k"
proof -
  have same: ?thesis if "ok_worker (XInv E n m) XW (xpt E) t w (\<gamma> t)"
    using that assms(3) by (intro exI [of _ "\<gamma> t"]) simp
  have turned: ?thesis if "\<gamma> t = tok (At q) g" "\<And>u. turn (sched s) u q v u" "tag_txn g = None" "tag_txn g' = None"
    "\<And>M inp out H. tag_ok E M inp out H g \<Longrightarrow> tag_ok E M inp out H g'" "\<And>v r. awaits g v r \<Longrightarrow> awaits g' v r"
    "ok_worker (XInv E n m) XW (xpt E) t w (tok v g')" for q g v g'
    using XInv_turn [OF assms(2,3) that(1-6)] that(7) by auto
  from assms(5) show ?thesis
  proof cases
    case xturn_next
    then have g: "\<gamma> t = tok (At (Holding NoTask)) Free" using assms(4) by simp
    have a: "acts next_task_round"
      unfolding next_task_round_def done_loaded_def load_def by (intro acts_rules)
    have "safe E n m t (pbind (on_sched next_task_round) (\<lambda>r. Return (XHolding (case r of None \<Rightarrow> NoTask | Some task \<Rightarrow> task))))
        (tok (settle (pbind next_task_round (\<lambda>r. Return (case r of None \<Rightarrow> Holding NoTask | Some task \<Rightarrow> Holding task)))) Free)"
      by (rule ok_call [OF assms(2) _ acts_call(1) [OF a]])
        (auto simp: next_task_round_def done_loaded_def simp del: obeys.simps intro!: obeys_rules split: option.split)
    then have "ok_worker (XInv E n m) XW (xpt E) t w (tok (Call take_next) Free)"
      unfolding xturn_next ok_worker_def take_next_def acts_call(2) [OF acts_rules(3) [OF a]] by simp
    with g turned [OF g turn_next, of Free] show ?thesis by simp
  next
    case xturn_stop
    then have g: "\<gamma> t = tok (At (Holding Done)) Free" using assms(4) by simp
    show ?thesis by (rule turned [OF g turn_stop, of Free]) (use xturn_stop in \<open>simp_all add: ok_worker_def\<close>)
  next
    case (xturn_execute v guard)
    then have g: "\<gamma> t = tok (At (Holding (ExecutionTask v None guard))) Free" using assms(4) by simp
    show ?thesis
      by (rule turned [OF g turn_execute, of "Reads []"]) (use xturn_execute in \<open>auto simp: ok_worker_def agree_def\<close>)
  next
    case (xturn_resolve v c guard)
    then have g: "\<gamma> t = tok (At (Holding (ExecutionTask v (Some c) guard))) Free" using assms(4) by simp
    have a: "acts (notify_resolved c)" unfolding notify_resolved_def by (rule acts_rules)
    have "safe E n m t (pbind (on_sched (notify_resolved c)) (\<lambda>_. drop_task)) (tok (settle (resolve c guard)) Free)"
      unfolding resolve_def
      by (rule ok_call [OF assms(2) calm_quiet_methods(9) acts_call(1) [OF a]]) (simp_all only: tag_txn.simps ok_drop_task [OF assms(2)])
    moreover have "settle (resolve c guard) = Call (resolve c guard)"
      unfolding resolve_def by (rule acts_call(2) [OF acts_rules(3) [OF a]])
    ultimately have "ok_worker (XInv E n m) XW (xpt E) t w (tok (Call (resolve c guard)) Free)"
      unfolding xturn_resolve ok_worker_def by simp
    with turned [OF g turn_resolve, of Free] show ?thesis by simp
  next
    case (xturn_validate v guard)
    with assms(4) ok_validate [OF assms(2)] show ?thesis by (intro same) (simp add: ok_worker_def)
  next
    case (xturn_read v k cont reads)
    with assms(4) ok_view_read [OF assms(2,1)] show ?thesis
      by (intro same) (cases v, auto simp: ok_worker_def simp del: ok_prog.simps(3))
  next
    case (xturn_finish v status reads)
    with assms(4) ok_finish_transaction [OF assms(2,1)] show ?thesis
      by (intro same) (cases v, auto simp: ok_worker_def simp del: ok_prog.simps(3))
  next
    case (xturn_wake c v tree reads)
    then obtain log where g: "\<gamma> t = tok (At (Waiting v c)) (Reads log)" "reads = map fst log" "replay (txn E (fst v)) log = Some tree"
      using assms(4) by auto
    show ?thesis
      by (rule turned [OF g(1) turn_wake, of "Reads log"]) (use xturn_wake g in \<open>auto simp: ok_worker_def\<close>)
  qed
qed

end
