(* ===== verification/Parallel_Theorems.thy ===== *)
theory Parallel_Theorems
  imports Parallel_Finish
begin

text \<open>
  What the invariant of the parallel executor gives: its workers never panic
  and never get stuck, and when they have stopped the block is executed as if
  one transaction came after another.
\<close>

section \<open>The invariant of the executor\<close>

lemma mv_new_empty: "entry mv_new k j = None" "mv_wf mv_new"
  by (simp_all add: entry_def tree_of_def mv_new_def mv_wf_def)

lemma XInv_new:
  fixes E :: "('k, 'ev, 'st, 'e, 'p) BlockEnv"
  shows "XInv E n m (shared_new n) () (\<lambda>_. idle_token)"
proof -
  let ?\<gamma> = "\<lambda>_ :: nat. idle_token :: 'k xtoken"
  have "data_ok E n (txn_status (scheduler_new n)) mv_new (replicate n None) (replicate n None) {} (\<lambda>_ _. None) (\<lambda>_. Free)"
    by (simp add: data_ok_def cells_ok_def fresh_ok_def content_ok_def records_ok_def valid_ok_def marked_def keys_of_def
        scheduler_new_def mv_new_empty)
  moreover have "tok_tag \<circ> ?\<gamma> = (\<lambda>_. Free)" "map (tok_abs \<circ> ?\<gamma>) [0..<m] = replicate m (At (Holding NoTask))"
    by (auto simp: comp_def map_replicate_const)
  ultimately have "follows E n m (shared_new n) (\<lambda>_. idle_token) (executor_new n m) (\<lambda>_ _. None)"
    unfolding follows_def by (simp add: reachable_def shared_new_def last_input_output_new_def executor_new_def start_def)
  then show ?thesis unfolding XInv_def by blast
qed

lemma parallel_invariant:
  assumes "env_ok E"
  shows "worker_invariant (xturn E) m (shared_new n) () (XHolding NoTask) (XInv E n m) XW (xpt E) idle_token"
  by unfold_locales (use XInv_new xturn_keeps [OF assms] in auto)

lemma xreachable_holds:
  assumes "env_ok E" "xreachable E n m x"
  obtains \<gamma> e H where "length (workers x) = m" "follows E n m (shared x) \<gamma> e H"
    "\<And>t. t < m \<Longrightarrow> ok_worker (XInv E n m) XW (xpt E) t (workers x ! t) (\<gamma> t)"
proof -
  note inv = parallel_invariant [OF assms(1)]
  obtain \<gamma> where "worker_invariant.holds m (XInv E n m) XW (xpt E) x \<gamma>"
    using worker_invariant.holds_reachable [OF inv] assms(2) unfolding xreachable_def by blast
  then show thesis using that unfolding worker_invariant.holds_def [OF inv] XInv_def by blast
qed

section \<open>A block is executed as if one transaction came after another\<close>

primrec vm_run :: "('k \<Rightarrow> Answer) \<Rightarrow> ('k, 'ev, 'st, 'e) vm \<Rightarrow> ('k, 'ev, 'st, 'e) TxnOutput" where
  "vm_run view (Ask k c) = vm_run view (c (view k))"
| "vm_run view (Finish status) = status"

definition mv_view :: "('k, 'ev, 'st, 'e, 'p) BlockEnv \<Rightarrow> ('k, WriteOp) MVHashMap \<Rightarrow> TxnIndex \<Rightarrow> 'k \<Rightarrow> Answer" where
  "mv_view E M i k = (case capture (mv_read (codec E) extract_raw_bytes M k i) of
     Some (_, r) \<Rightarrow> get_state_value E k r | None \<Rightarrow> Panic)"

lemma replay_run: "replay tree log = Some (Finish status) \<Longrightarrow> \<forall>(r, a) \<in> set log. a = view (access_path r) \<Longrightarrow> vm_run view tree = status"
  by (induction tree log rule: replay.induct) (auto split: if_splits)

lemma valid_answer:
  assumes "cells_ok E n M H" "valid_read E M i r" "answer_ok E H r a"
  shows "a = mv_view E M i (access_path r)"
proof -
  have "H (access_path r) (j, inc) = Some w" if "mv_read (codec E) extract_raw_bytes M (access_path r) i = Ok (Version (j, inc) w)" for j inc w
    using mv_read_version [OF _ that] assms(1) by (auto simp: cells_ok_def)
  with assms(2,3) show ?thesis
    by (cases "mv_read (codec E) extract_raw_bytes M (access_path r) i" rule: capture.cases)
      (auto simp: valid_read_def mv_view_def answer_ok_def)
qed

lemma finished_block:
  assumes "env_ok E" "xreachable E n m x" "0 < m" "\<forall>w \<in> set (workers x). w = At XStopped" "i < n"
  obtains inc status where "outputs (last_io (shared x)) ! i = Some status" "full (mvmap (shared x)) inc (Some status) i"
    "status = vm_run (mv_view E (mvmap (shared x)) i) (txn E i)" "mv_wf (mvmap (shared x))"
    "length (outputs (last_io (shared x))) = n"
    "\<forall>k j. n \<le> j \<longrightarrow> entry (mvmap (shared x)) k j = None"
proof -
  obtain \<gamma> e H where len: "length (workers x) = m" and e: "follows E n m (shared x) \<gamma> e H"
    and ok: "\<And>t. t < m \<Longrightarrow> ok_worker (XInv E n m) XW (xpt E) t (workers x ! t) (\<gamma> t)"
    using xreachable_holds [OF assms(1,2)] by blast
  have tok: "\<gamma> t = tok (At Stopped) Free" if "t < m" for t
  proof -
    have "workers x ! t = At XStopped" using assms(4) that len nth_mem by blast
    with ok [OF that] show ?thesis by (simp add: ok_worker_def)
  qed
  have tags: "tok_tag (\<gamma> t) = Free" for t using tok [of t] e by (cases "t < m") (auto simp: follows_def)
  have r: "reachable n m e" "shared e = sched (shared x)" using e by (simp_all add: follows_def)
  have fin: "\<exists>inc. txn_status (sched (shared x)) ! i = Executed inc" "i \<notin> unvalidated e"
    using stopped_final [OF r(1), of 0] follows_worker [OF e assms(3)] tok [OF assms(3)] assms(5) r(2) by simp_all
  note p = data_parts [OF follows_data [OF e]]
  obtain inc where inc: "txn_status (sched (shared x)) ! i = Executed inc" using fin(1) by blast
  with p(4) assms(5) have "replays E H i (inputs (last_io (shared x)) ! i) (outputs (last_io (shared x)) ! i)" by (simp add: records_ok_def)
  then obtain log status where log: "inputs (last_io (shared x)) ! i = Some (map fst log)"
    "outputs (last_io (shared x)) ! i = Some status" "agree E H log" "replay (txn E i) log = Some (Finish status)"
    unfolding replays_def by blast
  have "a = mv_view E (mvmap (shared x)) i (access_path d)" if "(d, a) \<in> set log" for d a
  proof (rule valid_answer [OF p(1)])
    have "d \<in> set (map fst log)" using that by force
    then have "valid_read E (mvmap (shared x)) i d \<or> excused (tok_tag \<circ> \<gamma>) i \<or> (\<exists>t. awaits ((tok_tag \<circ> \<gamma>) t) (i, inc) d)"
      using p(6) assms(5) inc log(1) fin(2) unfolding valid_ok_def by blast
    then show "valid_read E (mvmap (shared x)) i d" by (simp add: excused_def tags)
  qed (use log(3) that in \<open>auto simp: agree_def\<close>)
  then have "status = vm_run (mv_view E (mvmap (shared x)) i) (txn E i)"
    using replay_run [OF log(4), of "mv_view E (mvmap (shared x)) i"] by auto
  moreover have "full (mvmap (shared x)) inc (Some status) i" using p(3) assms(5) inc log(2) unfolding content_ok_def by metis
  moreover have "\<forall>k j. n \<le> j \<longrightarrow> entry (mvmap (shared x)) k j = None"
    using p(1) by (metis cells_ok_def linorder_not_less not_None_eq)
  ultimately show thesis using that log(2) p(1,4) by (simp add: cells_ok_def records_ok_def)
qed


section \<open>Some worker can always go on\<close>

lemma xturn_enabled:
  assumes "p \<noteq> XStopped" "\<And>v c tree reads. p = XWaiting v c tree reads \<Longrightarrow> condvars (sched s) ! c"
  shows "\<exists>w. xturn E s u p w u"
proof (cases p)
  case (XHolding task)
  then show ?thesis
  proof (cases task)
    case (ExecutionTask v c guard)
    with XHolding show ?thesis by (cases c) (simp_all, (rule exI, rule xturn_execute xturn_resolve)+)
  qed (simp_all, (rule exI, rule xturn_validate xturn_next xturn_stop)+)
next
  case (XRunning v tree reads)
  then show ?thesis by (cases tree) (simp_all, (rule exI, rule xturn_read xturn_finish)+)
next
  case (XWaiting v c tree reads)
  with xturn_wake [of s c E u v tree reads] assms(2) show ?thesis by blast
qed (use assms(1) in simp)

lemma stuck_follows:
  assumes "follows E n m s \<gamma> e H" and w: "\<And>t. t < m \<Longrightarrow> tok_abs (\<gamma> t) = At Stopped \<or>
      (\<exists>v c. tok_abs (\<gamma> t) = At (Waiting v c) \<and> \<not> condvars (sched s) ! c) \<or> XW s (\<gamma> t)"
  shows "\<not> worker_step e e'"
proof
  assume "worker_step e e'"
  have abs: "workers e ! t = At Stopped \<or> (\<exists>v c. workers e ! t = At (Waiting v c) \<and> \<not> condvars (shared e) ! c) \<or>
      (\<exists>f. workers e ! t = Call (Act f) \<and> f (shared e) = None)" if "t < length (workers e)" for t
    using w [of t] that assms(1) by (simp add: follows_def XW_def)
  from \<open>worker_step e e'\<close> show False
  proof cases
    case (step_turn t p w u)
    with abs [OF step_turn(2)] step_turn(4) show False by (auto elim: turn.cases)
  next
    case (step_act t f p s)
    with abs [OF step_act(2)] show False by auto
  next
    case (step_return t p)
    with abs [OF step_return(2)] show False by auto
  qed
qed

lemma xworkers_never_stuck:
  assumes "env_ok E" "xreachable E n m x" "t < length (workers x)" "workers x ! t \<noteq> At XStopped"
  shows "\<exists>x'. system_step (xturn E) x x'"
proof (rule ccontr)
  assume stuck: "\<nexists>x'. system_step (xturn E) x x'"
  obtain \<gamma> e H where len: "length (workers x) = m" and e: "follows E n m (shared x) \<gamma> e H"
    and ok: "\<And>t. t < m \<Longrightarrow> ok_worker (XInv E n m) XW (xpt E) t (workers x ! t) (\<gamma> t)"
    using xreachable_holds [OF assms(1,2)] by blast
  have I: "XInv E n m (shared x) () \<gamma>" unfolding XInv_def using e by blast
  have cases: "workers x ! t = At XStopped \<and> tok_abs (\<gamma> t) = At Stopped \<or>
      workers x ! t \<noteq> At XStopped \<and> tok_abs (\<gamma> t) \<noteq> At Stopped \<and>
        ((\<exists>v c. tok_abs (\<gamma> t) = At (Waiting v c) \<and> \<not> condvars (sched (shared x)) ! c) \<or> XW (shared x) (\<gamma> t))"
    if t: "t < m" for t
  proof (cases "workers x ! t")
    case (At p)
    have "\<not> xturn E (shared x) (ghost x) p w' u" for w' u
      using step_turn [of t x p "xturn E" w' u] At stuck t len by blast
    with xturn_enabled [of p "shared x" E "ghost x"] have "p = XStopped \<or>
        (\<exists>v c tree reads. p = XWaiting v c tree reads \<and> \<not> condvars (sched (shared x)) ! c)" by blast
    with ok [OF t] At show ?thesis by (auto simp: ok_worker_def)
  next
    case (Call c)
    with ok [OF t] have c: "ok_prog c (XInv E n m) XW t (\<lambda>k p. xpt E p k) (\<gamma> t)" by (simp add: ok_worker_def)
    have "c \<noteq> Crash" using c by auto
    from stuck_call [OF stuck _ Call this] t len obtain f where f: "c = Act f" "f (shared x) = None" by blast
    note wait = ok_prog_wait [OF c [unfolded f(1)]]
    from wait [OF I refl f(2)] Call show ?thesis by (auto simp: XW_def)
  qed
  have "\<not> worker_step e e'" for e' by (rule stuck_follows [OF e]) (use cases in blast)
  moreover have "tok_abs (\<gamma> t) \<noteq> At Stopped" using cases [of t] assms(3,4) len by blast
  moreover have "reachable n m e" using e by (simp add: follows_def)
  then obtain \<delta> where "workers.holds m n e \<delta>"
    using workers.holds_reachable unfolding reachable_def executor_new_def by blast
  ultimately show False
    using never_stuck [of m n e \<delta> t] follows_worker [OF e, of t] assms(3) len by auto
qed


section \<open>A run of one worker\<close>

text \<open>What a worker does at a point is determined by the shared state.\<close>

fun next_turn ::
  "('k, 'ev, 'st, 'e, 'p) BlockEnv \<Rightarrow> ('k, 'ev, 'st, 'e, 'p) Shared \<Rightarrow> ('k, 'ev, 'st, 'e) xpoint \<Rightarrow>
     (('k, 'ev, 'st, 'e, 'p) Shared, ('k, 'ev, 'st, 'e) xpoint) worker option" where
  "next_turn E s (XHolding NoTask) = Some (Call (pbind (on_sched next_task_round)
     (\<lambda>r. Return (XHolding (case r of None \<Rightarrow> NoTask | Some task \<Rightarrow> task)))))"
| "next_turn E s (XHolding Done) = Some (At XStopped)"
| "next_turn E s (XHolding (ExecutionTask v None guard)) = Some (At (XRunning v (txn E (fst v)) []))"
| "next_turn E s (XHolding (ExecutionTask v (Some c) guard)) = Some (Call (pbind (on_sched (notify_resolved c)) (\<lambda>_. drop_task)))"
| "next_turn E s (XHolding (ValidationTask v guard)) = Some (Call (validate E v))"
| "next_turn E s (XRunning v (Ask k cont) reads) = Some (Call (view_read E v k cont reads))"
| "next_turn E s (XRunning v (Finish status) reads) = Some (Call (finish_transaction E v status reads))"
| "next_turn E s (XWaiting v c tree reads) = (if condvars (sched s) ! c then Some (At (XRunning v tree reads)) else None)"
| "next_turn E s XStopped = None"

lemma next_turn_xturn: "next_turn E s p = Some w \<Longrightarrow> xturn E s u p w u"
  by (cases "(E, s, p)" rule: next_turn.cases) (auto intro: xturn.intros split: if_splits)

fun drive ::
  "nat \<Rightarrow> ('k, 'ev, 'st, 'e, 'p) BlockEnv \<Rightarrow> ('k, 'ev, 'st, 'e, 'p) Shared \<Rightarrow> ('k, 'ev, 'st, 'e) xpoint \<Rightarrow>
     ('k, 'ev, 'st, 'e, 'p) Shared \<times> ('k, 'ev, 'st, 'e) xpoint" where
  "drive 0 E s p = (s, p)"
| "drive (Suc n) E s p = (case next_turn E s p of
     None \<Rightarrow> (s, p)
   | Some (At q) \<Rightarrow> drive n E s q
   | Some (Call c) \<Rightarrow> (case run c s of
       (Some (Ok q :: (unit, _) outcome), s') \<Rightarrow> drive n E s' q | _ \<Rightarrow> (s, p)))"

lemma drive_steps:
  assumes "(system_step (xturn E))\<^sup>*\<^sup>* x (solo s p ())"
  shows "case drive n E s p of (s', p') \<Rightarrow> (system_step (xturn E))\<^sup>*\<^sup>* x (solo s' p' ())"
  using assms
proof (induction n E s p rule: drive.induct)
  case (2 n E s p)
  show ?case
  proof (cases "next_turn E s p")
    case (Some w)
    note t = next_turn_xturn [OF Some, of "()"]
    show ?thesis
    proof (cases w)
      case (At q)
      with 2(1) Some solo_turn [OF 2(3), of q "()"] t show ?thesis by simp
    next
      case (Call c)
      show ?thesis
      proof (cases "run c s :: (unit, _) outcome option \<times> _")
        case (Pair r s')
        show ?thesis
        proof (cases "\<exists>q. r = Some (Ok q)")
          case True
          then obtain q where q: "r = Some (Ok q)" by blast
          with solo_call [OF 2(3), of c "()" q s'] t Call Pair 2(2) [OF Some Call] show ?thesis
            using Some by simp
        next
          case False
          with Pair Call Some 2(3) show ?thesis by (auto split: option.splits outcome.splits)
        qed
      qed
    qed
  qed (use 2(3) in simp)
qed simp

lemma drive_reachable:
  assumes "drive fuel E (shared_new n) (XHolding NoTask) = (s, p)"
  shows "xreachable E n 1 (solo s p ())"
  using drive_steps [of E "start 1 (shared_new n) () (XHolding NoTask)" "shared_new n" "XHolding NoTask" fuel] assms
  by (simp add: xreachable_def start_def)

definition sample_output :: "nat WriteSet \<Rightarrow> u128 \<Rightarrow> (nat, unit, (unit, unit) TxnStatus) TransactionOutputExt" where
  "sample_output ws v = \<lparr>oext_deltas = [(9, delta_add v 100)],
     oext_output = \<lparr>out_write_set = ws, out_events = [], out_gas_used = 1, out_status = Keep ()\<rparr>\<rparr>"

text \<open>
  A block: the first transaction writes key 7, the others read it and write
  what they see at key 8, and all of them add to the counter at key 9.
\<close>

definition sample_block :: "(nat, unit, (unit, unit) TxnStatus, unit, unit) BlockEnv" where
  "sample_block = \<lparr>codec = be_codec, base_view = (\<lambda>k. Ok (if k = 9 then Some (to_be 16 (40 :: u128)) else None)),
     module_path = (\<lambda>_. None),
     txn = (\<lambda>i. if i = 0 then Finish (Success (sample_output [(7, Creation [1])] 2))
       else Ask 7 (\<lambda>a. Finish (Success (sample_output (case a of Ok (Some b) \<Rightarrow> [(8, Modification b)] | _ \<Rightarrow> []) 3))))\<rparr>"

lemma sample_leaf:
  assumes "leaf (txn sample_block i) status"
  obtains v where "status = Success (sample_output [] v)" | v k w where "status = Success (sample_output [(k, w)] v)" "k \<noteq> 9"
proof (cases "i = 0")
  case True
  with assms show thesis by (intro that(2) [of 7 "Creation [1]" 2]) (simp_all add: sample_block_def)
next
  case False
  with assms have "\<exists>a :: Answer. status = Success (sample_output (case a of Ok (Some b) \<Rightarrow> [(8, Modification b)] | _ \<Rightarrow> []) 3)"
    by (simp add: sample_block_def)
  then obtain a :: Answer where "status = Success (sample_output (case a of Ok (Some b) \<Rightarrow> [(8, Modification b)] | _ \<Rightarrow> []) 3)" ..
  then show thesis by (cases a rule: outcome.exhaust) (auto intro: that split: option.splits)
qed

lemma sample_env: "env_ok sample_block"
  unfolding env_ok_def
proof (intro conjI allI impI)
  show "distinct (map fst (get_writes out) @ map fst (get_deltas out))"
    if "leaf (txn sample_block i) status" "output_of status = Some out" for i status out
    by (rule sample_leaf [OF that(1)]) (use that(2) in \<open>auto simp: sample_output_def get_writes_def get_deltas_def\<close>)
qed (auto simp: sample_block_def decodes_def be_codec_def)

lemma sample_run:
  "case drive 40 sample_block (shared_new 2) (XHolding NoTask) of (s, p) \<Rightarrow> (case p of XStopped \<Rightarrow> True | _ \<Rightarrow> False) \<and>
     outputs (last_io s) = [Some (Success (sample_output [(7, Creation [1])] 2)), Some (Success (sample_output [(8, Modification [1])] 3))]"
  by code_simp


section \<open>Theorems\<close>

lemma sample_reachable:
  "\<exists>s. xreachable sample_block 2 1 (solo s XStopped ()) \<and> outputs (last_io s) =
     [Some (Success (sample_output [(7, Creation [1])] 2)), Some (Success (sample_output [(8, Modification [1])] 3))]"
proof (cases "drive 40 sample_block (shared_new 2) (XHolding NoTask)")
  case (Pair s p)
  have p: "p = XStopped" and out: "outputs (last_io s) =
     [Some (Success (sample_output [(7, Creation [1])] 2)), Some (Success (sample_output [(8, Modification [1])] 3))]"
    using sample_run unfolding Pair prod.case by (simp_all split: xpoint.splits)
  have "xreachable sample_block 2 1 (solo s p ())"
    by (rule drive_reachable [where fuel = 40]) (rule Pair)
  then have "xreachable sample_block 2 1 (solo s XStopped ())" unfolding p .
  then show ?thesis using out by (intro exI [of _ s] conjI)
qed

text \<open>C2. The parallel executor is serializable: when its workers have stopped, the recorded output of
  every transaction is what the virtual machine computes on the view of the final multi-version map
  below that transaction, and the entries of the transaction in that map are the writes and deltas of
  this output, all of them and no others.  So the outputs are those of an execution of one transaction
  after another in the order of the block, whatever was executed speculatively, aborted and repeated,
  however the accesses of the workers interleaved.\<close>

theorem parallel_serializable:
  assumes "env_ok E" "xreachable E n m x" "0 < m" "\<forall>w \<in> set (workers x). w = At XStopped" "i < n"
  shows "\<exists>inc status. outputs (last_io (shared x)) ! i = Some status \<and>
    status = vm_run (mv_view E (mvmap (shared x)) i) (txn E i) \<and>
    (\<forall>k. entry (mvmap (shared x)) k i = entry_from inc (Some status) k)"
proof -
  obtain inc status where "outputs (last_io (shared x)) ! i = Some status" "full (mvmap (shared x)) inc (Some status) i"
    "status = vm_run (mv_view E (mvmap (shared x)) i) (txn E i)"
    by (rule finished_block [OF assms])
  then show ?thesis unfolding full_def by (intro exI conjI)
qed

theorem parallel_serializable_witness:
  "\<exists>s inc. xreachable sample_block 2 1 (solo s XStopped ()) \<and>
    vm_run (mv_view sample_block (mvmap s) 1) (txn sample_block 1) = Success (sample_output [(8, Modification [1])] 3) \<and>
    entry (mvmap s) 8 1 = Some (new_write_from FLAG_DONE inc (Modification [1]))"
proof -
  obtain s where s: "xreachable sample_block 2 1 (solo s XStopped ())"
    "outputs (last_io s) = [Some (Success (sample_output [(7, Creation [1])] 2)), Some (Success (sample_output [(8, Modification [1])] 3))]"
    using sample_reachable by (elim exE conjE)
  have "\<exists>inc status. outputs (last_io s) ! 1 = Some status \<and> status = vm_run (mv_view sample_block (mvmap s) 1) (txn sample_block 1) \<and>
      (\<forall>k. entry (mvmap s) k 1 = entry_from inc (Some status) k)"
    using parallel_serializable [OF sample_env s(1), of 1] by simp
  then obtain inc status where i: "outputs (last_io s) ! 1 = Some status"
    "status = vm_run (mv_view sample_block (mvmap s) 1) (txn sample_block 1)"
    "\<forall>k. entry (mvmap s) k 1 = entry_from inc (Some status) k" by (elim exE conjE)
  have status: "status = Success (sample_output [(8, Modification [1])] 3)" using i(1) s(2) by simp
  have "entry (mvmap s) 8 1 = Some (new_write_from FLAG_DONE inc (Modification [1]))"
    using i(3) unfolding status by (simp add: entry_from_def sample_output_def get_writes_def get_deltas_def)
  with s(1) i(2) status show ?thesis by (intro exI [of _ s] exI [of _ inc] conjI) (simp_all only:)
qed

text \<open>C3. No worker of the parallel executor panics: the map never refuses a write of an incarnation, never
  misses an entry to mark or to delete and never meets bytes that do not decode, a validation always finds
  the recorded reads, and no assertion of the scheduler fails, on every interleaving.  What this needs of
  the block: an output names each key once, and what is stored at an aggregator is an encoded integer.\<close>

theorem parallel_workers_never_panic:
  assumes "env_ok E" "xreachable E n m x" "t < length (workers x)"
  shows "workers x ! t \<noteq> Call Crash"
  using worker_invariant.no_crash [OF parallel_invariant [OF assms(1)]] assms(2,3) unfolding xreachable_def by blast

theorem parallel_workers_never_panic_witness:
  "\<exists>s. xreachable sample_block 2 1 (solo s XStopped ()) \<and> workers (solo s XStopped ()) ! 0 \<noteq> Call Crash"
proof -
  obtain s where s: "xreachable sample_block 2 1 (solo s XStopped ())" using sample_reachable by (elim exE conjE)
  from parallel_workers_never_panic [OF sample_env s, of 0] s show ?thesis by (intro exI [of _ s] conjI) simp_all
qed

text \<open>C4. The parallel executor never gets stuck: unless all workers have stopped, some worker can take a step,
  although workers wait for dependencies, on condition variables and on mutexes.\<close>

theorem parallel_workers_never_stuck:
  assumes "env_ok E" "xreachable E n m x" "t < length (workers x)" "workers x ! t \<noteq> At XStopped"
  shows "\<exists>x'. system_step (xturn E) x x'"
  by (rule xworkers_never_stuck [OF assms])

theorem parallel_workers_never_stuck_witness:
  "\<exists>x'. system_step (xturn sample_block) (start 3 (shared_new 5) () (XHolding NoTask)) x'"
  by (rule parallel_workers_never_stuck [OF sample_env, of 5 3 _ 0]) (simp_all add: xreachable_def start_def)

end
