(* ===== verification/Block_Views.thy ===== *)
theory Block_Views
  imports Block_Executor
begin

text \<open>
  The view of a transaction on the final multi-version map is the view of the
  sequential executor at this transaction: the entries of the lower
  transactions, deltas applied one after another, are the writes the
  sequential executor has stored.
\<close>

section \<open>What the block is\<close>

text \<open>
  What is expected of the transactions: a result is classified by its events, a
  discarded output has no deltas, and the deltas of one key have one limit and
  bounds that their history respects.
\<close>

definition outputs_of :: "('k, 'ev, 'st, 'e, 'p) BlockEnv \<Rightarrow> TxnIndex \<Rightarrow> ('k, 'ev, 'st) AptosTransactionOutput set" where
  "outputs_of E i = {out. \<exists>status. leaf (txn E i) status \<and> output_of status = Some out}"

definition block_ok ::
  "('k, 'ev, ('c, 's) TxnStatus, 'e, 'p) BlockEnv \<Rightarrow> ('ev \<Rightarrow> bool) \<Rightarrow> ('k \<Rightarrow> u128) \<Rightarrow> bool" where
  "block_ok E new_epoch limit \<longleftrightarrow> env_ok E \<and> codec_ok (codec E) \<and>
     (\<forall>i status out. leaf (txn E i) status \<longrightarrow> output_of status = Some out \<longrightarrow> status = classify new_epoch out) \<and>
     (\<forall>i. \<forall>out \<in> outputs_of E i. (is_discarded (out_status (oext_output out)) \<longrightarrow> get_deltas out = []) \<and>
        (\<forall>(k, d) \<in> set (get_deltas out). delta_wf d \<and> dop_limit d = limit k))"

lemma leaf_run: "leaf tree (vm_run view tree)"
  by (induction tree) auto

text \<open>The final map of a block: the outputs of all transactions, each on its view of the map.\<close>

definition final_map ::
  "('k, 'ev, 'st, 'e, 'p) BlockEnv \<Rightarrow> nat \<Rightarrow> ('k, WriteOp) MVHashMap \<Rightarrow> (TxnIndex \<Rightarrow> ('k, 'ev, 'st, 'e) TxnOutput) \<Rightarrow> bool" where
  "final_map E n M st \<longleftrightarrow> mv_wf M \<and> (\<forall>k j. n \<le> j \<longrightarrow> entry M k j = None) \<and>
     (\<forall>i < n. st i = vm_run (mv_view E M i) (txn E i) \<and> (\<exists>inc. \<forall>k. entry M k i = entry_from inc (Some (st i)) k))"

lemma below_Suc:
  assumes "mv_wf M"
  shows "below M k (Suc i) = (case entry M k i of None \<Rightarrow> below M k i | Some e \<Rightarrow> (i, e) # below M k i)"
  unfolding below_entry [OF assms] by (simp split: option.split)

lemma final_output:
  assumes "final_map E n M st" "i < n" "output_of (st i) = Some out"
  shows "out \<in> outputs_of E i"
  using assms leaf_run [of "txn E i"] unfolding final_map_def outputs_of_def by auto

lemma block_deltas:
  assumes "block_ok E new_epoch limit" "out \<in> outputs_of E i" "(k, d) \<in> set (get_deltas out)"
  shows "delta_wf d" "dop_limit d = limit k" "counter E k"
proof -
  have "\<forall>(k, d) \<in> set (get_deltas out). delta_wf d \<and> dop_limit d = limit k"
    using assms(1,2) unfolding block_ok_def by blast
  with assms(3) show "delta_wf d" "dop_limit d = limit k" by auto
  have "k \<in> fst ` set (get_deltas out)" using assms(3) by force
  with assms(2) show "counter E k" unfolding counter_def outputs_of_def by blast
qed

lemma block_output:
  assumes "block_ok E new_epoch limit" "out \<in> outputs_of E i"
  shows "distinct (map fst (get_writes out) @ map fst (get_deltas out))"
    "(k, w) \<in> set (get_writes out) \<Longrightarrow> counter E k \<Longrightarrow> decodes E (extract_raw_bytes w)"
proof -
  obtain status where l: "leaf (txn E i) status" "output_of status = Some out"
    using assms(2) unfolding outputs_of_def by blast
  have e: "env_ok E" using assms(1) unfolding block_ok_def by (rule conjunct1)
  then have "distinct (map fst (get_writes out) @ map fst (get_deltas out)) \<and>
      (\<forall>k w. (k, w) \<in> set (get_writes out) \<longrightarrow> counter E k \<longrightarrow> decodes E (extract_raw_bytes w))"
    unfolding env_ok_def using l by blast
  then show "distinct (map fst (get_writes out) @ map fst (get_deltas out))"
    "(k, w) \<in> set (get_writes out) \<Longrightarrow> counter E k \<Longrightarrow> decodes E (extract_raw_bytes w)" by blast+
qed

lemma final_entry:
  assumes "block_ok E new_epoch limit" "final_map E n M st" "entry M k i = Some e"
  shows "i < n \<and> entry_flag e = FLAG_DONE \<and> (\<exists>out. output_of (st i) = Some out \<and> (case entry_cell e of
     Cell_Write _ w \<Rightarrow> map_of (get_writes out) k = Some w \<and> map_of (get_deltas out) k = None \<and>
       (counter E k \<longrightarrow> decodes E (extract_raw_bytes w))
   | Cell_Delta d \<Rightarrow> map_of (get_deltas out) k = Some d \<and> map_of (get_writes out) k = None \<and>
       counter E k \<and> delta_wf d \<and> dop_limit d = limit k))"
proof -
  have i: "i < n" using assms(2,3) unfolding final_map_def by (metis linorder_not_less option.distinct(1))
  with assms(2) obtain inc where e: "entry M k i = entry_from inc (Some (st i)) k" unfolding final_map_def by blast
  with assms(3) obtain out where out: "output_of (st i) = Some out"
    by (cases "output_of (st i)") (auto simp: entry_from_def)
  have o: "out \<in> outputs_of E i" by (rule final_output [OF assms(2) i out])
  note env = block_output [OF assms(1) o]
  show ?thesis
  proof (cases "map_of (get_deltas out) k")
    case None
    with e assms(3) out obtain w where w: "map_of (get_writes out) k = Some w" "e = new_write_from FLAG_DONE inc w"
      by (cases "map_of (get_writes out) k") (auto simp: entry_from_def)
    with env(2) [OF map_of_SomeD] None i out show ?thesis by (simp add: new_write_from_def)
  next
    case (Some d)
    then have "k \<notin> fst ` set (get_writes out)" using env(1) map_of_SomeD [OF Some] by force
    then have "map_of (get_writes out) k = None" by (simp add: map_of_eq_None_iff)
    with e assms(3) out Some block_deltas [OF assms(1) o map_of_SomeD [OF Some]] i show ?thesis
      by (auto simp: entry_from_def new_delta_from_def)
  qed
qed

lemma final_no_entry:
  assumes "final_map E n M st" "i < n" "entry M k i = None" "output_of (st i) = Some out"
  shows "map_of (get_writes out) k = None" "map_of (get_deltas out) k = None"
  using assms unfolding final_map_def
  by (auto simp: entry_from_def split: option.splits dest!: spec [of _ i] spec [of _ k])

section \<open>What the entries leave at a key\<close>

definition base_value :: "('k, 'ev, 'st, 'e, 'p) BlockEnv \<Rightarrow> 'k \<Rightarrow> u128 option" where
  "base_value E k = (case base_view E k of Ok (Some bytes) \<Rightarrow> from_bytes (codec E) bytes | _ \<Rightarrow> None)"

definition counter_value :: "('k, 'ev, 'st, 'e, 'p) BlockEnv \<Rightarrow> ('k, WriteOp) MVHashMap \<Rightarrow> 'k \<Rightarrow> TxnIndex \<Rightarrow> u128 option" where
  "counter_value E M k i = seq_value (codec E) extract_raw_bytes (below M k i) (base_value E k)"

text \<open>The write operation that stands for the entries below a transaction.\<close>

definition overlay :: "('k, 'ev, 'st, 'e, 'p) BlockEnv \<Rightarrow> ('k, WriteOp) MVHashMap \<Rightarrow> 'k \<Rightarrow> TxnIndex \<Rightarrow> WriteOp option" where
  "overlay E M k i = (case below M k i of
     [] \<Rightarrow> None
   | (_, e) # _ \<Rightarrow> (case entry_cell e of
       Cell_Write _ w \<Rightarrow> Some w
     | Cell_Delta _ \<Rightarrow> map_option (\<lambda>v. Modification (to_bytes (codec E) v)) (counter_value E M k i)))"

definition synced :: "('k, 'ev, 'st, 'e, 'p) BlockEnv \<Rightarrow> ('k, WriteOp) MVHashMap \<Rightarrow> TxnIndex \<Rightarrow> ('k \<rightharpoonup> WriteOp) \<Rightarrow> bool" where
  "synced E M i data_map \<longleftrightarrow> (\<forall>k. data_map k = overlay E M k i \<and> (data_map k = None \<longrightarrow> below M k i = []))"

lemma final_entries_ok:
  assumes "block_ok E new_epoch limit" "final_map E n M st" "counter E k"
  shows "\<forall>(j, e) \<in> set (below M k i). entry_ok (codec E) extract_raw_bytes (limit k) e"
proof safe
  fix j e assume "(j, e) \<in> set (below M k i)"
  then have "entry M k j = Some e"
    using assms(2) in_below [of M j e k i] unfolding final_map_def by blast
  from final_entry [OF assms(1,2) this] assms(3) show "entry_ok (codec E) extract_raw_bytes (limit k) e"
    by (auto simp: entry_ok_def decodes_def FLAG_DONE_def FLAG_ESTIMATE_def split: EntryCell.splits)
qed

text \<open>A read of a counter that the sequential execution can compute.\<close>

lemma view_of_counter:
  assumes "reads_as extract_raw_bytes f (mv_read (codec E) extract_raw_bytes M k i)" "f (base_value E k) = Some r"
  shows "mv_view E M i k = Ok (Some (to_bytes (codec E) r))"
  using assms
proof (cases "mv_read (codec E) extract_raw_bytes M k i" rule: capture.cases)
  case (4 d)
  with assms obtain b where b: "base_value E k = Some b" "ok (apply_to d b) = Some r"
    by (cases "base_value E k") auto
  from b(1) obtain bytes where "base_view E k = Ok (Some bytes)" "from_bytes (codec E) bytes = Some b"
    by (auto simp: base_value_def split: outcome.splits option.splits)
  with 4 b(2) show ?thesis
    by (cases "apply_to d b") (simp_all add: mv_view_def get_state_value_def deserialize_def)
qed (auto simp: mv_view_def get_state_value_def)

lemma synced_view:
  assumes ok: "block_ok E new_epoch limit" "final_map E n M st" and "synced E M i data_map"
  shows "mv_view E M i = btree_view E data_map"
proof
  fix k
  let ?B = "codec E"
  have wf: "mv_wf M" using ok(2) unfolding final_map_def by blast
  have dm: "data_map k = overlay E M k i" "data_map k = None \<longrightarrow> below M k i = []"
    using assms(3) unfolding synced_def by blast+
  show "mv_view E M i k = btree_view E data_map k"
  proof (cases "below M k i")
    case Nil
    with dm(1) show ?thesis by (simp add: overlay_def btree_view_def mv_view_def mv_read_below get_state_value_def)
  next
    case (Cons x rest)
    obtain j e where x: "x = (j, e)" by fastforce
    with Cons have "entry M k j = Some e" using in_below [OF wf, of j e k i] by simp
    note e = final_entry [OF ok this]
    then have flag: "entry_flag e \<noteq> FLAG_ESTIMATE" by (simp add: FLAG_DONE_def FLAG_ESTIMATE_def)
    show ?thesis
    proof (cases "entry_cell e")
      case (Cell_Write inc w)
      with dm(1) Cons x flag show ?thesis
        by (simp add: overlay_def btree_view_def mv_view_def mv_read_below get_state_value_def)
    next
      case (Cell_Delta d)
      with e have d: "delta_wf d" "dop_limit d = limit k" "counter E k" by auto
      have "\<forall>(j, e) \<in> set rest. entry_ok ?B extract_raw_bytes (limit k) e"
        using final_entries_ok [OF ok d(3), of i] Cons by simp
      moreover have "seq_value ?B extract_raw_bytes ((j, e) # rest) =
          (\<lambda>b. Option.bind (seq_value ?B extract_raw_bytes rest b) (\<lambda>v. ok (apply_to d v)))"
        using Cell_Delta by auto
      ultimately have reads: "reads_as extract_raw_bytes (seq_value ?B extract_raw_bytes (below M k i)) (mv_read ?B extract_raw_bytes M k i)"
        using read_loop_accumulated [of rest, OF _ d(1,2)] Cons x Cell_Delta flag by (simp add: mv_read_below)
      obtain r where r: "counter_value E M k i = Some r" "data_map k = Some (Modification (to_bytes ?B r))"
        using dm Cons x Cell_Delta by (cases "counter_value E M k i") (auto simp: overlay_def)
      from view_of_counter [OF reads] r show ?thesis by (simp add: counter_value_def btree_view_def)
    qed
  qed
qed

section \<open>Materialising the deltas of one transaction\<close>

lemma update_fresh: "k \<notin> fst ` set ws \<Longrightarrow> AList.update k w ws = ws @ [(k, w)]"
  by (induction ws) auto

lemma squash_fresh:
  "distinct (map fst (ws @ other)) \<Longrightarrow> write_set_squash ws other = Ok (ws @ other)"
proof (induction other arbitrary: ws)
  case (Cons p other)
  obtain k w where p: "p = (k, w)" by fastforce
  with Cons.prems have k: "k \<notin> fst ` set ws" "map_of ws k = None" by (auto simp: map_of_eq_None_iff)
  from Cons.IH [of "ws @ [p]"] Cons.prems k show ?case by (simp add: p update_fresh)
qed simp

lemma try_into_write_op_eq_Ok:
  "try_into_write_op B view d k = Ok w \<longleftrightarrow> (\<exists>bytes v r. view k = Ok (Some bytes) \<and> from_bytes B bytes = Some v \<and>
     apply_to d v = Ok r \<and> w = Modification (to_bytes B r))"
  by (auto simp: try_into_write_op_def deserialize_def outcome_simps split: option.splits)

lemma try_into_write_set_mut_Ok:
  "try_into_write_set_mut B view ds = Ok ws \<Longrightarrow> map fst ws = map fst ds \<and>
     (\<forall>k. map_of ws k = Option.bind (map_of ds k) (\<lambda>d. ok (try_into_write_op B view d k)))"
  by (induction ds arbitrary: ws) (auto simp: outcome_simps)

text \<open>The output of a transaction with its deltas materialised on a view.\<close>

lemma materialized_output:
  assumes "block_ok E new_epoch limit" "out \<in> outputs_of E i"
    and "into_transaction_output (codec E) is_discarded view out = (Ok m :: ('x, _) outcome)"
  shows "\<exists>ws. m = (oext_output out)\<lparr>out_write_set := get_writes out @ ws\<rparr> \<and> map fst ws = map fst (get_deltas out) \<and>
    (\<forall>k. map_of ws k = Option.bind (map_of (get_deltas out) k) (\<lambda>d. ok (try_into_write_op (codec E) view d k)))"
proof (cases "oext_deltas out = []")
  case True
  with assms(3) show ?thesis
    by (intro exI [of _ "[]"]) (simp add: into_transaction_output_def get_writes_def get_deltas_def)
next
  case False
  with assms(1,2) have "\<not> is_discarded (out_status (oext_output out))" unfolding block_ok_def get_deltas_def by blast
  with False assms(3) obtain ws where ws: "try_into_write_set_mut (codec E) view (get_deltas out) = Ok ws"
      "merge_delta_writes (oext_output out) ws = (Ok m :: ('x, _) outcome)"
    by (auto simp: into_transaction_output_def get_deltas_def split: outcome.splits)
  note w = try_into_write_set_mut_Ok [OF ws(1)]
  have "distinct (map fst (get_writes out @ ws))" using block_output(1) [OF assms(1,2)] w by simp
  from squash_fresh [OF this] ws(2) have "m = (oext_output out)\<lparr>out_write_set := get_writes out @ ws\<rparr>"
    by (simp add: merge_delta_writes_def get_writes_def)
  with w show ?thesis by blast
qed

section \<open>One transaction after another\<close>

text \<open>
  The data map of the sequential executor after a transaction, and after the
  first transactions of a block; a panic where a delta cannot be materialised.
\<close>

definition commit ::
  "('k, 'ev, ('c, 's) TxnStatus, 'e, 'p) BlockEnv \<Rightarrow> ('k \<rightharpoonup> WriteOp) \<Rightarrow> TxnIndex \<Rightarrow> (unit, 'k \<rightharpoonup> WriteOp) outcome" where
  "commit E data_map i = (case output_of (vm_run (btree_view E data_map) (txn E i)) of
     None \<Rightarrow> Ok data_map
   | Some out \<Rightarrow> bind (into_transaction_output (codec E) is_discarded (btree_view E data_map) out) (\<lambda>m.
       Ok (insert_writes (out_write_set m) data_map)))"

fun data_map_at :: "('k, 'ev, ('c, 's) TxnStatus, 'e, 'p) BlockEnv \<Rightarrow> nat \<Rightarrow> (unit, 'k \<rightharpoonup> WriteOp) outcome" where
  "data_map_at E 0 = Ok Map.empty"
| "data_map_at E (Suc i) = bind (data_map_at E i) (\<lambda>data_map. commit E data_map i)"

lemma insert_writes_map_of: "distinct (map fst ws) \<Longrightarrow> insert_writes ws data_map = data_map ++ map_of ws"
proof (induction ws data_map rule: insert_writes.induct)
  case (2 ap write_op ws data_map)
  then have "map_of ws ap = None" by (simp add: map_of_eq_None_iff)
  moreover have "insert_writes ws (data_map(ap \<mapsto> write_op)) = data_map(ap \<mapsto> write_op) ++ map_of ws"
    by (rule 2) (use 2(2) in simp)
  ultimately show ?case unfolding insert_writes.simps by (auto simp: fun_eq_iff map_add_def split: option.split)
qed simp

lemma no_entry_Suc:
  assumes "mv_wf M" "entry M k i = None"
  shows "below M k (Suc i) = below M k i" "overlay E M k (Suc i) = overlay E M k i"
proof -
  show b: "below M k (Suc i) = below M k i" using assms by (simp add: below_Suc)
  show "overlay E M k (Suc i) = overlay E M k i" unfolding overlay_def counter_value_def b ..
qed

lemma counter_value_Suc:
  assumes "mv_wf M" "entry M k i = Some e" "entry_cell e = Cell_Delta d"
  shows "counter_value E M k (Suc i) = Option.bind (counter_value E M k i) (\<lambda>v. ok (apply_to d v))"
  using assms by (simp add: counter_value_def below_Suc)

text \<open>The value of a counter in the data map is the one the entries leave.\<close>

lemma synced_counter:
  assumes ok: "block_ok E new_epoch limit" "final_map E n M st" and "synced E M i data_map" "counter E k"
    and view: "btree_view E data_map k = Ok (Some bytes)" "from_bytes (codec E) bytes = Some v"
  shows "counter_value E M k i = Some v"
proof (cases "below M k i")
  case Nil
  with assms(3) have "data_map k = None" unfolding synced_def overlay_def by simp
  with Nil view show ?thesis by (simp add: counter_value_def base_value_def btree_view_def)
next
  case (Cons x rest)
  obtain j e where x: "x = (j, e)" by fastforce
  have dm: "data_map k = overlay E M k i" "data_map k \<noteq> None" using assms(3) Cons unfolding synced_def by (blast, metis list.distinct(1))
  show ?thesis
  proof (cases "entry_cell e")
    case (Cell_Write inc w)
    with dm Cons x view show ?thesis by (simp add: overlay_def btree_view_def counter_value_def)
  next
    case (Cell_Delta d)
    with dm Cons x obtain r where r: "counter_value E M k i = Some r" "data_map k = Some (Modification (to_bytes (codec E) r))"
      by (cases "counter_value E M k i") (auto simp: overlay_def)
    have "from_bytes (codec E) (to_bytes (codec E) r) = Some r" using ok(1) unfolding block_ok_def codec_ok_def by blast
    with r view show ?thesis by (auto simp: btree_view_def)
  qed
qed

lemma synced_delta:
  assumes ok: "block_ok E new_epoch limit" "final_map E n M st" and s: "synced E M i data_map"
    and e: "entry M k i = Some e" "entry_cell e = Cell_Delta d"
    and w: "try_into_write_op (codec E) (btree_view E data_map) d k = Ok w"
  obtains r where "counter_value E M k (Suc i) = Some r" "w = Modification (to_bytes (codec E) r)" "overlay E M k (Suc i) = Some w"
proof -
  have wf: "mv_wf M" using ok(2) unfolding final_map_def by blast
  have c: "counter E k" using final_entry [OF ok e(1)] e(2) by auto
  from w obtain bytes v r where r: "btree_view E data_map k = Ok (Some bytes)" "from_bytes (codec E) bytes = Some v"
      "apply_to d v = Ok r" "w = Modification (to_bytes (codec E) r)"
    unfolding try_into_write_op_eq_Ok by blast
  have "counter_value E M k (Suc i) = Some r"
    using counter_value_Suc [OF wf e, of E] synced_counter [OF ok s c r(1,2)] r(3) by simp
  with that r(4) e wf show thesis by (simp add: overlay_def below_Suc)
qed

lemma synced_step:
  assumes ok: "block_ok E new_epoch limit" "final_map E n M st" and s: "synced E M i data_map" and "i < n"
    and c: "commit E data_map i = Ok data_map'"
  shows "synced E M (Suc i) data_map'"
proof -
  have wf: "mv_wf M" using ok(2) unfolding final_map_def by blast
  have st: "st i = vm_run (btree_view E data_map) (txn E i)"
    using ok(2) assms(4) synced_view [OF ok s] unfolding final_map_def by simp
  have old: "data_map k = overlay E M k i" "data_map k = None \<longrightarrow> below M k i = []" for k
    using s unfolding synced_def by blast+
  show ?thesis
  proof (cases "output_of (st i)")
    case None
    then have "entry M k i = None" for k
      using final_entry [OF ok, of k i] by (cases "entry M k i") auto
    with None c st s wf show ?thesis by (auto simp: commit_def synced_def no_entry_Suc)
  next
    case (Some out)
    have o: "out \<in> outputs_of E i" by (rule final_output [OF ok(2) assms(4) Some])
    from c Some st obtain m where m: "into_transaction_output (codec E) is_discarded (btree_view E data_map) out = (Ok m :: (unit, _) outcome)"
      "data_map' = insert_writes (out_write_set m) data_map" by (auto simp: commit_def outcome_simps)
    from materialized_output [OF ok(1) o m(1)] obtain ws where
      ws: "out_write_set m = get_writes out @ ws" "map fst ws = map fst (get_deltas out)"
        "\<And>k. map_of ws k = Option.bind (map_of (get_deltas out) k) (\<lambda>d. ok (try_into_write_op (codec E) (btree_view E data_map) d k))"
      by auto
    have "distinct (map fst (out_write_set m))" using block_output(1) [OF ok(1) o] ws(1,2) by simp
    then have new: "data_map' = data_map ++ map_of (get_writes out @ ws)"
      using m(2) ws(1) by (simp add: insert_writes_map_of)
    have "data_map' k = overlay E M k (Suc i) \<and> (data_map' k = None \<longrightarrow> below M k (Suc i) = [])" for k
    proof (cases "entry M k i")
      case None
      with final_no_entry [OF ok(2) assms(4) None Some] ws(3) [of k] old [of k] wf show ?thesis
        by (simp add: new map_add_def no_entry_Suc)
    next
      case e: (Some e)
      note fe = final_entry [OF ok e]
      show ?thesis
      proof (cases "entry_cell e")
        case (Cell_Write inc w)
        with fe Some ws(3) [of k] wf e show ?thesis by (auto simp: new map_add_def overlay_def below_Suc)
      next
        case (Cell_Delta d)
        with fe Some have d: "map_of (get_deltas out) k = Some d" "map_of (get_writes out) k = None" by auto
        have "k \<in> fst ` set (get_deltas out)" using map_of_SomeD [OF d(1)] by force
        then have "map_of ws k \<noteq> None" using arg_cong [OF ws(2), of set] by (simp add: map_of_eq_None_iff)
        with ws(3) [of k] d(1) obtain w where w: "try_into_write_op (codec E) (btree_view E data_map) d k = Ok w" "map_of ws k = Some w"
          by (cases "try_into_write_op (codec E) (btree_view E data_map) d k") auto
        from synced_delta [OF ok s e Cell_Delta w(1)] have "overlay E M k (Suc i) = Some w" by blast
        with w(2) d(2) show ?thesis by (simp add: new map_add_def)
      qed
    qed
    then show ?thesis unfolding synced_def by blast
  qed
qed

lemma synced_data_map:
  assumes "block_ok E new_epoch limit" "final_map E n M st" "i \<le> n" "data_map_at E i = Ok data_map"
  shows "synced E M i data_map"
  using assms(3,4)
proof (induction i arbitrary: data_map)
  case 0
  have "below M k 0 = []" for k by (simp add: below_def)
  moreover have "data_map = Map.empty" using 0 by simp
  ultimately show ?case by (simp add: synced_def overlay_def)
next
  case (Suc i)
  then obtain before where "data_map_at E i = Ok before" "commit E before i = Ok data_map" by (auto simp: outcome_simps)
  with Suc synced_step [OF assms(1,2)] show ?case by (meson Suc_leD Suc_le_lessD)
qed

end
