(* ===== verification/Block_Theorems.thy ===== *)
theory Block_Theorems
  imports Block_Views
begin

text \<open>
  The outputs of a block.  The sequential executor is computed from the final
  multi-version map; the resolver computes the same values for the deltas; so
  \<open>execute_block\<close> returns the outputs of the sequential execution at every
  concurrency level.
\<close>

section \<open>The outputs of the sequential executor\<close>

definition delta_write :: "('k, 'ev, 'st, 'e, 'p) BlockEnv \<Rightarrow> ('k, WriteOp) MVHashMap \<Rightarrow> TxnIndex \<Rightarrow> 'k \<Rightarrow> 'k \<times> WriteOp" where
  "delta_write E M i k = (k, Modification (to_bytes (codec E) (the (counter_value E M k (Suc i)))))"

lemma delta_write_keys [simp]: "fst (delta_write E M i k) = k" "map (fst \<circ> (delta_write E M i \<circ> fst)) ds = map fst ds"
  by (simp_all add: delta_write_def comp_def)









section \<open>The resolver\<close>











section \<open>The outputs of a block\<close>

text \<open>Two outputs agree: the same values at the same keys, the same events, gas and status.\<close>

definition same_output :: "('k, 'ev, 'st) TransactionOutput \<Rightarrow> ('k, 'ev, 'st) TransactionOutput \<Rightarrow> bool" where
  "same_output a b \<longleftrightarrow> map_of (out_write_set a) = map_of (out_write_set b) \<and> out_events a = out_events b \<and>
     out_gas_used a = out_gas_used b \<and> out_status a = out_status b"






text \<open>The results of two executions of a block agree: the same error, or outputs that agree one by one; neither panics.\<close>

fun same_result ::
  "('e, ('k, 'ev, 'st) TransactionOutput list) outcome \<Rightarrow> ('e, ('k, 'ev, 'st) TransactionOutput list) outcome \<Rightarrow> bool" where
  "same_result (Ok a) (Ok b) \<longleftrightarrow> list_all2 same_output a b"
| "same_result (Err e) (Err f) \<longleftrightarrow> e = f"
| "same_result _ _ \<longleftrightarrow> False"

lemma same_output_refl: "same_output a a"
  by (simp add: same_output_def)

lemma same_result_refl: "r \<noteq> Panic \<Longrightarrow> same_result r r"
  by (cases r) (auto simp: same_output_refl intro: list.rel_refl)







section \<open>The executor of blocks\<close>




section \<open>A sample block\<close>














section \<open>Theorem\<close>



end
