(* ===== verification/Spec2Isabelle.thy ===== *)
theory Spec2Isabelle
  imports Interp_Wp Aggregator Block_Theorems
begin

text \<open>
  A verification development of the execution engine of the node: the parallel
  executor of blocks of transactions, under \<open>src/aptos-move\<close>, and the
  interpreter of the Ethereum virtual machine, under \<open>src/cfx-evm\<close>.

  \<^bold>\<open>The program.\<close>  \<open>execute_block\<close> runs a block of transactions, one after
  another or by several workers at once.  The workers take tasks from a
  scheduler, execute transactions speculatively on a map that keeps a value per
  transaction for every key, record what was read, and validate it again when
  lower transactions have changed.  Counters are changed by deltas, which are
  merged while their base value is unknown and resolved when the block is
  finished.  The result is to be that of the sequential execution.  The
  interpreter executes the code of a contract instruction by instruction; a
  gasometer prices each instruction and its memory before it is executed.

  \<^bold>\<open>Foundations.\<close>
  \<^item> \<open>Prelude\<close>: machine types, the outcome of a Rust function (\<open>Ok\<close>, \<open>Err\<close>, and
    \<open>Panic\<close> for every failing assertion, index, \<open>unwrap\<close> or checked operation),
    operations on a state, their weakest preconditions, checked arithmetic,
    bytes and words.
  \<^item> \<open>Interleaving\<close>: programs of atomic actions, their interleavings as a step
    relation, and the locale \<open>worker_invariant\<close> that turns a proof of each
    worker against an invariant into safety and progress of all of them.

  \<^bold>\<open>The block executor.\<close>  Files are relative to \<open>src/aptos-move\<close>.
  \<^item> \<open>Delta_Op\<close> (\<open>aptos-aggregator/src/delta_change_set.rs\<close>): deltas with their
    histories.  Merging composes their actions.
  \<^item> \<open>Aggregator\<close> (\<open>aggregator_extension.rs\<close> and the natives in
    \<open>framework/src/natives/aggregator_natives\<close>): the counters of a transaction.
    The delta recorded acts as the operations one by one.
  \<^item> \<open>Change_Set\<close> (\<open>src/types/src/write_set.rs\<close>, \<open>transaction/change_set.rs\<close>,
    \<open>aptos-aggregator/src/transaction.rs\<close>): squashing of change sets is
    composition; deltas of an output are materialised with the same effect.
  \<^item> \<open>Mv_Hashmap\<close> (\<open>mvhashmap/src/lib.rs\<close>): the multi-version map, an association
    list of ordered entries per key.  A read is the sequential execution of
    the entries below the reader; writers disturb nobody below them.
  \<^item> \<open>Scheduler\<close> (\<open>block-executor/src/scheduler.rs\<close>): the record \<open>Scheduler\<close> has the
    fields of the struct, and every method is a program of its atomic accesses
    and critical sections.  \<open>turn\<close> is the worker loop of \<open>executor.rs\<close>.
    \<open>Scheduler_Inv\<close>, \<open>Scheduler_Actions\<close>, \<open>Scheduler_Safety\<close>, \<open>Scheduler_Theorems\<close>
    and \<open>Scheduler_Status\<close> hold the invariant, what each action keeps of it,
    and the theorems: no panic, no deadlock, one worker per transaction,
    nothing left to do at the end, and the documented diagram of statuses.
  \<^item> \<open>Parallel_Executor\<close> (\<open>executor.rs\<close>, \<open>view.rs\<close>, \<open>txn_last_input_output.rs\<close>,
    \<open>task.rs\<close>): the workers with their data; \<open>Shared\<close> is the state they share and
    \<open>xreachable\<close> the states reached by some interleaving of a number of workers.
    \<open>Parallel_Map\<close>, \<open>Parallel_Inv\<close>, \<open>Parallel_Steps\<close>, \<open>Parallel_Safety\<close> and
    \<open>Parallel_Finish\<close> hold the invariant of the data and its proof, action by
    action; \<open>Parallel_Theorems\<close> has the theorems: when the workers have stopped,
    every output is that of the virtual machine on the final map, and
    there is no panic and no deadlock.
  \<^item> \<open>Block_Executor\<close> (\<open>block_executor/mod.rs\<close>, \<open>vm_wrapper.rs\<close>, \<open>executor.rs\<close>,
    \<open>output_delta_resolver.rs\<close>): the sequential executor, the resolution of deltas
    and \<open>execute_block\<close>.  \<open>Block_Views\<close> relates the view of a transaction on the
    final map to that of the sequential executor; \<open>Block_Theorems\<close> concludes that
    \<open>execute_block\<close> returns the sequential result at every level of concurrency.

  \<^bold>\<open>The interpreter.\<close>  Files are relative to \<open>src/cfx-evm/src\<close>.
  \<^item> \<open>Evm_Types\<close> (\<open>vm/*.rs\<close>): errors, call parameters, return data, the prices
    of a block number (\<open>Spec\<close>), and the operations of the context.
  \<^item> \<open>Evm_Instructions\<close> (\<open>evm/instructions.rs\<close>): opcodes and their table.
  \<^item> \<open>Evm_Stack\<close>, \<open>Evm_Memory\<close> (\<open>evm/interpreter/stack.rs\<close>, \<open>memory.rs\<close>): the two
    vectors of a frame, each the instance of a locale with the laws of its trait.
  \<^item> \<open>Evm_Cost\<close>, \<open>Evm_Gasometer\<close> (\<open>evm/evm.rs\<close>, \<open>evm/interpreter/gasometer.rs\<close>): gas as a
    word of any width, which covers the two cost types of the source, and the
    price of every instruction.  The memory charge is exact at 64 bits and
    panics at 256 bits for a memory that no \<open>usize\<close> addresses.
  \<^item> \<open>Evm_Arith\<close> (\<open>evm/interpreter/mod.rs\<close>): the arithmetic arms, equal to the
    mathematical operations.
  \<^item> \<open>Memory_Cache\<close> (\<open>src/cfx-evm/utils/memory-cache/src/lib.rs\<close>): the cache bounded
    by the memory of its values.  Insertions end, and what fits is found again;
    the recorded size can drift from that of the entries, by exactly the
    entries that a full container displaces.
  \<^item> \<open>Jump_Analysis\<close> (\<open>evm/interpreter/shared_cache.rs\<close>): jump destinations, and that
    their shared cache does not change them.
  \<^item> \<open>Evm_Interpreter\<close> (\<open>evm/interpreter/mod.rs\<close>, \<open>evm/factory.rs\<close>): the record
    \<open>Interpreter\<close>, one definition per group of arms of \<open>exec_instruction\<close>, the step,
    the loop and the two resumptions.  \<open>Interp_Wp\<close> unfolds weakest
    preconditions over them and shows what the copy instructions write once the
    gasometer has priced them.

  \<^bold>\<open>Parameters.\<close>  Third-party code and what the engine only calls are
  arguments of the definitions: the container \<open>LruCache\<close> (\<open>lru_cache\<close> states its
  documented behaviour, and \<open>list_lru\<close> is an instance), the capacity of a bit set,
  hashing, the serialisation of counters (\<open>codec_ok\<close>, with the instance \<open>be_codec\<close>),
  the storage below a block, and the virtual machine as seen by the executor:
  a transaction is a tree that asks its view for keys and ends with an output.
  \<open>env_ok\<close> and \<open>block_ok\<close> state what is expected of the block; \<open>sample_block\<close> is one
  that meets it.

  \<^bold>\<open>Bounds.\<close>  \<open>usize\<close> is a natural number with checked operations at 64 bits.
  The counters of the scheduler are natural numbers, since a counter of 64 bits
  would wrap only after \<open>2 ^ 64\<close> increments.  The loop of the interpreter,
  \<open>exec_loop\<close>, takes a bound on its steps and no theorem is about it.  The loop
  that empties the cache, \<open>evict\<close>, is a partial function that is proved to end.
  \<open>drive\<close> runs one worker for at most 40 actions in the sample block.  The
  theorems on the workers are about every interleaving, of any number of
  workers and transactions.  Progress means that some worker can take a step;
  that a fair run reaches the end is not shown.

  \<^bold>\<open>Not modelled.\<close>  Memory orderings weaker than sequential consistency (an
  atomic access, a critical section or an operation on the concurrent map is
  one step); the prototype \<open>execute_block_prototype\<close>; the Move and EVM machines
  behind a transaction, with sessions, signatures and gas of the natives; the
  frames and the state above the interpreter; builtins, tracing, logging and
  metrics; and the node around the engine (consensus, mempool, network,
  storage).
\<close>

end
